(* ===== verification/RondPrelude.thy ===== *)
theory RondPrelude
  imports Main "HOL-Library.Word"
begin

unbundle bit_operations_syntax

text \<open>
  The vocabulary every component of the RondOS model shares:
  \<^item> the machine integers of the i686 target (\<open>usize\<close> is 32 bits wide);
  \<^item> the ways a piece of kernel code can end: it returns, it panics (assertion, arithmetic
    overflow, index out of range, \<open>unwrap\<close> on nothing, explicit \<open>panic!\<close>), it runs into
    undefined behaviour, or it never returns;
  \<^item> Rust's integer arithmetic under the two build profiles: the debug build checks for
    overflow and panics, the release build wraps around;
  \<^item> stateful code as computations \<open>('a, 's) comp\<close>, with sequencing, \<open>for\<close> loops over
    ranges and slices, and busy waiting;
  \<^item> the weakest-precondition view of computations the component proofs use.
\<close>

section \<open>Types\<close>

type_synonym u8 = "8 word"
type_synonym u16 = "16 word"
type_synonym u32 = "32 word"
type_synonym u64 = "64 word"
type_synonym usize = "32 word"

named_theorems comp_simps \<open>equations that run a computation on a state\<close>
named_theorems wp_simps \<open>weakest preconditions of the basic computations\<close>
named_theorems arith_ok \<open>checked arithmetic that does not overflow\<close>

text \<open>
  The build profile decides what an arithmetic overflow does: \<open>cargo build\<close> (Debug) panics,
  \<open>cargo build --release\<close> wraps around.
\<close>

datatype profile = Debug | Release

datatype panic =
    AssertFailed
  | ArithOverflow
  | DivByZero
  | IndexOutOfBounds
  | UnwrapNone
  | UnwrapErr
  | PanicMsg string

datatype ('a, 's) outcome =
    Done 'a 's
  | Panicked panic 's
  | Undefined

text \<open>
  A computation maps a state to an outcome; \<open>None\<close> means that it never returns.
\<close>

type_synonym ('a, 's) comp = "'s \<Rightarrow> ('a, 's) outcome option"


section \<open>Pure code that may panic\<close>

text \<open>A pure function that may panic has type \<open>panic + 'a\<close>; \<open>chain\<close> sequences two of them.\<close>

fun chain :: "panic + 'a \<Rightarrow> ('a \<Rightarrow> panic + 'b) \<Rightarrow> panic + 'b" where
  "chain (Inl p) f = Inl p"
| "chain (Inr a) f = f a"

definition ensure :: "bool \<Rightarrow> panic + unit" where
  "ensure b = (if b then Inr () else Inl AssertFailed)"

lemma ensure_simps [simp]:
  "ensure True = Inr ()"
  "ensure False = Inl AssertFailed"
  by (simp_all add: ensure_def)

lemma chain_eq_Inr:
  "chain r f = Inr b \<longleftrightarrow> (\<exists>a. r = Inr a \<and> f a = Inr b)"
  by (cases r) auto

subsection \<open>Checked arithmetic\<close>

definition overflow :: "profile \<Rightarrow> 'a \<Rightarrow> panic + 'a" where
  "overflow pr wrapped = (case pr of Debug \<Rightarrow> Inl ArithOverflow | Release \<Rightarrow> Inr wrapped)"

definition uadd :: "profile \<Rightarrow> 'w::len word \<Rightarrow> 'w word \<Rightarrow> panic + 'w word" where
  "uadd pr a b = (if unat a + unat b < 2 ^ LENGTH('w) then Inr (a + b) else overflow pr (a + b))"

definition usub :: "profile \<Rightarrow> 'w::len word \<Rightarrow> 'w word \<Rightarrow> panic + 'w word" where
  "usub pr a b = (if b \<le> a then Inr (a - b) else overflow pr (a - b))"

definition umul :: "profile \<Rightarrow> 'w::len word \<Rightarrow> 'w word \<Rightarrow> panic + 'w word" where
  "umul pr a b = (if unat a * unat b < 2 ^ LENGTH('w) then Inr (a * b) else overflow pr (a * b))"

text \<open>Division by zero panics under both profiles.\<close>

definition udiv :: "'w::len word \<Rightarrow> 'w word \<Rightarrow> panic + 'w word" where
  "udiv a b = (if b = 0 then Inl DivByZero else Inr (a div b))"

text \<open>
  Shifts: the amount must be smaller than the width; otherwise the debug build panics and the
  release build uses the amount modulo the width (the widths are powers of two).
\<close>

definition ushl :: "profile \<Rightarrow> 'w::len word \<Rightarrow> usize \<Rightarrow> panic + 'w word" where
  "ushl pr a n = (if unat n < LENGTH('w) then Inr (push_bit (unat n) a)
                  else overflow pr (push_bit (unat n mod LENGTH('w)) a))"

definition ushr :: "profile \<Rightarrow> 'w::len word \<Rightarrow> usize \<Rightarrow> panic + 'w word" where
  "ushr pr a n = (if unat n < LENGTH('w) then Inr (drop_bit (unat n) a)
                  else overflow pr (drop_bit (unat n mod LENGTH('w)) a))"

lemma uadd_ok [arith_ok]: "unat a + unat b < 2 ^ LENGTH('w::len) \<Longrightarrow> uadd pr a (b :: 'w word) = Inr (a + b)"
  by (simp add: uadd_def)

lemma usub_ok [arith_ok]: "b \<le> a \<Longrightarrow> usub pr a b = Inr (a - b)"
  by (simp add: usub_def)

lemma umul_ok [arith_ok]: "unat a * unat b < 2 ^ LENGTH('w::len) \<Longrightarrow> umul pr a (b :: 'w word) = Inr (a * b)"
  by (simp add: umul_def)

lemma udiv_ok [arith_ok]: "b \<noteq> 0 \<Longrightarrow> udiv a b = Inr (a div b)"
  by (simp add: udiv_def)

lemma ushl_ok [arith_ok]: "unat n < LENGTH('w::len) \<Longrightarrow> ushl pr (a :: 'w word) n = Inr (push_bit (unat n) a)"
  by (simp add: ushl_def)

lemma ushr_ok [arith_ok]: "unat n < LENGTH('w::len) \<Longrightarrow> ushr pr (a :: 'w word) n = Inr (drop_bit (unat n) a)"
  by (simp add: ushr_def)

lemma uadd_debug_overflow:
  "2 ^ LENGTH('w::len) \<le> unat a + unat b \<Longrightarrow> uadd Debug a (b :: 'w word) = Inl ArithOverflow"
  by (simp add: uadd_def overflow_def)

lemma release_never_panics:
  "uadd Release a b = Inr (a + b)"
  "usub Release a b = Inr (a - b)"
  "umul Release a b = Inr (a * b)"
  by (simp_all add: uadd_def usub_def umul_def overflow_def)


section \<open>Computations\<close>

definition ret :: "'a \<Rightarrow> ('a, 's) comp" where
  "ret a s = Some (Done a s)"

definition bnd :: "('a, 's) comp \<Rightarrow> ('a \<Rightarrow> ('b, 's) comp) \<Rightarrow> ('b, 's) comp" where
  "bnd m f s =
     Option.bind (m s) (\<lambda>r. case r of
         Done a s' \<Rightarrow> f a s'
       | Panicked p s' \<Rightarrow> Some (Panicked p s')
       | Undefined \<Rightarrow> Some Undefined)"

definition andthen :: "('a, 's) comp \<Rightarrow> ('b, 's) comp \<Rightarrow> ('b, 's) comp" where
  "andthen m m' = bnd m (\<lambda>_. m')"

definition panicking :: "panic \<Rightarrow> ('a, 's) comp" where
  "panicking p s = Some (Panicked p s)"

definition undef :: "('a, 's) comp" where
  "undef s = Some Undefined"

definition lift :: "panic + 'a \<Rightarrow> ('a, 's) comp" where
  "lift r = (case r of Inl p \<Rightarrow> panicking p | Inr a \<Rightarrow> ret a)"

definition gets :: "('s \<Rightarrow> 'a) \<Rightarrow> ('a, 's) comp" where
  "gets f s = Some (Done (f s) s)"

definition modify :: "('s \<Rightarrow> 's) \<Rightarrow> (unit, 's) comp" where
  "modify f s = Some (Done () (f s))"

definition check :: "bool \<Rightarrow> (unit, 's) comp" where
  "check b = (if b then ret () else panicking AssertFailed)"

lemma run_basic [comp_simps]:
  "ret a s = Some (Done a s)"
  "panicking p s = Some (Panicked p s)"
  "undef s = Some Undefined"
  "gets g s = Some (Done (g s) s)"
  "modify h s = Some (Done () (h s))"
  by (simp_all add: ret_def panicking_def undef_def gets_def modify_def)

lemma lift_simps [comp_simps, simp]:
  "lift (Inl p) = panicking p"
  "lift (Inr a) = ret a"
  by (simp_all add: lift_def)

lemma check_simps [comp_simps, simp]:
  "check True = ret ()"
  "check False = panicking AssertFailed"
  by (simp_all add: check_def)

lemma bnd_run [comp_simps]:
  "m s = Some (Done a s') \<Longrightarrow> bnd m f s = f a s'"
  "m s = Some (Panicked p s') \<Longrightarrow> bnd m f s = Some (Panicked p s')"
  "m s = Some Undefined \<Longrightarrow> bnd m f s = Some Undefined"
  "m s = None \<Longrightarrow> bnd m f s = None"
  "m' s = Some (Done False s') \<Longrightarrow> bnd m' g s = g False s'"
  "m' s = Some (Done True s') \<Longrightarrow> bnd m' g s = g True s'"
  by (simp_all add: bnd_def)

lemma andthen_run [comp_simps]:
  "m s = Some (Done a s') \<Longrightarrow> andthen m k s = k s'"
  "m s = Some (Panicked p s') \<Longrightarrow> andthen m k s = Some (Panicked p s')"
  "m s = Some Undefined \<Longrightarrow> andthen m k s = Some Undefined"
  "m s = None \<Longrightarrow> andthen m k s = None"
  by (simp_all add: andthen_def bnd_def)

text \<open>A sequence that returns is two computations that return.\<close>

lemma bnd_Done:
  assumes "bnd m f s = Some (Done b s')"
  obtains a s1 where "m s = Some (Done a s1)" "f a s1 = Some (Done b s')"
  using assms by (auto simp: bnd_def split: outcome.splits Option.bind_splits)

lemma andthen_Done:
  assumes "andthen m k s = Some (Done b s')"
  obtains a s1 where "m s = Some (Done a s1)" "k s1 = Some (Done b s')"
  using assms unfolding andthen_def by (rule bnd_Done)

lemma bnd_ret [simp]: "bnd (ret a) f = f a"
  by (rule ext) (simp add: bnd_def ret_def)

lemma bnd_panicking [simp]: "bnd (panicking p) f = panicking p"
  by (rule ext) (simp add: bnd_def panicking_def)

lemma bnd_gets [simp]: "bnd (gets g) f s = f (g s) s"
  by (simp add: bnd_def gets_def)

lemma bnd_modify [simp]: "bnd (modify g) f s = f () (g s)"
  by (simp add: bnd_def modify_def)

lemma bnd_undef [simp]: "bnd undef f = undef"
  by (rule ext) (simp add: bnd_def undef_def)

lemma andthen_ret [simp]: "andthen (ret a) m = m"
  by (simp add: andthen_def)

lemma andthen_modify [simp]: "andthen (modify g) m s = m (g s)"
  by (simp add: andthen_def)

lemma andthen_panicking [simp]: "andthen (panicking p) m = panicking p"
  by (simp add: andthen_def)

lemma bnd_assoc: "bnd (bnd m f) g = bnd m (\<lambda>a. bnd (f a) g)"
  by (rule ext) (auto simp: bnd_def split: outcome.splits option.splits Option.bind_splits)

lemma andthen_assoc: "andthen (andthen m n) k = andthen m (andthen n k)"
  by (simp add: andthen_def bnd_assoc)

lemma bnd_ret_right [simp]: "bnd m ret = m"
  by (rule ext) (auto simp: bnd_def ret_def split: outcome.splits Option.bind_splits)

lemma bnd_mono [partial_function_mono]:
  assumes "mono_option (\<lambda>f. m f s)"
    and "\<And>a s'. mono_option (\<lambda>f. k f a s')"
  shows "mono_option (\<lambda>f. bnd (m f) (k f) s)"
  unfolding bnd_def
proof (rule bind_mono)
  show "mono_option (\<lambda>f. m f s)" by fact
next
  fix r
  show "mono_option (\<lambda>f. case r of Done a s' \<Rightarrow> k f a s'
      | Panicked p s' \<Rightarrow> Some (Panicked p s') | Undefined \<Rightarrow> Some Undefined)"
    by (cases r) (auto intro: assms(2) option.const_mono)
qed

subsection \<open>Loops\<close>

text \<open>\<open>for i in a..b { body }\<close>: the index is a machine word, the number of rounds a \<open>nat\<close>.\<close>

primrec for_count :: "(usize \<Rightarrow> (unit, 's) comp) \<Rightarrow> nat \<Rightarrow> usize \<Rightarrow> (unit, 's) comp" where
  "for_count body 0 i = ret ()"
| "for_count body (Suc n) i = andthen (body i) (for_count body n (i + 1))"

definition for_range :: "usize \<Rightarrow> usize \<Rightarrow> (usize \<Rightarrow> (unit, 's) comp) \<Rightarrow> (unit, 's) comp" where
  "for_range a b body = for_count body (unat b - unat a) a"

text \<open>A loop that panics in an iteration has done the earlier ones.\<close>

lemma for_count_panics:
  assumes "for_count body j i s = Some (Done () s')" "body (i + of_nat j) s' = Some (Panicked p s'')" "j < n"
  shows "for_count body n i s = Some (Panicked p s'')"
  using assms
proof (induction j arbitrary: i n s)
  case 0
  then show ?case by (cases n) (simp_all add: andthen_run run_basic)
next
  case (Suc j)
  obtain s1 where s1: "body i s = Some (Done () s1)" "for_count body j (i + 1) s1 = Some (Done () s')"
    using Suc.prems(1) by (auto simp: andthen_def bnd_def split: outcome.splits Option.bind_splits)
  obtain n' where n': "n = Suc n'" "j < n'" using Suc.prems(3) by (cases n) auto
  have "for_count body n' (i + 1) s1 = Some (Panicked p s'')"
    by (rule Suc.IH [OF s1(2) _ n'(2)]) (use Suc.prems(2) in \<open>simp add: add.assoc\<close>)
  then show ?case using s1(1) by (simp add: n'(1) andthen_run)
qed

text \<open>A loop over the elements of a slice that threads a value (the \<open>&mut self\<close> of a method).\<close>

primrec fold_each :: "('x \<Rightarrow> 'v \<Rightarrow> ('v, 's) comp) \<Rightarrow> 'x list \<Rightarrow> 'v \<Rightarrow> ('v, 's) comp" where
  "fold_each body [] v = ret v"
| "fold_each body (x # xs) v = bnd (body x v) (fold_each body xs)"

lemma fold_each_nil [simp]: "fold_each body [] = ret"
  by (rule ext) simp

lemma fold_each_append:
  "fold_each body (xs @ ys) v = bnd (fold_each body xs v) (fold_each body ys)"
proof (induction xs arbitrary: v)
  case Nil
  then show ?case by simp
next
  case (Cons x xs)
  have "fold_each body (xs @ ys) = (\<lambda>v. bnd (fold_each body xs v) (fold_each body ys))"
    by (rule ext) (rule Cons.IH)
  then show ?case by (simp add: bnd_assoc)
qed

text \<open>A list of statements in order.\<close>

primrec block :: "(unit, 's) comp list \<Rightarrow> (unit, 's) comp" where
  "block [] = ret ()"
| "block (m # ms) = andthen m (block ms)"

lemma block_append: "block (xs @ ys) = andthen (block xs) (block ys)"
  by (induction xs) (simp_all add: andthen_assoc)

text \<open>\<open>while !cond { spin_loop() }\<close>: \<open>None\<close> when the condition never becomes true.\<close>

partial_function (option) spin_until :: "(bool, 's) comp \<Rightarrow> 's \<Rightarrow> (unit, 's) outcome option" where
  "spin_until cond s = bnd cond (\<lambda>b s'. if b then ret () s' else spin_until cond s') s"

lemma spin_until_stop: "cond s = Some (Done True s') \<Longrightarrow> spin_until cond s = Some (Done () s')"
  by (subst spin_until.simps) (simp add: bnd_run run_basic)

lemma spin_until_again: "cond s = Some (Done False s') \<Longrightarrow> spin_until cond s = spin_until cond s'"
  by (subst spin_until.simps) (simp add: bnd_def)

text \<open>
  A set of states closed under failing polls: from there the wait never ends.
\<close>

lemma spin_until_diverges:
  assumes "\<And>s. I s \<Longrightarrow> \<exists>s'. cond s = Some (Done False s') \<and> I s'" and "I s"
  shows "spin_until cond s = None"
proof -
  have "c = cond \<longrightarrow> \<not> I s" if "spin_until c s = Some r" for c s r
  proof (rule spin_until.raw_induct [where P = "\<lambda>c s r. c = cond \<longrightarrow> \<not> I s", OF _ that])
    fix f c s r
    assume IH: "\<And>c s r. f c s = Some r \<Longrightarrow> c = cond \<longrightarrow> \<not> I s"
      and run: "bnd c (\<lambda>b s'. if b then ret () s' else f c s') s = Some r"
    show "c = cond \<longrightarrow> \<not> I s"
    proof (intro impI notI)
      assume "c = cond" "I s"
      then obtain s' where "cond s = Some (Done False s')" "I s'" using assms(1) by blast
      then show False using run IH [of cond s'] \<open>c = cond\<close> by (simp add: bnd_run)
    qed
  qed
  then show ?thesis using assms(2) by (cases "spin_until cond s") auto
qed

text \<open>\<open>loop {}\<close> and \<open>loop { hlt }\<close>: nothing ends them.\<close>

definition forever :: "('a, 's) comp" where
  "forever = bnd (spin_until (ret False)) (\<lambda>_. undef)"

lemma forever_hangs: "(forever :: ('a, 's) comp) s = None"
proof -
  have "spin_until (ret False) s = None"
    by (rule spin_until_diverges [where I = "\<lambda>_. True"]) (simp_all add: run_basic)
  then show ?thesis by (simp add: forever_def bnd_run)
qed

subsection \<open>Weakest preconditions\<close>

text \<open>\<open>wp m Q s\<close>: started in \<open>s\<close>, the computation returns and its result satisfies \<open>Q\<close>.\<close>

definition wp :: "('a, 's) comp \<Rightarrow> ('a \<Rightarrow> 's \<Rightarrow> bool) \<Rightarrow> 's \<Rightarrow> bool" where
  "wp m Q s \<longleftrightarrow> (case m s of Some (Done a s') \<Rightarrow> Q a s' | _ \<Rightarrow> False)"

lemma wp_iff: "wp m Q s \<longleftrightarrow> (\<exists>a s'. m s = Some (Done a s') \<and> Q a s')"
  by (auto simp: wp_def split: option.splits outcome.splits)

lemma wp_bnd [wp_simps]: "wp (bnd m f) Q s \<longleftrightarrow> wp m (\<lambda>a. wp (f a) Q) s"
  by (auto simp: wp_def bnd_def split: option.splits outcome.splits Option.bind_splits)

lemma wp_andthen [wp_simps]: "wp (andthen m k) Q s \<longleftrightarrow> wp m (\<lambda>_. wp k Q) s"
  by (simp add: andthen_def wp_bnd)

lemma wp_basic [wp_simps]:
  "wp (ret a) Q s \<longleftrightarrow> Q a s"
  "wp (panicking p) Q s \<longleftrightarrow> False"
  "wp undef Q s \<longleftrightarrow> False"
  "wp (gets g) Q s \<longleftrightarrow> Q (g s) s"
  "wp (modify h) R s \<longleftrightarrow> R () (h s)"
  "wp (check b) R s \<longleftrightarrow> b \<and> R () s"
  by (simp_all add: wp_def check_def run_basic)

lemma wp_ext: "wp (andthen m k) Q = wp m (\<lambda>_. wp k Q)" "wp (ret a) R = R a"
  by (rule ext, simp add: wp_andthen wp_basic)+

lemma wp_mono: "wp m Q s \<Longrightarrow> (\<And>a s'. Q a s' \<Longrightarrow> R a s') \<Longrightarrow> wp m R s"
  by (auto simp: wp_iff)

lemma wp_for_count:
  assumes "I 0 s"
    and "\<And>k s. k < n \<Longrightarrow> I k s \<Longrightarrow> wp (body (i + of_nat k)) (\<lambda>_. I (Suc k)) s"
  shows "wp (for_count body n i) (\<lambda>_. I n) s"
  using assms
proof (induction n arbitrary: i I s)
  case 0
  then show ?case by (simp add: wp_simps)
next
  case (Suc n)
  have "wp (body i) (\<lambda>_. I 1) s"
    using Suc.prems(2) [of 0 s] Suc.prems(1) by simp
  moreover have "wp (for_count body n (i + 1)) (\<lambda>_. I (Suc n)) t" if "I 1 t" for t
  proof (rule Suc.IH [where I = "\<lambda>k. I (Suc k)"])
    show "I (Suc 0) t" using that by simp
    show "wp (body (i + 1 + of_nat k)) (\<lambda>_. I (Suc (Suc k))) u" if "k < n" "I (Suc k) u" for k u
      using Suc.prems(2) [of "Suc k" u] that by (simp add: add.assoc)
  qed
  ultimately show ?case
    by (auto simp: wp_simps elim: wp_mono)
qed

lemma wp_fold_each:
  assumes "I [] v s"
    and "\<And>pre x post v s. xs = pre @ x # post \<Longrightarrow> I pre v s \<Longrightarrow> wp (body x v) (I (pre @ [x])) s"
  shows "wp (fold_each body xs v) (I xs) s"
  using assms
proof (induction xs arbitrary: I v s)
  case Nil
  then show ?case by (simp add: wp_simps)
next
  case (Cons x xs)
  have "wp (body x v) (I [x]) s"
    using Cons.prems(2) [of "[]" x xs v s] Cons.prems(1) by simp
  moreover have "wp (fold_each body xs w) (I (x # xs)) t" if "I [x] w t" for w t
  proof (rule Cons.IH [where I = "\<lambda>ys. I (x # ys)"])
    show "I [x] w t" by fact
    show "wp (body y w) (I (x # pre @ [y])) u" if "xs = pre @ y # post" "I (x # pre) w u"
      for pre y post w u
      using Cons.prems(2) [of "x # pre" y post w u] that by simp
  qed
  ultimately show ?case
    by (auto simp: wp_simps elim: wp_mono)
qed


section \<open>Words\<close>

lemma unat_plus_bounded:
  "unat a + unat b < 2 ^ LENGTH('w::len) \<Longrightarrow> unat (a + b :: 'w word) = unat a + unat b"
  by (simp add: unat_word_ariths)

lemma unat_mult_bounded:
  "unat a * unat b < 2 ^ LENGTH('w::len) \<Longrightarrow> unat (a * b :: 'w word) = unat a * unat b"
  by (simp add: unat_word_ariths)

lemma unat_minus_bounded: "b \<le> a \<Longrightarrow> unat (a - b) = unat a - unat b"
  by (simp add: unat_sub)

lemma unat_of_nat_bounded: "n < 2 ^ LENGTH('w::len) \<Longrightarrow> unat (of_nat n :: 'w word) = n"
  by (simp add: unat_of_nat take_bit_nat_eq_self)

lemma word_eq_nat_iff: "(a :: 'w::len word) = b \<longleftrightarrow> unat a = unat b"
  by (simp add: word_unat_eq_iff)

lemma bit_below_exp: "unat (x :: 'w::len word) < 2 ^ n \<Longrightarrow> bit x i \<Longrightarrow> i < n"
proof -
  assume *: "unat x < 2 ^ n" "bit x i"
  then have "bit (unat x) i" by (simp add: bit_unsigned_iff)
  moreover have "take_bit n (unat x) = unat x" using *(1) by (rule take_bit_nat_eq_self)
  ultimately show ?thesis by (metis bit_take_bit_iff)
qed

lemma unat_take_bit_less: "unat (take_bit n (x :: 'w::len word)) < 2 ^ n"
  by (simp add: unsigned_take_bit_eq)

lemma unat_ucast_mod: "unat (ucast (w :: 'v::len word) :: 'w::len word) = unat w mod 2 ^ LENGTH('w)"
  by (simp add: unsigned_ucast_eq take_bit_eq_mod)

lemmas unat_bounded = unat_plus_bounded unat_mult_bounded unat_minus_bounded unat_of_nat_bounded

section \<open>Lists of fixed-width chunks\<close>

lemma concat_slice:
  assumes "\<forall>x \<in> set xs. length x = n" and "i < length xs"
  shows "take n (drop (n * i) (concat xs)) = xs ! i"
  using assms
proof (induction xs arbitrary: i)
  case Nil
  then show ?case by simp
next
  case (Cons x xs)
  then show ?case
    by (cases i) (simp_all add: drop_append)
qed

lemma length_concat_const: "\<forall>x \<in> set xs. length x = n \<Longrightarrow> length (concat xs) = n * length xs"
  by (induction xs) simp_all

section \<open>Reachable states\<close>

inductive reach :: "('s \<Rightarrow> bool) \<Rightarrow> ('s \<Rightarrow> 's \<Rightarrow> bool) \<Rightarrow> 's \<Rightarrow> bool"
  for init :: "'s \<Rightarrow> bool" and step :: "'s \<Rightarrow> 's \<Rightarrow> bool" where
  reach_init: "init s \<Longrightarrow> reach init step s"
| reach_step: "reach init step s \<Longrightarrow> step s t \<Longrightarrow> reach init step t"

lemma reach_star:
  assumes "step\<^sup>*\<^sup>* s t" "reach init step s"
  shows "reach init step t"
  using assms by (induction rule: rtranclp_induct) (auto intro: reach_step)

text \<open>What a state machine has to show for an invariant, and what it gets.\<close>

locale invariant_system =
  fixes init :: "'s \<Rightarrow> bool"
    and step :: "'s \<Rightarrow> 's \<Rightarrow> bool"
    and inv :: "'s \<Rightarrow> bool"
  assumes inv_init: "init s \<Longrightarrow> inv s"
    and inv_step: "inv s \<Longrightarrow> step s t \<Longrightarrow> inv t"
begin

lemma reach_inv: "reach init step s \<Longrightarrow> inv s"
  by (induction rule: reach.induct) (auto intro: inv_init inv_step)

end

section \<open>Interleavings of lists\<close>

lemma shuffles_append:
  "zs \<in> shuffles xs ys \<Longrightarrow> us \<in> shuffles vs ws \<Longrightarrow> zs @ us \<in> shuffles (xs @ vs) (ys @ ws)"
proof (induction zs arbitrary: xs ys)
  case (Cons z zs)
  then consider xs' where "xs = z # xs'" "zs \<in> shuffles xs' ys" | ys' where "ys = z # ys'" "zs \<in> shuffles xs ys'"
    by (auto simp: Cons_in_shuffles_iff neq_Nil_conv)
  then show ?case
    by cases (use Cons.IH Cons.prems(2) in \<open>auto intro: Cons_in_shuffles_leftI Cons_in_shuffles_rightI\<close>)
qed simp

end
