(* ===== verification/RondBits.thy ===== *)
theory RondBits
  imports RondPrelude
begin

text \<open>
  The bit-field access of \<open>src/kernel/src/utils/mod.rs\<close>: the trait \<open>BitAccess\<close>, its macro
  implementation for \<open>u8\<close>, \<open>u16\<close> and \<open>u32\<close>, and the normalisation of Rust's range arguments.
  The locale \<open>bit_access\<close> is the contract of the trait; it is interpreted on the three
  implementing types, and the descriptor formats (interrupt gates, segment selectors, page
  table entries) rest on the facts it gives.
\<close>

section \<open>Ranges\<close>

datatype bound = Included usize | Excluded usize | Unbounded

type_synonym bit_range = "bound \<times> bound"

definition to_regular_range :: "profile \<Rightarrow> bit_range \<Rightarrow> usize \<Rightarrow> panic + usize \<times> usize" where
  "to_regular_range pr generic_range bit_length =
     chain (case fst generic_range of
              Excluded value \<Rightarrow> uadd pr value 1
            | Included value \<Rightarrow> Inr value
            | Unbounded \<Rightarrow> Inr 0) (\<lambda>start.
     chain (case snd generic_range of
              Excluded value \<Rightarrow> Inr value
            | Included value \<Rightarrow> uadd pr value 1
            | Unbounded \<Rightarrow> Inr bit_length) (\<lambda>stop.
     Inr (start, stop)))"

section \<open>The implementation\<close>

definition BIT_LENGTH :: "'w::len itself \<Rightarrow> usize" where
  "BIT_LENGTH t = of_nat (LENGTH('w) div 8) * 8"

definition get_bit :: "profile \<Rightarrow> 'w::len word \<Rightarrow> usize \<Rightarrow> panic + bool" where
  "get_bit pr self idx =
     chain (ensure (idx < BIT_LENGTH TYPE('w))) (\<lambda>_.
     chain (ushl pr 1 idx) (\<lambda>m.
     Inr (self AND m \<noteq> 0)))"

definition get_bits :: "profile \<Rightarrow> 'w::len word \<Rightarrow> bit_range \<Rightarrow> panic + 'w word" where
  "get_bits pr self rng =
     chain (to_regular_range pr rng (BIT_LENGTH TYPE('w))) (\<lambda>(start, stop).
     chain (ensure (start < BIT_LENGTH TYPE('w))) (\<lambda>_.
     chain (ensure (stop \<le> BIT_LENGTH TYPE('w))) (\<lambda>_.
     chain (ensure (start < stop)) (\<lambda>_.
     chain (usub pr (BIT_LENGTH TYPE('w)) stop) (\<lambda>k.
     chain (ushl pr self k) (\<lambda>high.
     chain (ushr pr high k) (\<lambda>bits.
     ushr pr bits start)))))))"

definition set_bit :: "profile \<Rightarrow> 'w::len word \<Rightarrow> usize \<Rightarrow> bool \<Rightarrow> panic + 'w word" where
  "set_bit pr self idx value =
     chain (ensure (idx < BIT_LENGTH TYPE('w))) (\<lambda>_.
     chain (ushl pr 1 idx) (\<lambda>m.
     Inr (if value then self OR m else self AND NOT m)))"

definition set_bits :: "profile \<Rightarrow> 'w::len word \<Rightarrow> bit_range \<Rightarrow> 'w word \<Rightarrow> panic + 'w word" where
  "set_bits pr self rng value =
     chain (to_regular_range pr rng (BIT_LENGTH TYPE('w))) (\<lambda>(start, stop).
     chain (ensure (start < BIT_LENGTH TYPE('w))) (\<lambda>_.
     chain (ensure (stop \<le> BIT_LENGTH TYPE('w))) (\<lambda>_.
     chain (ensure (start < stop)) (\<lambda>_.
     chain (usub pr stop start) (\<lambda>width.
     chain (usub pr (BIT_LENGTH TYPE('w)) width) (\<lambda>j.
     chain (ushl pr value j) (\<lambda>vhigh.
     chain (ushr pr vhigh j) (\<lambda>vlow.
     chain (if vlow = value then Inr () else Inl (PanicMsg ''value does not fit into bit range'')) (\<lambda>_.
     chain (usub pr (BIT_LENGTH TYPE('w)) stop) (\<lambda>k.
     chain (ushl pr (NOT 0) k) (\<lambda>m1.
     chain (ushr pr m1 k) (\<lambda>m2.
     chain (ushr pr m2 start) (\<lambda>m3.
     chain (ushl pr m3 start) (\<lambda>m4.
     chain (ushl pr value start) (\<lambda>shifted.
     Inr ((self AND NOT m4) OR shifted))))))))))))))))"

section \<open>What the operations compute\<close>

text \<open>
  The implementing types have a whole number of bytes and fit the address space; a generic
  width is restricted to those.
\<close>

definition byte_width :: "'w::len itself \<Rightarrow> bool" where
  "byte_width t \<longleftrightarrow> LENGTH('w) mod 8 = 0 \<and> LENGTH('w) < 2 ^ 32"

lemma byte_width_simps [simp]:
  "byte_width TYPE(8)" "byte_width TYPE(16)" "byte_width TYPE(32)"
  by (simp_all add: byte_width_def)

lemma unat_BIT_LENGTH [simp]:
  assumes "byte_width TYPE('w::len)"
  shows "unat (BIT_LENGTH TYPE('w)) = LENGTH('w)"
proof -
  have "LENGTH('w) div 8 * 8 = LENGTH('w)" and "LENGTH('w) < 2 ^ 32"
    using assms by (auto simp: byte_width_def)
  then have "BIT_LENGTH TYPE('w) = of_nat (LENGTH('w))"
    unfolding BIT_LENGTH_def by (metis of_nat_mult of_nat_numeral)
  then show ?thesis
    using \<open>LENGTH('w) < 2 ^ 32\<close> by (simp add: unat_of_nat_bounded)
qed

lemma less_BIT_LENGTH [simp]:
  "byte_width TYPE('w::len) \<Longrightarrow> idx < BIT_LENGTH TYPE('w) \<longleftrightarrow> unat idx < LENGTH('w)"
  by (simp add: word_less_nat_alt)

lemma le_BIT_LENGTH [simp]:
  "byte_width TYPE('w::len) \<Longrightarrow> idx \<le> BIT_LENGTH TYPE('w) \<longleftrightarrow> unat idx \<le> LENGTH('w)"
  by (simp add: word_le_nat_alt)

text \<open>The field a range denotes, as a half-open interval of bit positions, when it is valid.\<close>

definition field_of :: "profile \<Rightarrow> nat \<Rightarrow> bit_range \<Rightarrow> nat \<times> nat \<Rightarrow> bool" where
  "field_of pr len rng f \<longleftrightarrow>
     (\<exists>start stop. to_regular_range pr rng (of_nat len) = Inr (start, stop)
        \<and> f = (unat start, unat stop)) \<and> fst f < snd f \<and> snd f \<le> len"

lemma BIT_LENGTH_of_nat: "byte_width TYPE('w::len) \<Longrightarrow> BIT_LENGTH TYPE('w) = of_nat (LENGTH('w))"
  by (simp add: word_eq_nat_iff unat_of_nat_bounded byte_width_def)

lemma get_bit_eq:
  "byte_width TYPE('w::len) \<Longrightarrow> unat idx < LENGTH('w) \<Longrightarrow>
   get_bit pr (x :: 'w word) idx = Inr (bit x (unat idx))"
  by (simp add: get_bit_def arith_ok bit_iff_and_push_bit_not_eq_0)

lemma set_bit_eq:
  "byte_width TYPE('w::len) \<Longrightarrow> unat idx < LENGTH('w) \<Longrightarrow>
   set_bit pr (x :: 'w word) idx b =
     Inr (if b then x OR push_bit (unat idx) 1 else x AND NOT (push_bit (unat idx) 1))"
  by (simp add: set_bit_def arith_ok)

lemma get_bits_eq:
  fixes x :: "'w::len word"
  assumes w: "byte_width TYPE('w)" and f: "field_of pr LENGTH('w) r (s, e)"
  shows "get_bits pr x r = Inr (drop_bit s (take_bit e x))"
proof -
  obtain start stop where r: "to_regular_range pr r (BIT_LENGTH TYPE('w)) = Inr (start, stop)"
    and se: "unat start = s" "unat stop = e" "s < e" "e \<le> LENGTH('w)"
    using f w by (auto simp: field_of_def BIT_LENGTH_of_nat)
  have k: "unat (BIT_LENGTH TYPE('w) - stop) = LENGTH('w) - e"
    using se w by (simp add: unat_minus_bounded)
  have "drop_bit (LENGTH('w) - e) (push_bit (LENGTH('w) - e) x) = take_bit e x"
    by (rule bit_word_eqI) (use se in \<open>auto simp: bit_simps\<close>)
  then show ?thesis
    using r se k w
    by (simp add: get_bits_def arith_ok word_less_nat_alt del: drop_bit_drop_bit)
qed

lemma set_bits_eq:
  fixes x v :: "'w::len word"
  assumes w: "byte_width TYPE('w)" and f: "field_of pr LENGTH('w) r (s, e)"
  shows "set_bits pr x r v =
    (if take_bit (e - s) v = v
     then Inr ((x AND NOT (mask e AND NOT (mask s))) OR push_bit s v)
     else Inl (PanicMsg ''value does not fit into bit range''))"
proof -
  obtain start stop where r: "to_regular_range pr r (BIT_LENGTH TYPE('w)) = Inr (start, stop)"
    and se: "unat start = s" "unat stop = e" "s < e" "e \<le> LENGTH('w)"
    using f w by (auto simp: field_of_def BIT_LENGTH_of_nat)
  have wd: "unat (stop - start) = e - s"
    using se by (simp add: unat_minus_bounded word_le_nat_alt)
  have k: "unat (BIT_LENGTH TYPE('w) - stop) = LENGTH('w) - e"
    using se w by (simp add: unat_minus_bounded)
  have j: "unat (BIT_LENGTH TYPE('w) - (stop - start)) = LENGTH('w) - (e - s)"
    using se w wd by (simp add: unat_minus_bounded)
  have v: "drop_bit (LENGTH('w) - (e - s)) (push_bit (LENGTH('w) - (e - s)) v) = take_bit (e - s) v"
    by (rule bit_word_eqI) (use se in \<open>auto simp: bit_simps\<close>)
  have m: "push_bit s (drop_bit s (drop_bit (LENGTH('w) - e) (push_bit (LENGTH('w) - e) (NOT 0))))
      = (mask e AND NOT (mask s) :: 'w word)"
    by (rule bit_word_eqI) (use se in \<open>auto simp: bit_simps\<close>)
  show ?thesis
    using r se k j wd v m w
    by (simp add: set_bits_def arith_ok word_less_nat_alt word_le_nat_alt
      del: drop_bit_drop_bit)
qed

section \<open>The contract of the trait\<close>

text \<open>
  \<open>BitAccess\<close> as its clients use it: \<open>field r (s, e)\<close> says that the range \<open>r\<close> denotes the bits
  \<open>s ..< e\<close>, \<open>fits n v\<close> that \<open>v\<close> needs at most \<open>n\<close> bits. Inside a valid field reads give back
  what was written, and a write leaves every other position alone.
\<close>

locale bit_access =
  fixes width :: nat
    and field :: "bit_range \<Rightarrow> nat \<times> nat \<Rightarrow> bool"
    and fits :: "nat \<Rightarrow> 'v \<Rightarrow> bool"
    and gbit :: "'v \<Rightarrow> usize \<Rightarrow> panic + bool"
    and gbits :: "'v \<Rightarrow> bit_range \<Rightarrow> panic + 'v"
    and sbit :: "'v \<Rightarrow> usize \<Rightarrow> bool \<Rightarrow> panic + 'v"
    and sbits :: "'v \<Rightarrow> bit_range \<Rightarrow> 'v \<Rightarrow> panic + 'v"
  assumes sbit_total: "unat i < width \<Longrightarrow> \<exists>y. sbit x i b = Inr y"
    and sbits_total: "field r (s, e) \<Longrightarrow> fits (e - s) v \<Longrightarrow> \<exists>y. sbits x r v = Inr y"
    and gbit_sbit: "unat i < width \<Longrightarrow> unat j < width \<Longrightarrow> sbit x i b = Inr y \<Longrightarrow>
      gbit y j = (if i = j then Inr b else gbit x j)"
    and gbits_sbits: "field r (s, e) \<Longrightarrow> fits (e - s) v \<Longrightarrow> sbits x r v = Inr y \<Longrightarrow>
      gbits y r = Inr v"
    and gbit_sbits: "field r (s, e) \<Longrightarrow> fits (e - s) v \<Longrightarrow> sbits x r v = Inr y \<Longrightarrow>
      unat i < width \<Longrightarrow> unat i < s \<or> e \<le> unat i \<Longrightarrow> gbit y i = gbit x i"
    and gbits_sbit: "field r (s, e) \<Longrightarrow> unat i < width \<Longrightarrow> sbit x i b = Inr y \<Longrightarrow>
      unat i < s \<or> e \<le> unat i \<Longrightarrow> gbits y r = gbits x r"
begin

text \<open>
  The way descriptors are put together: one flag, one field, another flag, in that order, each
  outside the others. Every part reads back as written, every other bit keeps its value.
\<close>

lemma flag_field_flag:
  assumes "field r (s, e)" and "fits (e - s) v"
    and "unat i < width" and "unat j < width" and "i \<noteq> j"
    and "unat i < s \<or> e \<le> unat i" and "unat j < s \<or> e \<le> unat j"
  shows "\<exists>y. chain (sbit x i a) (\<lambda>x1. chain (sbits x1 r v) (\<lambda>x2. sbit x2 j b)) = Inr y
    \<and> gbit y i = Inr a \<and> gbits y r = Inr v \<and> gbit y j = Inr b
    \<and> (\<forall>k. unat k < width \<and> k \<noteq> i \<and> k \<noteq> j \<and> (unat k < s \<or> e \<le> unat k) \<longrightarrow> gbit y k = gbit x k)"
proof -
  obtain x1 where x1: "sbit x i a = Inr x1"
    using sbit_total assms(3) by blast
  obtain x2 where x2: "sbits x1 r v = Inr x2"
    using sbits_total assms(1,2) by blast
  obtain y where y: "sbit x2 j b = Inr y"
    using sbit_total assms(4) by blast
  show ?thesis
    using assms
    by (intro exI [of _ y])
      (simp add: x1 x2 y gbit_sbit [OF _ _ y] gbits_sbit [OF _ _ y] gbit_sbits [OF _ _ x2]
        gbits_sbits [OF _ _ x2] gbit_sbit [OF _ _ x1])
qed

end

text \<open>The macro implementation meets the contract at every byte-sized width.\<close>

definition fits_in :: "nat \<Rightarrow> 'w::len word \<Rightarrow> bool" where
  "fits_in n v \<longleftrightarrow> take_bit n v = v"

lemma bit_fits_in: "fits_in n v \<Longrightarrow> bit v i \<Longrightarrow> i < n"
  by (metis bit_take_bit_iff fits_in_def)

lemma word_access:
  assumes w: "byte_width TYPE('w::len)"
  shows "bit_access LENGTH('w) (field_of pr LENGTH('w)) (fits_in :: nat \<Rightarrow> 'w word \<Rightarrow> bool)
    (get_bit pr) (get_bits pr) (set_bit pr) (set_bits pr)"
proof
  fix x y v :: "'w word" and i j :: usize and b :: bool and r s e
  show "\<exists>y. set_bit pr x i b = Inr y" if "unat i < LENGTH('w)"
    using w that by (simp add: set_bit_eq)
  show "\<exists>y. set_bits pr x r v = Inr y" if "field_of pr LENGTH('w) r (s, e)" "fits_in (e - s) v"
    using w that by (simp add: set_bits_eq fits_in_def)
  show "get_bit pr y j = (if i = j then Inr b else get_bit pr x j)"
    if "unat i < LENGTH('w)" "unat j < LENGTH('w)" "set_bit pr x i b = Inr y"
    using w that by (auto simp: set_bit_eq get_bit_eq bit_simps word_eq_nat_iff [of i j] split: if_splits)
  show "get_bits pr y r = Inr v"
    if "field_of pr LENGTH('w) r (s, e)" "fits_in (e - s) v" "set_bits pr x r v = Inr y"
  proof -
    have y: "y = (x AND NOT (mask e AND NOT (mask s))) OR push_bit s v"
      and se: "s < e" "e \<le> LENGTH('w)"
      using w that by (auto simp: set_bits_eq fits_in_def field_of_def)
    have v: "s + n < e" if "bit v n" for n
      using that bit_fits_in [OF \<open>fits_in (e - s) v\<close>, of n] se by simp
    have "drop_bit s (take_bit e y) = v"
      by (rule bit_word_eqI)
        (use se v in \<open>auto simp: y bit_simps dest: v\<close>)
    then show ?thesis
      using w that(1) by (simp add: get_bits_eq)
  qed
  show "get_bit pr y i = get_bit pr x i"
    if "field_of pr LENGTH('w) r (s, e)" "fits_in (e - s) v" "set_bits pr x r v = Inr y"
      "unat i < LENGTH('w)" "unat i < s \<or> e \<le> unat i"
    using w that bit_fits_in [OF that(2), of "unat i - s"]
    by (auto simp: set_bits_eq get_bit_eq fits_in_def field_of_def bit_simps)
  show "get_bits pr y r = get_bits pr x r"
    if "field_of pr LENGTH('w) r (s, e)" "unat i < LENGTH('w)" "set_bit pr x i b = Inr y"
      "unat i < s \<or> e \<le> unat i"
  proof -
    have "drop_bit s (take_bit e y) = drop_bit s (take_bit e x)"
      by (rule bit_word_eqI)
        (use w that in \<open>auto simp: set_bit_eq bit_simps field_of_def split: if_splits\<close>)
    then show ?thesis
      using w that(1) by (simp add: get_bits_eq)
  qed
qed

interpretation u8: bit_access 8 "field_of pr 8" "fits_in :: nat \<Rightarrow> u8 \<Rightarrow> bool"
  "get_bit pr" "get_bits pr" "set_bit pr" "set_bits pr" for pr
  using word_access [where 'w = 8, of pr] by simp

interpretation u16: bit_access 16 "field_of pr 16" "fits_in :: nat \<Rightarrow> u16 \<Rightarrow> bool"
  "get_bit pr" "get_bits pr" "set_bit pr" "set_bits pr" for pr
  using word_access [where 'w = 16, of pr] by simp

interpretation u32: bit_access 32 "field_of pr 32" "fits_in :: nat \<Rightarrow> u32 \<Rightarrow> bool"
  "get_bit pr" "get_bits pr" "set_bit pr" "set_bits pr" for pr
  using word_access [where 'w = 32, of pr] by simp

text \<open>The closed forms at the widths the descriptor formats use.\<close>

lemma u16_get_bits:
  "field_of pr 16 r (s, e) \<Longrightarrow> get_bits pr (x :: u16) r = Inr (drop_bit s (take_bit e x))"
  by (rule get_bits_eq) simp_all

lemma u16_set_bits:
  "field_of pr 16 r (s, e) \<Longrightarrow> fits_in (e - s) v \<Longrightarrow>
   set_bits pr (x :: u16) r v = Inr ((x AND NOT (mask e AND NOT (mask s))) OR push_bit s v)"
  using set_bits_eq [where 'w = 16, of pr r s e x v] by (simp add: fits_in_def)

lemma u32_get_bits:
  "field_of pr 32 r (s, e) \<Longrightarrow> get_bits pr (x :: u32) r = Inr (drop_bit s (take_bit e x))"
  by (rule get_bits_eq) simp_all

lemma u16_get_bit: "unat i < 16 \<Longrightarrow> get_bit pr (x :: u16) i = Inr (bit x (unat i))"
  by (rule get_bit_eq) simp_all

lemma u32_get_bit: "unat i < 32 \<Longrightarrow> get_bit pr (x :: u32) i = Inr (bit x (unat i))"
  by (rule get_bit_eq) simp_all

section \<open>Properties\<close>

text \<open>
  \<open>get_bits\<close> on a valid range \<open>start..end\<close> never panics and returns exactly the
  addressed field, shifted down to bit 0: bit \<open>i\<close> of the result is bit \<open>start + i\<close> of the
  value for \<open>i < end - start\<close>, and every higher bit is 0, under both build profiles.
\<close>

theorem get_bits_extracts:
  fixes x :: "'w::len word"
  assumes "byte_width TYPE('w)" and "field_of pr LENGTH('w) r (s, e)"
  shows "\<exists>y. get_bits pr x r = Inr y \<and> (\<forall>i. bit y i \<longleftrightarrow> i < e - s \<and> bit x (s + i))"
  using assms
  by (intro exI [of _ "drop_bit s (take_bit e x)"]) (auto simp: get_bits_eq field_of_def bit_simps)

theorem get_bits_extracts_witness:
  "field_of Debug 16 (Included 13, Included 14) (13, 15) \<and>
   (\<exists>y. get_bits Debug (0xEE00 :: u16) (Included 13, Included 14) = Inr y
      \<and> (\<forall>i. bit y i \<longleftrightarrow> i < 15 - 13 \<and> bit (0xEE00 :: u16) (13 + i)))"
proof -
  have f: "field_of Debug 16 (Included 13, Included 14) (13, 15)"
    by (simp add: field_of_def to_regular_range_def arith_ok)
  show ?thesis
    using f get_bits_extracts [where 'w = 16, of Debug "(Included 13, Included 14)" 13 15 "0xEE00"]
    by simp
qed

text \<open>
  C40: \<open>set_bits\<close> on a valid range replaces exactly the addressed field: when the value fits
  the field, a following \<open>get_bits\<close> of the same range returns it and every bit outside the field
  is unchanged; when it does not fit, the call panics with the message of the source.
\<close>

theorem set_bits_replaces:
  fixes x v :: "'w::len word"
  assumes "byte_width TYPE('w)" and "field_of pr LENGTH('w) r (s, e)"
  shows "if take_bit (e - s) v = v
    then \<exists>y. set_bits pr x r v = Inr y \<and> get_bits pr y r = Inr v
      \<and> (\<forall>i. i < s \<or> e \<le> i \<longrightarrow> bit y i = bit x i)
    else set_bits pr x r v = Inl (PanicMsg ''value does not fit into bit range'')"
proof (cases "take_bit (e - s) v = v")
  case True
  let ?y = "(x AND NOT (mask e AND NOT (mask s))) OR push_bit s v"
  have fit: "fits_in (e - s) v"
    using True by (simp add: fits_in_def)
  have y: "set_bits pr x r v = Inr ?y"
    using assms True by (simp add: set_bits_eq)
  have "get_bits pr ?y r = Inr v"
    using bit_access.gbits_sbits [OF word_access [OF assms(1)] assms(2) fit y] .
  moreover have "bit ?y i = bit x i" if "i < s \<or> e \<le> i" for i
    using that assms(2) bit_fits_in [OF fit, of "i - s"] bit_imp_le_length [of x i]
    by (auto simp: bit_simps field_of_def)
  ultimately show ?thesis
    using True y by auto
next
  case False
  with assms show ?thesis by (simp add: set_bits_eq)
qed

theorem set_bits_replaces_witness:
  "(\<exists>y. set_bits Release (0x0E00 :: u16) (Included 13, Included 14) 3 = Inr y
      \<and> get_bits Release y (Included 13, Included 14) = Inr 3
      \<and> (\<forall>i. i < 13 \<or> 15 \<le> i \<longrightarrow> bit y i = bit (0x0E00 :: u16) i)) \<and>
   set_bits Release (0x0E00 :: u16) (Included 13, Included 14) 4
     = Inl (PanicMsg ''value does not fit into bit range'')"
proof -
  have f: "field_of Release 16 (Included 13, Included 14) (13, 15)"
    by (simp add: field_of_def to_regular_range_def arith_ok)
  have fit: "take_bit 2 (3 :: u16) = 3" and nofit: "take_bit 2 (4 :: u16) \<noteq> 4"
    by (simp_all add: take_bit_eq_mod)
  show ?thesis
    using set_bits_replaces [where 'w = 16, of Release "(Included 13, Included 14)" 13 15 3 "0x0E00"]
      set_bits_replaces [where 'w = 16, of Release "(Included 13, Included 14)" 13 15 4 "0x0E00"]
      f fit nofit
    by simp
qed

text \<open>
  A range that does not denote a non-empty field inside the value is rejected: both
  \<open>get_bits\<close> and \<open>set_bits\<close> fail their assertions exactly when the normalised range is empty,
  reversed or reaches beyond the width; a valid range never makes \<open>get_bits\<close> panic.
\<close>

theorem invalid_range_panics:
  fixes x v :: "'w::len word"
  assumes "byte_width TYPE('w)"
    and "to_regular_range pr r (BIT_LENGTH TYPE('w)) = Inr (a, b)"
  shows "(get_bits pr x r = Inl AssertFailed \<longleftrightarrow> \<not> (a < b \<and> unat b \<le> LENGTH('w)))
    \<and> (set_bits pr x r v = Inl AssertFailed \<longleftrightarrow> \<not> (a < b \<and> unat b \<le> LENGTH('w)))"
proof (cases "a < b \<and> unat b \<le> LENGTH('w)")
  case True
  then have "field_of pr LENGTH('w) r (unat a, unat b)"
    using assms by (auto simp: field_of_def BIT_LENGTH_of_nat word_less_nat_alt)
  then show ?thesis using True assms(1) by (simp add: get_bits_eq set_bits_eq)
next
  case False
  then show ?thesis
    using assms by (auto simp: get_bits_def set_bits_def ensure_def word_less_nat_alt)
qed

theorem invalid_range_panics_witness:
  "get_bits Debug (7 :: u8) (Included 5, Excluded 9) = Inl AssertFailed \<and>
   set_bits Debug (7 :: u8) (Included 5, Excluded 9) 1 = Inl AssertFailed"
proof -
  have r: "to_regular_range Debug (Included 5, Excluded 9) (BIT_LENGTH TYPE(8)) = Inr (5, 9)"
    by (simp add: to_regular_range_def)
  show ?thesis
    using invalid_range_panics [where 'w = 8, OF byte_width_simps(1) r, of 7 1] by simp
qed

end
