(* ===== verification/RondFmt.thy ===== *)
theory RondFmt
  imports RondPrelude
begin

text \<open>
  The part of Rust's \<open>core::fmt\<close> the kernel uses: \<open>{}\<close> on integers, \<open>{:x}\<close> and \<open>{:p}\<close>,
  \<open>{:?}\<close> on booleans, and the \<open>debug_struct\<close> builder that the derived and the hand-written
  \<open>Debug\<close> instances go through. Text is a list of bytes when it reaches a device.
\<close>

definition digit_char :: "nat \<Rightarrow> char" where
  "digit_char d = ''0123456789abcdef'' ! d"

fun show_base :: "nat \<Rightarrow> nat \<Rightarrow> string" where
  "show_base b n =
     (if b < 2 \<or> n < b then [digit_char n] else show_base b (n div b) @ [digit_char (n mod b)])"

declare show_base.simps [simp del]

abbreviation show_dec :: "'w::len word \<Rightarrow> string" where
  "show_dec w \<equiv> show_base 10 (unat w)"

abbreviation show_hex :: "'w::len word \<Rightarrow> string" where
  "show_hex w \<equiv> show_base 16 (unat w)"

definition show_ptr :: "u32 \<Rightarrow> string" where
  "show_ptr p = ''0x'' @ show_hex p"

definition show_bool :: "bool \<Rightarrow> string" where
  "show_bool b = (if b then ''true'' else ''false'')"

text \<open>\<open>f.debug_struct(name).field(\<dots>)\<dots>.finish()\<close>\<close>

fun debug_fields :: "(string \<times> string) list \<Rightarrow> string" where
  "debug_fields [] = ''''"
| "debug_fields [(n, v)] = n @ '': '' @ v"
| "debug_fields ((n, v) # fs) = n @ '': '' @ v @ '', '' @ debug_fields fs"

definition debug_struct :: "string \<Rightarrow> (string \<times> string) list \<Rightarrow> string" where
  "debug_struct name fields =
     (if fields = [] then name else name @ '' { '' @ debug_fields fields @ '' }'')"

definition bytes_of :: "string \<Rightarrow> u8 list" where
  "bytes_of s = map (\<lambda>c. of_nat (of_char c)) s"

lemma bytes_of_append [simp]: "bytes_of (s @ t) = bytes_of s @ bytes_of t"
  by (simp add: bytes_of_def)

lemma length_bytes_of [simp]: "length (bytes_of s) = length s"
  by (simp add: bytes_of_def)

text \<open>Numbers read back: the digits of \<open>show_base\<close> denote the number they were made from.\<close>

definition digit_val :: "char \<Rightarrow> nat" where
  "digit_val c = (let k = of_char c in if k < 58 then k - 48 else k - 87)"

definition read_base :: "nat \<Rightarrow> string \<Rightarrow> nat" where
  "read_base b s = foldl (\<lambda>n c. b * n + digit_val c) 0 s"

lemma digit_val_digit_char: "d < 16 \<Longrightarrow> digit_val (digit_char d) = d"
proof -
  assume "d < 16"
  then have "d \<in> set [0..<16]" by simp
  moreover have "\<forall>d \<in> set [0..<16]. digit_val (digit_char d) = d"
    by code_simp
  ultimately show ?thesis by blast
qed

lemma read_show_base:
  assumes "2 \<le> b" "b \<le> 16"
  shows "read_base b (show_base b n) = n"
  using assms
proof (induction b n rule: show_base.induct)
  case (1 b n)
  show ?case
  proof (cases "n < b")
    case True
    with "1.prems" show ?thesis
      by (simp add: show_base.simps [of b n] read_base_def digit_val_digit_char)
  next
    case False
    have "read_base b (show_base b (n div b)) = n div b"
      using "1" False by simp
    moreover have "n mod b < 16"
      using "1.prems" by (intro less_le_trans [OF mod_less_divisor]) auto
    ultimately show ?thesis
      using False "1.prems"
      by (simp add: show_base.simps [of b n] read_base_def digit_val_digit_char)
  qed
qed

section \<open>Writers\<close>

text \<open>
  \<open>fmt::Write\<close>: an implementation gives \<open>write_str\<close>; the provided method \<open>write_fmt\<close> hands it the
  pieces of the formatted text one after the other and stops at the first error.
\<close>

datatype fmt_result = FmtOk | FmtError

primrec write_fmt :: "(u8 list \<Rightarrow> 'v \<Rightarrow> (fmt_result \<times> 'v, 's) comp) \<Rightarrow> u8 list list \<Rightarrow> 'v \<Rightarrow> (fmt_result \<times> 'v, 's) comp" where
  "write_fmt write_str [] v = ret (FmtOk, v)"
| "write_fmt write_str (p # ps) v =
     bnd (write_str p v) (\<lambda>(r, v'). if r = FmtOk then write_fmt write_str ps v' else ret (r, v'))"

definition unwrap_fmt :: "fmt_result \<times> 'v \<Rightarrow> (unit \<times> 'v, 's) comp" where
  "unwrap_fmt rv = (case fst rv of FmtOk \<Rightarrow> ret ((), snd rv) | FmtError \<Rightarrow> panicking UnwrapErr)"

text \<open>
  The contract of a writer: it never reports an error, and the text it produces does not depend
  on how it is cut into pieces.
\<close>

locale fmt_write =
  fixes write_str :: "u8 list \<Rightarrow> 'v \<Rightarrow> (fmt_result \<times> 'v, 's) comp"
    and put :: "u8 list \<Rightarrow> 'v \<Rightarrow> ('v, 's) comp"
  assumes write_str_ok: "write_str bs v = bnd (put bs v) (\<lambda>v'. ret (FmtOk, v'))"
    and put_nil: "put [] v = ret v"
    and put_append: "put (bs @ cs) v = bnd (put bs v) (put cs)"
begin

lemma write_fmt_concat: "write_fmt write_str ps v = bnd (put (concat ps) v) (\<lambda>v'. ret (FmtOk, v'))"
proof (induction ps arbitrary: v)
  case Nil
  then show ?case by (simp add: put_nil)
next
  case (Cons p ps)
  then show ?case by (simp add: write_str_ok put_append bnd_assoc)
qed

lemma print_is_put:
  "bnd (write_fmt write_str ps v) unwrap_fmt = bnd (put (concat ps) v) (\<lambda>v'. ret ((), v'))"
  by (simp add: write_fmt_concat bnd_assoc unwrap_fmt_def)

end

end
