(* ===== verification/RondMachine.thy ===== *)
theory RondMachine
  imports RondBits RondFmt
begin

text \<open>
  The machine the kernel runs on, as \<open>src/kernel/src/arch/x86/mod.rs\<close> reaches it: byte-addressed
  memory in the kernel's virtual address space, the I/O ports, and the few registers the source
  reads or loads. Devices are not part of the source: what a port read returns is given by the
  component \<open>dev\<close>, an arbitrary function of everything the kernel has done to the ports so far.
  Also here: descriptor-table pointers, privilege levels and segment selectors.
\<close>

section \<open>Machine state\<close>

datatype io_event = Out u16 u8 | In u16 u8

record DescriptorTablePointer =
  limit :: u16
  base :: u32

record machine =
  ram :: "u32 \<Rightarrow> u8"
  dev :: "io_event list \<Rightarrow> u16 \<Rightarrow> u8"
  io :: "io_event list"
  cs_reg :: u16
  esp_reg :: u32
  cr3_reg :: u32
  idtr :: DescriptorTablePointer
  intr_flag :: bool

section \<open>Port I/O and registers\<close>

definition inb :: "u16 \<Rightarrow> (u8, 'z machine_scheme) comp" where
  "inb port m = (let data = dev m (io m) port in Some (Done data (m\<lparr>io := io m @ [In port data]\<rparr>)))"

definition outb :: "u16 \<Rightarrow> u8 \<Rightarrow> (unit, 'z machine_scheme) comp" where
  "outb port data = modify (\<lambda>m. m\<lparr>io := io m @ [Out port data]\<rparr>)"

definition cr3 :: "(u32, 'z machine_scheme) comp" where
  "cr3 = gets cr3_reg"

definition esp :: "(u32, 'z machine_scheme) comp" where
  "esp = gets esp_reg"

definition sti :: "(unit, 'z machine_scheme) comp" where
  "sti = modify (\<lambda>m. m\<lparr>intr_flag := True\<rparr>)"

definition lidt :: "DescriptorTablePointer \<Rightarrow> (unit, 'z machine_scheme) comp" where
  "lidt idt = modify (\<lambda>m. m\<lparr>idtr := idt\<rparr>)"

text \<open>The state after a sequence of port writes.\<close>

abbreviation emit :: "(u16 \<times> u8) list \<Rightarrow> 'z machine_scheme \<Rightarrow> 'z machine_scheme" where
  "emit ws m \<equiv> m\<lparr>io := io m @ map (\<lambda>(p, d). Out p d) ws\<rparr>"

lemma outb_run [comp_simps]: "outb p d m = Some (Done () (emit [(p, d)] m))"
  by (simp add: outb_def run_basic)

lemma inb_run [comp_simps]:
  "inb p m = Some (Done (dev m (io m) p) (m\<lparr>io := io m @ [In p (dev m (io m) p)]\<rparr>))"
  by (simp add: inb_def Let_def)

lemma andthen_outb [simp]: "andthen (outb p d) k m = k (emit [(p, d)] m)"
  by (simp add: outb_def)

lemma block_outb: "block (map (\<lambda>(p, d). outb p d) ws) m = Some (Done () (emit ws m))"
proof (induction ws arbitrary: m)
  case Nil
  then show ?case by (simp add: run_basic)
next
  case (Cons w ws)
  then show ?case by (cases w) simp
qed

lemma wp_outb [wp_simps]: "wp (outb p d) Q m \<longleftrightarrow> Q () (emit [(p, d)] m)"
  by (simp add: outb_def wp_simps)

lemma wp_inb [wp_simps]:
  "wp (inb p) Q m \<longleftrightarrow> Q (dev m (io m) p) (m\<lparr>io := io m @ [In p (dev m (io m) p)]\<rparr>)"
  by (simp add: wp_def inb_run)

section \<open>Privilege levels\<close>

datatype PrivilegeLevel = Ring0 | Ring1 | Ring2 | Ring3

fun ring_u16 :: "PrivilegeLevel \<Rightarrow> u16" where
  "ring_u16 Ring0 = 0"
| "ring_u16 Ring1 = 1"
| "ring_u16 Ring2 = 2"
| "ring_u16 Ring3 = 3"

definition from_u16 :: "u16 \<Rightarrow> panic + PrivilegeLevel" where
  "from_u16 value =
     (if value = 0 then Inr Ring0
      else if value = 1 then Inr Ring1
      else if value = 2 then Inr Ring2
      else if value = 3 then Inr Ring3
      else Inl (PanicMsg (show_dec value @ '' is not a valid privilege level'')))"

lemma from_u16_ring [simp]: "from_u16 (ring_u16 l) = Inr l"
  by (cases l) (simp_all add: from_u16_def)

lemma ring_u16_less: "ring_u16 l < 4"
  by (cases l) simp_all

lemma ring_u16_fits: "fits_in 2 (ring_u16 l)"
  by (cases l) (simp_all add: fits_in_def take_bit_eq_mod)

lemma from_u16_below_4: "v < 4 \<Longrightarrow> \<exists>l. from_u16 v = Inr l \<and> ring_u16 l = v"
proof -
  assume "v < 4"
  then have "unat v < 4" by (simp add: word_less_nat_alt)
  then have "unat v \<in> {0, 1, 2, 3}" by auto
  then have "v \<in> {0, 1, 2, 3}" by (auto simp: word_eq_nat_iff)
  then show ?thesis
    by (elim insertE) (auto simp: from_u16_def intro: exI [of _ Ring0] exI [of _ Ring1]
        exI [of _ Ring2] exI [of _ Ring3])
qed

section \<open>Segment selectors\<close>

datatype SegmentSelector = SegmentSelector (sel_bits: u16)

definition selector_new :: "u16 \<Rightarrow> PrivilegeLevel \<Rightarrow> SegmentSelector" where
  "selector_new index rpl = SegmentSelector (push_bit 3 index OR ring_u16 rpl)"

definition selector_index :: "SegmentSelector \<Rightarrow> u16" where
  "selector_index self = drop_bit 3 (sel_bits self)"

definition selector_rpl :: "profile \<Rightarrow> SegmentSelector \<Rightarrow> panic + PrivilegeLevel" where
  "selector_rpl pr self = chain (get_bits pr (sel_bits self) (Included 0, Excluded 2)) from_u16"

definition selector_set_rpl :: "profile \<Rightarrow> SegmentSelector \<Rightarrow> PrivilegeLevel \<Rightarrow> panic + SegmentSelector" where
  "selector_set_rpl pr self rpl =
     chain (set_bits pr (sel_bits self) (Included 0, Excluded 2) (ring_u16 rpl)) (\<lambda>b.
     Inr (SegmentSelector b))"

definition selector_debug :: "profile \<Rightarrow> SegmentSelector \<Rightarrow> panic + string" where
  "selector_debug pr self =
     chain (selector_rpl pr self) (\<lambda>rpl.
     Inr (debug_struct ''SegmentSelector''
       [(''index'', show_dec (selector_index self)),
        (''rpl'', case rpl of Ring0 \<Rightarrow> ''Ring0'' | Ring1 \<Rightarrow> ''Ring1'' | Ring2 \<Rightarrow> ''Ring2'' | Ring3 \<Rightarrow> ''Ring3'')]))"

definition get_cs :: "(SegmentSelector, 'z machine_scheme) comp" where
  "get_cs = gets (\<lambda>m. SegmentSelector (cs_reg m))"

lemma rpl_field: "field_of pr 16 (Included 0, Excluded 2) (0, 2)"
  by (simp add: field_of_def to_regular_range_def)

lemma selector_rpl_eq: "selector_rpl pr s = from_u16 (take_bit 2 (sel_bits s))"
  by (simp add: selector_rpl_def u16_get_bits [OF rpl_field])

lemma selector_set_rpl_eq:
  "selector_set_rpl pr s l = Inr (SegmentSelector ((sel_bits s AND NOT (mask 2)) OR ring_u16 l))"
  by (simp add: selector_set_rpl_def u16_set_bits [OF rpl_field] ring_u16_fits)

lemma bit_ring_u16: "bit (ring_u16 l) i \<Longrightarrow> i < 2"
  using bit_fits_in [OF ring_u16_fits] by blast

text \<open>
  Building a selector and taking it apart again: for a descriptor-table index below
  8192 the selector returns the index and the privilege level it was made from, \<open>rpl()\<close> never
  panics on any selector, and \<open>set_rpl\<close> changes the level and leaves the index alone.
\<close>

theorem selector_roundtrip:
  assumes "unat index < 8192"
  shows "selector_index (selector_new index l) = index
    \<and> selector_rpl pr (selector_new index l) = Inr l
    \<and> (\<exists>l'. selector_rpl pr s = Inr l')
    \<and> (\<exists>s'. selector_set_rpl pr s k = Inr s' \<and> selector_rpl pr s' = Inr k
          \<and> selector_index s' = selector_index s)"
proof (intro conjI)
  have small: "i < 13" if "bit index i" for i
    using that assms bit_below_exp [of index 13 i] by simp
  show "selector_index (selector_new index l) = index"
    unfolding selector_index_def selector_new_def SegmentSelector.sel
    by (rule bit_word_eqI) (auto simp: bit_simps dest: small bit_ring_u16)
  have "take_bit 2 (push_bit 3 index OR ring_u16 l) = ring_u16 l"
    by (rule bit_word_eqI) (auto simp: bit_simps dest: bit_ring_u16)
  then show "selector_rpl pr (selector_new index l) = Inr l"
    by (simp add: selector_rpl_eq selector_new_def)
  have "take_bit 2 (sel_bits s) < 4"
    using unat_take_bit_less [of 2 "sel_bits s"] by (simp add: word_less_nat_alt)
  then show "\<exists>l'. selector_rpl pr s = Inr l'"
    using from_u16_below_4 by (auto simp: selector_rpl_eq)
  let ?b = "(sel_bits s AND NOT (mask 2)) OR ring_u16 k"
  have "take_bit 2 ?b = ring_u16 k"
    by (rule bit_word_eqI) (auto simp: bit_simps dest: bit_ring_u16)
  moreover have "drop_bit 3 ?b = drop_bit 3 (sel_bits s)"
    by (rule bit_word_eqI) (auto simp: bit_simps dest: bit_ring_u16 bit_imp_le_length)
  ultimately show "\<exists>s'. selector_set_rpl pr s k = Inr s' \<and> selector_rpl pr s' = Inr k
          \<and> selector_index s' = selector_index s"
    by (simp add: selector_set_rpl_eq selector_rpl_eq selector_index_def)
qed

theorem selector_roundtrip_witness:
  "selector_index (selector_new 1 Ring3) = 1 \<and> selector_rpl Debug (selector_new 1 Ring3) = Inr Ring3
    \<and> (\<exists>l'. selector_rpl Debug (SegmentSelector 0x8) = Inr l')
    \<and> (\<exists>s'. selector_set_rpl Debug (SegmentSelector 0x8) Ring2 = Inr s'
        \<and> selector_rpl Debug s' = Inr Ring2 \<and> selector_index s' = selector_index (SegmentSelector 0x8))"
  by (rule selector_roundtrip) simp

end
