(* ===== verification/RondMem.thy ===== *)
theory RondMem
  imports RondMachine
begin

text \<open>
  The boot information and the memory map: \<open>src/kernel/src/loader.rs\<close> and the first half of
  \<open>src/kernel/src/mm/mod.rs\<close>. The boot loader leaves the kernel size, the number of memory map
  entries and the entries themselves at fixed addresses; the kernel reads them as packed
  20-byte records, adds up the usable memory above 1 MiB and rounds addresses to pages.
\<close>

section \<open>Reading memory\<close>

fun word_of_bytes :: "u8 list \<Rightarrow> 'w::len word" where
  "word_of_bytes [] = 0"
| "word_of_bytes (b # bs) = ucast b OR push_bit 8 (word_of_bytes bs)"

definition bytes_of_word :: "nat \<Rightarrow> 'w::len word \<Rightarrow> u8 list" where
  "bytes_of_word n w = map (\<lambda>i. ucast (drop_bit (8 * i) w)) [0..<n]"

definition ram_slice :: "(u32 \<Rightarrow> u8) \<Rightarrow> u32 \<Rightarrow> nat \<Rightarrow> u8 list" where
  "ram_slice r a n = map (\<lambda>i. r (a + of_nat i)) [0..<n]"

definition read_u32 :: "(u32 \<Rightarrow> u8) \<Rightarrow> u32 \<Rightarrow> u32" where
  "read_u32 r a = word_of_bytes (ram_slice r a 4)"

definition read_u64 :: "(u32 \<Rightarrow> u8) \<Rightarrow> u32 \<Rightarrow> u64" where
  "read_u64 r a = word_of_bytes (ram_slice r a 8)"

section \<open>The loader's hand-over (loader.rs)\<close>

definition KERNEL_VADDR_BASE :: u32 where "KERNEL_VADDR_BASE = 0xc0000000"
definition KERNEL_STACK_PADDR :: u32 where "KERNEL_STACK_PADDR = 0x7c00"
definition KERNEL_PLACE_BEGIN_PADDR :: u32 where "KERNEL_PLACE_BEGIN_PADDR = 0x20000"
definition SEGMENT_KERNEL_CODE :: u16 where "SEGMENT_KERNEL_CODE = 0x8"

definition get_kernel_size :: "(u32, 'z machine_scheme) comp" where
  "get_kernel_size = gets (\<lambda>m. read_u32 (ram m) 0xc0020200)"

definition get_memlayout_buflen :: "(u32, 'z machine_scheme) comp" where
  "get_memlayout_buflen = gets (\<lambda>m. read_u32 (ram m) 0xc0020204)"

section \<open>Memory map entries (mm/mod.rs)\<close>

datatype MemLayoutKind = Usable | Reserved | ACPIReclaimableMemory | ACPINVSMemory | BadMemory

text \<open>The record holds the bits found in memory; only the accessor interprets the kind.\<close>

record MemLayout =
  raw_addr :: u64
  raw_len :: u64
  raw_kind :: u32

definition layout_addr :: "MemLayout \<Rightarrow> u64" where
  "layout_addr self = raw_addr self"

definition layout_len :: "MemLayout \<Rightarrow> u64" where
  "layout_len self = raw_len self"

text \<open>Reading an enum whose bits are no discriminant is undefined behaviour.\<close>

definition layout_kind :: "MemLayout \<Rightarrow> (MemLayoutKind, 's) comp" where
  "layout_kind self =
     (if raw_kind self = 1 then ret Usable
      else if raw_kind self = 2 then ret Reserved
      else if raw_kind self = 3 then ret ACPIReclaimableMemory
      else if raw_kind self = 4 then ret ACPINVSMemory
      else if raw_kind self = 5 then ret BadMemory
      else undef)"

fun kind_name :: "MemLayoutKind \<Rightarrow> string" where
  "kind_name Usable = ''Usable''"
| "kind_name Reserved = ''Reserved''"
| "kind_name ACPIReclaimableMemory = ''ACPIReclaimableMemory''"
| "kind_name ACPINVSMemory = ''ACPINVSMemory''"
| "kind_name BadMemory = ''BadMemory''"

definition layout_debug :: "MemLayout \<Rightarrow> (string, 's) comp" where
  "layout_debug self =
     bnd (layout_kind self) (\<lambda>k.
     ret (debug_struct ''MemLayout''
       [(''addr'', ''0x'' @ show_hex (layout_addr self)),
        (''len'', ''0x'' @ show_hex (layout_len self)),
        (''kind'', kind_name k)]))"

text \<open>One packed entry: 8 bytes address, 8 bytes length, 4 bytes kind.\<close>

definition memlayout_at :: "(u32 \<Rightarrow> u8) \<Rightarrow> u32 \<Rightarrow> MemLayout" where
  "memlayout_at r a = \<lparr>raw_addr = read_u64 r a, raw_len = read_u64 r (a + 8), raw_kind = read_u32 r (a + 16)\<rparr>"

text \<open>The slice of all entries; a slice may not span more than \<open>isize::MAX\<close> bytes.\<close>

definition get_memlayout :: "(MemLayout list, 'z machine_scheme) comp" where
  "get_memlayout =
     bnd get_memlayout_buflen (\<lambda>n.
     if unat n * 20 \<le> 0x7fffffff
     then gets (\<lambda>m. map (\<lambda>i. memlayout_at (ram m) (0xc0020208 + 20 * of_nat i)) [0..<unat n])
     else undef)"

primrec available_loop :: "profile \<Rightarrow> MemLayout list \<Rightarrow> u64 \<Rightarrow> u64 \<Rightarrow> (u64, 's) comp" where
  "available_loop pr [] last_end sz = ret sz"
| "available_loop pr (mem # mems) last_end sz =
     bnd (layout_kind mem) (\<lambda>k.
     if k = Usable \<and> layout_addr mem \<ge> 0x100000 then
       (let last_end' = (if layout_addr mem > last_end then layout_addr mem else last_end) in
        bnd (lift (uadd pr (layout_addr mem) (layout_len mem))) (\<lambda>this_end.
        bnd (lift (usub pr this_end last_end')) (\<lambda>d.
        bnd (lift (uadd pr sz d)) (\<lambda>sz'.
        available_loop pr mems this_end sz'))))
     else available_loop pr mems last_end sz)"

definition available_mem_size :: "profile \<Rightarrow> (u64, 'z machine_scheme) comp" where
  "available_mem_size pr = bnd get_memlayout (\<lambda>mems. available_loop pr mems 0 0)"

definition pg_round_down :: "usize \<Rightarrow> usize" where
  "pg_round_down addr = addr AND NOT (push_bit 12 1 - 1)"

section \<open>Reading back what was stored\<close>

lemma bit_word_of_bytes:
  "bit (word_of_bytes bs :: 'w::len word) i \<longleftrightarrow>
     i < LENGTH('w) \<and> i div 8 < length bs \<and> bit (bs ! (i div 8)) (i mod 8)"
proof (induction bs arbitrary: i)
  case Nil
  then show ?case by simp
next
  case (Cons b bs)
  show ?case
  proof (cases "i < 8")
    case True
    then show ?thesis by (auto simp: bit_simps)
  next
    case False
    then have "i div 8 = Suc ((i - 8) div 8)" and "i mod 8 = (i - 8) mod 8"
      by (simp_all add: le_div_geq le_mod_geq)
    then show ?thesis
      using False Cons.IH [of "i - 8"] bit_imp_le_length [of b i] by (auto simp: bit_simps)
  qed
qed

lemma word_of_bytes_of_word:
  assumes "LENGTH('w::len) = 8 * n"
  shows "word_of_bytes (bytes_of_word n w) = (w :: 'w word)"
proof (rule bit_word_eqI)
  fix i assume "i < LENGTH('w)"
  then have "i div 8 < n" using assms by (simp add: div_less_iff_less_mult mult.commute)
  moreover have "8 * (i div 8) + i mod 8 = i" by simp
  ultimately show "bit (word_of_bytes (bytes_of_word n w) :: 'w word) i = bit w i"
    using \<open>i < LENGTH('w)\<close> by (simp add: bit_word_of_bytes bytes_of_word_def bit_simps)
qed

lemma length_bytes_of_word [simp]: "length (bytes_of_word n w) = n"
  by (simp add: bytes_of_word_def)

lemma length_ram_slice [simp]: "length (ram_slice r a n) = n"
  by (simp add: ram_slice_def)

lemma ram_slice_append: "ram_slice r a (n + k) = ram_slice r a n @ ram_slice r (a + of_nat n) k"
  by (rule nth_equalityI) (auto simp: ram_slice_def nth_append algebra_simps)

text \<open>A memory map entry as the firmware stores it.\<close>

definition layout_bytes :: "MemLayout \<Rightarrow> u8 list" where
  "layout_bytes l = bytes_of_word 8 (raw_addr l) @ bytes_of_word 8 (raw_len l) @ bytes_of_word 4 (raw_kind l)"

lemma length_layout_bytes [simp]: "length (layout_bytes l) = 20"
  by (simp add: layout_bytes_def)

lemma memlayout_at_bytes:
  assumes "ram_slice r a 20 = layout_bytes l"
  shows "memlayout_at r a = l"
proof -
  have "ram_slice r a 20 = ram_slice r a 8 @ ram_slice r (a + 8) 8 @ ram_slice r (a + 16) 4"
    using ram_slice_append [of r a 8 12] ram_slice_append [of r "a + 8" 8 4]
    by (simp add: add.assoc)
  then have "ram_slice r a 8 = bytes_of_word 8 (raw_addr l)"
    and "ram_slice r (a + 8) 8 = bytes_of_word 8 (raw_len l)"
    and "ram_slice r (a + 16) 4 = bytes_of_word 4 (raw_kind l)"
    using assms by (simp_all add: layout_bytes_def)
  then show ?thesis
    by (simp add: memlayout_at_def read_u64_def read_u32_def word_of_bytes_of_word)
qed

text \<open>Storing a run of bytes, and reading it back.\<close>

definition store_bytes :: "(u32 \<Rightarrow> u8) \<Rightarrow> u32 \<Rightarrow> u8 list \<Rightarrow> u32 \<Rightarrow> u8" where
  "store_bytes r a bs = (\<lambda>x. if unat (x - a) < length bs then bs ! unat (x - a) else r x)"

lemma ram_slice_store:
  assumes "length bs \<le> 2 ^ 32" "k + n \<le> length bs"
  shows "ram_slice (store_bytes r a bs) (a + of_nat k) n = take n (drop k bs)"
proof (rule nth_equalityI)
  fix i assume "i < length (ram_slice (store_bytes r a bs) (a + of_nat k) n)"
  then have i: "i < n" by simp
  then have "unat (of_nat k + of_nat i :: u32) = k + i"
    using assms unat_of_nat_bounded [where 'w = 32, of "k + i"] by simp
  then show "ram_slice (store_bytes r a bs) (a + of_nat k) n ! i = take n (drop k bs) ! i"
    using i assms(2) by (simp add: ram_slice_def store_bytes_def algebra_simps)
qed (use assms in simp)

lemma ram_slice_chunk:
  "k + n \<le> sz \<Longrightarrow> ram_slice r (a + of_nat k) n = take n (drop k (ram_slice r a sz))"
  by (rule nth_equalityI) (auto simp: ram_slice_def algebra_simps)

section \<open>Usable memory\<close>

text \<open>The entries the loop counts, and their address ranges.\<close>

definition counted :: "MemLayout \<Rightarrow> bool" where
  "counted l \<longleftrightarrow> raw_kind l = 1 \<and> 0x100000 \<le> raw_addr l"

definition range_start :: "MemLayout \<Rightarrow> nat" where
  "range_start l = unat (raw_addr l)"

definition range_end :: "MemLayout \<Rightarrow> nat" where
  "range_end l = unat (raw_addr l) + unat (raw_len l)"

definition usable_bytes :: "MemLayout list \<Rightarrow> nat set" where
  "usable_bytes ls = (\<Union>l \<in> set (filter counted ls). {range_start l ..< range_end l})"

definition known_kinds :: "MemLayout list \<Rightarrow> bool" where
  "known_kinds ls \<longleftrightarrow> (\<forall>l \<in> set ls. 1 \<le> unat (raw_kind l) \<and> unat (raw_kind l) \<le> 5)"

text \<open>
  The memory maps the loop is made for: neither the starts nor the ends of the counted entries
  ever go back, and no entry wraps around the 64-bit address space. Overlaps are allowed.
\<close>

fun in_order :: "nat \<Rightarrow> nat \<Rightarrow> MemLayout list \<Rightarrow> bool" where
  "in_order a e [] \<longleftrightarrow> True"
| "in_order a e (l # ls) \<longleftrightarrow>
     (if counted l
      then a \<le> range_start l \<and> e \<le> range_end l \<and> range_end l < 2 ^ 64
        \<and> in_order (range_start l) (range_end l) ls
      else in_order a e ls)"

lemma kind_cases:
  assumes "1 \<le> unat k" "unat k \<le> 5"
  shows "k = (1 :: u32) \<or> k = 2 \<or> k = 3 \<or> k = 4 \<or> k = 5"
proof -
  have "unat k \<in> {1, 2, 3, 4, 5}" using assms by auto
  then show ?thesis by (auto simp: word_eq_nat_iff)
qed

lemma layout_kind_known:
  assumes "1 \<le> unat (raw_kind l)" "unat (raw_kind l) \<le> 5"
  shows "\<exists>k. layout_kind l = ret k \<and> (k = Usable \<longleftrightarrow> raw_kind l = 1)"
  using kind_cases [OF assms] by (auto simp: layout_kind_def)

lemma available_loop_card:
  assumes "known_kinds ls" and "in_order a (unat last_end) ls"
    and "finite U" and "unat sz = card U" and "U \<subseteq> {..<unat last_end}" and "{a..<unat last_end} \<subseteq> U"
  shows "\<exists>sz'. available_loop pr ls last_end sz (s :: 's) = Some (Done sz' s)
    \<and> unat sz' = card (U \<union> usable_bytes ls)"
  using assms
proof (induction ls arbitrary: a last_end sz U)
  case Nil
  then show ?case by (simp add: usable_bytes_def run_basic)
next
  case (Cons l ls)
  obtain k where k: "(layout_kind l :: (MemLayoutKind, 's) comp) = ret k" "k = Usable \<longleftrightarrow> raw_kind l = 1"
    using Cons.prems(1) layout_kind_known [of l] unfolding known_kinds_def
    by (meson list.set_intros(1))
  have known: "known_kinds ls" using Cons.prems(1) by (simp add: known_kinds_def)
  show ?case
  proof (cases "counted l")
    case False
    then have "\<not> (k = Usable \<and> layout_addr l \<ge> 0x100000)" and "usable_bytes (l # ls) = usable_bytes ls"
      using k(2) by (auto simp: counted_def layout_addr_def usable_bytes_def)
    then show ?thesis
      using Cons.IH [OF known, of a last_end U sz] Cons.prems False by (auto simp: k(1))
  next
    case True
    let ?st = "range_start l" and ?en = "range_end l"
    let ?le = "if layout_addr l > last_end then layout_addr l else last_end"
    let ?te = "layout_addr l + layout_len l"
    have ord: "a \<le> ?st" "unat last_end \<le> ?en" "?en < 2 ^ 64" "in_order ?st ?en ls"
      using Cons.prems(2) True by auto
    have this_end: "unat ?te = ?en"
      using ord(3) by (simp add: range_end_def layout_addr_def layout_len_def unat_plus_bounded)
    have le: "unat ?le = max ?st (unat last_end)"
      by (auto simp: range_start_def layout_addr_def word_less_nat_alt)
    then have le_en: "unat ?le \<le> ?en"
      using ord by (simp add: range_start_def range_end_def)
    let ?U = "U \<union> {unat ?le..<?en}"
    have below: "x < unat last_end" if "x \<in> U" for x using Cons.prems(5) that by auto
    have inside: "x \<in> U" if "a \<le> x" "x < unat last_end" for x using Cons.prems(6) that by auto
    have U': "U \<union> {?st..<?en} = ?U"
      using ord(1) by (auto simp: le intro: inside)
    have sub: "?U \<subseteq> {..<?en}"
      using ord(2) by (auto dest: below)
    have card: "card ?U = card U + (?en - unat ?le)"
      using Cons.prems(3) by (subst card_Un_disjoint) (auto simp: le dest: below)
    have "card ?U \<le> ?en"
      using card_mono [OF _ sub] by simp
    then have size: "unat sz + unat (?te - ?le) = card ?U" "unat sz + unat (?te - ?le) < 2 ^ 64"
      using Cons.prems(4) card this_end le_en ord(3) by (simp_all add: unat_minus_bounded word_le_nat_alt)
    have "\<exists>sz'. available_loop pr ls ?te (sz + (?te - ?le)) s = Some (Done sz' s)
        \<and> unat sz' = card (?U \<union> usable_bytes ls)"
    proof (rule Cons.IH [OF known])
      show "in_order ?st (unat ?te) ls" using ord(4) this_end by simp
      show "finite ?U" using Cons.prems(3) by simp
      show "unat (sz + (?te - ?le)) = card ?U" using size by (simp add: unat_plus_bounded)
      show "?U \<subseteq> {..<unat ?te}" using sub this_end by simp
      show "{?st..<unat ?te} \<subseteq> ?U" using U' this_end by auto
    qed
    moreover have "U \<union> usable_bytes (l # ls) = ?U \<union> usable_bytes ls"
      using U' True by (auto simp: usable_bytes_def)
    moreover have "available_loop pr (l # ls) last_end sz s = available_loop pr ls ?te (sz + (?te - ?le)) s"
      using True k(2) this_end le_en size ord(3)
      by (simp add: k(1) counted_def layout_addr_def layout_len_def range_end_def Let_def arith_ok
          word_le_nat_alt del: if_split)
    ultimately show ?thesis by simp
  qed
qed

section \<open>Properties\<close>

lemma get_memlayout_read:
  assumes "20 * length ls \<le> 0x7fffffff"
    and "ram_slice (ram m) 0xc0020204 4 = bytes_of_word 4 (of_nat (length ls) :: u32)"
    and "ram_slice (ram m) 0xc0020208 (20 * length ls) = concat (map layout_bytes ls)"
  shows "get_memlayout m = Some (Done ls m)"
proof -
  have n: "unat (of_nat (length ls) :: u32) = length ls"
    using assms(1) by (intro unat_of_nat_bounded) simp
  have len: "read_u32 (ram m) 0xc0020204 = of_nat (length ls)"
    by (simp add: read_u32_def assms(2) word_of_bytes_of_word)
  have "memlayout_at (ram m) (0xc0020208 + 20 * of_nat i) = ls ! i" if "i < length ls" for i
  proof (rule memlayout_at_bytes)
    have "ram_slice (ram m) (0xc0020208 + of_nat (20 * i)) 20
        = take 20 (drop (20 * i) (concat (map layout_bytes ls)))"
      using that by (subst ram_slice_chunk [where sz = "20 * length ls"]) (simp_all add: assms(3))
    also have "\<dots> = layout_bytes (ls ! i)"
      using that by (subst concat_slice) simp_all
    finally show "ram_slice (ram m) (0xc0020208 + 20 * of_nat i) 20 = layout_bytes (ls ! i)"
      by simp
  qed
  then have "map (\<lambda>i. memlayout_at (ram m) (0xc0020208 + 20 * of_nat i)) [0..<length ls] = ls"
    by (intro nth_equalityI) simp_all
  then show ?thesis
    using assms(1) n
    by (simp add: get_memlayout_def get_memlayout_buflen_def len run_basic mult.commute)
qed

text \<open>
  Reading the boot information back: when memory from 0xc0020204 on holds the number of
  entries followed by the packed entries, as the loader stores them, \<open>get_memlayout\<close> returns
  exactly those entries.
\<close>

theorem get_memlayout_roundtrip:
  assumes "20 * length ls \<le> 0x7fffffff"
    and "ram_slice (ram m) 0xc0020204 4 = bytes_of_word 4 (of_nat (length ls) :: u32)"
    and "ram_slice (ram m) 0xc0020208 (20 * length ls) = concat (map layout_bytes ls)"
  shows "get_memlayout m = Some (Done ls m)"
  using assms by (rule get_memlayout_read)

text \<open>
  A concrete hand-over: the map of a 32 MiB machine (low memory, the reserved BIOS area, 30 MiB
  from 1 MiB on), stored where the loader puts it.
\<close>

definition sample_map :: "MemLayout list" where
  "sample_map =
     [\<lparr>raw_addr = 0, raw_len = 0x9f000, raw_kind = 1\<rparr>,
      \<lparr>raw_addr = 0x9f000, raw_len = 0x61000, raw_kind = 2\<rparr>,
      \<lparr>raw_addr = 0x100000, raw_len = 0x1ef0000, raw_kind = 1\<rparr>]"

definition sample_ram :: "u32 \<Rightarrow> u8" where
  "sample_ram = store_bytes (\<lambda>_. 0) 0xc0020204
     (bytes_of_word 4 (of_nat (length sample_map) :: u32) @ concat (map layout_bytes sample_map))"

definition sample_machine :: machine where
  "sample_machine = \<lparr>ram = sample_ram, dev = \<lambda>_ _. 0x20, io = [], cs_reg = 8, esp_reg = 0xc000eff0,
     cr3_reg = 0xf000, idtr = \<lparr>limit = 0, base = 0\<rparr>, intr_flag = False\<rparr>"

lemma sample_slices:
  "ram_slice sample_ram 0xc0020204 4 = bytes_of_word 4 (of_nat (length sample_map) :: u32)"
  "ram_slice sample_ram 0xc0020208 (20 * length sample_map) = concat (map layout_bytes sample_map)"
proof -
  let ?n = "bytes_of_word 4 (of_nat (length sample_map) :: u32)"
  let ?bs = "?n @ concat (map layout_bytes sample_map)"
  have len: "length (concat (map layout_bytes sample_map)) = 60"
    by (simp add: sample_map_def)
  show "ram_slice sample_ram 0xc0020204 4 = ?n"
    using ram_slice_store [of ?bs 0 4 "\<lambda>_. 0" "0xc0020204"] len by (simp add: sample_ram_def)
  have "length sample_map = 3" by (simp add: sample_map_def)
  then show "ram_slice sample_ram 0xc0020208 (20 * length sample_map) = concat (map layout_bytes sample_map)"
    using ram_slice_store [of ?bs 4 60 "\<lambda>_. 0" "0xc0020204"] len by (simp add: sample_ram_def)
qed

theorem get_memlayout_roundtrip_witness: "get_memlayout sample_machine = Some (Done sample_map sample_machine)"
  by (rule get_memlayout_roundtrip)
    (use sample_slices in \<open>simp_all add: sample_machine_def sample_map_def\<close>)

lemma available_mem_size_card:
  assumes "get_memlayout m = Some (Done ls m)" and "known_kinds ls" and "in_order 0 0 ls"
  shows "\<exists>n. available_mem_size pr m = Some (Done n m) \<and> unat n = card (usable_bytes ls)"
proof -
  have "\<exists>n. available_loop pr ls 0 0 m = Some (Done n m) \<and> unat n = card ({} \<union> usable_bytes ls)"
    by (rule available_loop_card [where a = 0]) (use assms in simp_all)
  then show ?thesis
    using assms(1) by (simp add: available_mem_size_def bnd_run)
qed

text \<open>
  C32: \<open>available_mem_size\<close> is the amount of usable memory: on a memory map whose counted
  entries (usable, at or above 1 MiB) are in order of their starts and ends, the result is the
  number of bytes in the union of their address ranges, overlaps counted once, under both build
  profiles.
\<close>

theorem available_mem_size_counts:
  assumes "get_memlayout m = Some (Done ls m)" and "known_kinds ls" and "in_order 0 0 ls"
  shows "\<exists>n. available_mem_size pr m = Some (Done n m) \<and> unat n = card (usable_bytes ls)"
  using assms by (rule available_mem_size_card)

lemma sample_in_order: "known_kinds sample_map" "in_order 0 0 sample_map"
  by (simp_all add: sample_map_def known_kinds_def counted_def range_start_def range_end_def)

lemma sample_get_memlayout: "get_memlayout sample_machine = Some (Done sample_map sample_machine)"
  by (rule get_memlayout_read)
    (use sample_slices in \<open>simp_all add: sample_machine_def sample_map_def\<close>)

theorem available_mem_size_counts_witness:
  "\<exists>n. available_mem_size Debug sample_machine = Some (Done n sample_machine)
    \<and> unat n = card (usable_bytes sample_map)"
  by (rule available_mem_size_counts) (rule sample_get_memlayout sample_in_order)+

text \<open>
  The accumulation depends on the order of the map: an entry that ends before an earlier
  one makes the subtraction underflow. The debug build panics; the release build adds a negative
  amount modulo \<open>2 ^ 64\<close>.
\<close>

theorem available_loop_out_of_order:
  assumes "counted l" and "range_end l < 2 ^ 64" and "range_end l < unat last_end"
    and "range_start l \<le> unat last_end"
  shows "available_loop Debug (l # ls) last_end sz s = Some (Panicked ArithOverflow s)
    \<and> available_loop Release (l # ls) last_end sz s
        = available_loop Release ls (raw_addr l + raw_len l) (sz + (raw_addr l + raw_len l - last_end)) s"
proof -
  have k: "layout_kind l = ret Usable"
    using assms(1) by (simp add: layout_kind_def counted_def)
  have e: "unat (raw_addr l + raw_len l) = range_end l"
    using assms(2) by (simp add: range_end_def unat_plus_bounded)
  have le: "\<not> last_end < raw_addr l"
    using assms(4) by (simp add: range_start_def word_less_nat_alt)
  have "\<not> last_end \<le> raw_addr l + raw_len l"
    using e assms(3) by (simp add: word_le_nat_alt)
  moreover have "uadd pr (raw_addr l) (raw_len l) = Inr (raw_addr l + raw_len l)" for pr
    using assms(2) by (intro uadd_ok) (simp add: range_end_def)
  ultimately show ?thesis
    using le assms(1)
    by (simp add: k counted_def layout_addr_def layout_len_def Let_def release_never_panics
        run_basic usub_def overflow_def)
qed

theorem available_loop_out_of_order_witness:
  "available_loop Debug [\<lparr>raw_addr = 0x100000, raw_len = 0x100000, raw_kind = 1\<rparr>] 0x800000 0x400000 ()
     = Some (Panicked ArithOverflow ())"
  using available_loop_out_of_order [of "\<lparr>raw_addr = 0x100000, raw_len = 0x100000, raw_kind = 1\<rparr>"
      "0x800000" "[]" "0x400000" "()"]
  by (simp add: counted_def range_end_def range_start_def)

text \<open>
  \<open>pg_round_down\<close> returns the start of the page an address lies in: the largest multiple
  of 4096 not above it.
\<close>

theorem pg_round_down_page:
  "unat (pg_round_down a) = 4096 * (unat a div 4096) \<and> unat (pg_round_down a) \<le> unat a
    \<and> unat a < unat (pg_round_down a) + 4096 \<and> pg_round_down (pg_round_down a) = pg_round_down a"
proof -
  have m: "push_bit 12 1 - 1 = (mask 12 :: usize)"
    by (simp add: mask_eq_exp_minus_1 push_bit_eq_mult)
  have eq: "pg_round_down a = push_bit 12 (drop_bit 12 a)" for a
    unfolding pg_round_down_def m by (rule bit_word_eqI) (auto simp: bit_simps)
  have d: "unat (drop_bit 12 a) = unat a div 4096"
    by (simp add: unat_drop_bit_eq drop_bit_eq_div unat_div)
  have "unat a < 2 ^ 32" using unsigned_less [of a, where 'a = nat] by simp
  then have u: "unat (pg_round_down a) = 4096 * (unat a div 4096)"
    using d by (simp add: eq push_bit_eq_mult unat_word_ariths mult.commute)
  moreover have "pg_round_down (pg_round_down a) = pg_round_down a"
    unfolding pg_round_down_def by (rule bit_word_eqI) (auto simp: bit_simps)
  ultimately show ?thesis
    by simp
qed

end
