(* ===== verification/RondPage.thy ===== *)
theory RondPage
  imports RondMem
begin

text \<open>
  The page allocator, \<open>src/kernel/src/mm/page.rs\<close> and the \<open>GlobalAlloc\<close> implementation of
  \<open>src/kernel/src/mm/mod.rs\<close>: a bitmap kept in raw memory at 0xc0100000, first-fit search for a
  run of free pages, allocation and release. The abstraction is the set of allocated page
  indices; the locale \<open>page_map\<close> is what the allocator relies on of its bitmap. The page table
  entry decoder of the same file is at the end.
\<close>

section \<open>The bitmap\<close>

definition read_u8 :: "u32 \<Rightarrow> (u8, 'z machine_scheme) comp" where
  "read_u8 a = gets (\<lambda>m. ram m a)"

definition write_u8 :: "u32 \<Rightarrow> u8 \<Rightarrow> (unit, 'z machine_scheme) comp" where
  "write_u8 a v = modify (\<lambda>m. m\<lparr>ram := (ram m)(a := v)\<rparr>)"

definition write_bytes_at :: "u32 \<Rightarrow> u8 \<Rightarrow> usize \<Rightarrow> (unit, 'z machine_scheme) comp" where
  "write_bytes_at p v n = modify (\<lambda>m. m\<lparr>ram := (\<lambda>a. if a - p < n then v else ram m a)\<rparr>)"

record BitMap =
  data_ptr :: u32
  bm_size :: usize

definition bitmap_new :: "profile \<Rightarrow> u32 \<Rightarrow> usize \<Rightarrow> (BitMap, 'z machine_scheme) comp" where
  "bitmap_new pr ptr n =
     bnd (lift (uadd pr n 7)) (\<lambda>k.
     andthen (write_bytes_at ptr 0 (k div 8))
     (ret \<lparr>data_ptr = ptr, bm_size = n\<rparr>))"

definition bm_test :: "profile \<Rightarrow> BitMap \<Rightarrow> usize \<Rightarrow> (bool, 'z machine_scheme) comp" where
  "bm_test pr self idx =
     andthen (check (idx < bm_size self))
    (bnd (read_u8 (data_ptr self + idx div 8)) (\<lambda>elem.
     bnd (lift (ushl pr 1 (idx mod 8))) (\<lambda>b.
     ret (elem AND b \<noteq> 0))))"

definition bm_clear :: "profile \<Rightarrow> BitMap \<Rightarrow> usize \<Rightarrow> (unit, 'z machine_scheme) comp" where
  "bm_clear pr self idx =
     andthen (check (idx < bm_size self))
    (bnd (read_u8 (data_ptr self + idx div 8)) (\<lambda>val.
     bnd (lift (ushl pr 1 (idx mod 8))) (\<lambda>b.
     write_u8 (data_ptr self + idx div 8) (val AND NOT b))))"

definition bm_mark :: "profile \<Rightarrow> BitMap \<Rightarrow> usize \<Rightarrow> (unit, 'z machine_scheme) comp" where
  "bm_mark pr self idx =
     andthen (check (idx < bm_size self))
    (bnd (read_u8 (data_ptr self + idx div 8)) (\<lambda>val.
     bnd (lift (ushl pr 1 (idx mod 8))) (\<lambda>b.
     write_u8 (data_ptr self + idx div 8) (val OR b))))"

definition bm_flip :: "profile \<Rightarrow> BitMap \<Rightarrow> usize \<Rightarrow> (unit, 'z machine_scheme) comp" where
  "bm_flip pr self idx =
     andthen (check (idx < bm_size self))
    (bnd (read_u8 (data_ptr self + idx div 8)) (\<lambda>val.
     bnd (lift (ushl pr 1 (idx mod 8))) (\<lambda>b.
     write_u8 (data_ptr self + idx div 8) (val XOR b))))"

definition bm_flips :: "profile \<Rightarrow> BitMap \<Rightarrow> usize \<Rightarrow> usize \<Rightarrow> (unit, 'z machine_scheme) comp" where
  "bm_flips pr self idx n =
     for_range 0 n (\<lambda>i. bnd (lift (uadd pr idx i)) (bm_flip pr self))"

definition bm_set :: "profile \<Rightarrow> BitMap \<Rightarrow> usize \<Rightarrow> bool \<Rightarrow> (unit, 'z machine_scheme) comp" where
  "bm_set pr self idx val =
     andthen (check (idx < bm_size self))
     (if val then bm_mark pr self idx else bm_clear pr self idx)"

definition bm_sets :: "profile \<Rightarrow> BitMap \<Rightarrow> usize \<Rightarrow> usize \<Rightarrow> bool \<Rightarrow> (unit, 'z machine_scheme) comp" where
  "bm_sets pr self idx n val =
     for_range 0 n (\<lambda>i. bnd (lift (uadd pr idx i)) (\<lambda>j. bm_set pr self j val))"

primrec bm_contains_loop ::
  "profile \<Rightarrow> BitMap \<Rightarrow> usize \<Rightarrow> bool \<Rightarrow> nat \<Rightarrow> usize \<Rightarrow> (bool, 'z machine_scheme) comp" where
  "bm_contains_loop pr self start val 0 i = ret False"
| "bm_contains_loop pr self start val (Suc n) i =
     bnd (lift (uadd pr start i)) (\<lambda>j.
     bnd (bm_test pr self j) (\<lambda>t.
     if t = val then ret True else bm_contains_loop pr self start val n (i + 1)))"

definition bm_contains :: "profile \<Rightarrow> BitMap \<Rightarrow> usize \<Rightarrow> usize \<Rightarrow> bool \<Rightarrow> (bool, 'z machine_scheme) comp" where
  "bm_contains pr self start n val = bm_contains_loop pr self start val (unat n) 0"

primrec bm_find_loop ::
  "profile \<Rightarrow> BitMap \<Rightarrow> usize \<Rightarrow> bool \<Rightarrow> nat \<Rightarrow> usize \<Rightarrow> (usize option, 'z machine_scheme) comp" where
  "bm_find_loop pr self n val 0 i = ret None"
| "bm_find_loop pr self n val (Suc k) i =
     bnd (bm_contains pr self i n (\<not> val)) (\<lambda>c.
     if \<not> c then ret (Some i) else bm_find_loop pr self n val k (i + 1))"

definition bm_find :: "profile \<Rightarrow> BitMap \<Rightarrow> usize \<Rightarrow> usize \<Rightarrow> bool \<Rightarrow> (usize option, 'z machine_scheme) comp" where
  "bm_find pr self start n val = bm_find_loop pr self n val (unat (bm_size self) - unat start) start"

definition bm_all :: "profile \<Rightarrow> BitMap \<Rightarrow> usize \<Rightarrow> usize \<Rightarrow> (bool, 'z machine_scheme) comp" where
  "bm_all pr self start n = bnd (bm_contains pr self start n False) (\<lambda>c. ret (\<not> c))"

definition bm_any :: "profile \<Rightarrow> BitMap \<Rightarrow> usize \<Rightarrow> usize \<Rightarrow> (bool, 'z machine_scheme) comp" where
  "bm_any pr self start n = bm_contains pr self start n True"

section \<open>The allocator\<close>

record PageAllocator =
  bitmap :: BitMap
  base_addr :: usize

definition page_allocator_default :: "profile \<Rightarrow> (PageAllocator, 'z machine_scheme) comp" where
  "page_allocator_default pr =
     bnd (available_mem_size pr) (\<lambda>avail.
     let memsize = (ucast avail :: usize); pagecnt = memsize div 4096 in
     bnd (lift (uadd pr pagecnt 7)) (\<lambda>a.
     let bitmap_bytes = a div 8 in
     bnd (lift (uadd pr bitmap_bytes 4095)) (\<lambda>b.
     let bitmap_pages = b div 4096 in
     bnd (lift (usub pr pagecnt bitmap_pages)) (\<lambda>avl_pages.
     bnd (bitmap_new pr 0xc0100000 avl_pages) (\<lambda>bm.
     bnd (lift (umul pr bitmap_pages 4096)) (\<lambda>off.
     bnd (lift (uadd pr 0xc0100000 off)) (\<lambda>base.
     ret \<lparr>bitmap = bm, base_addr = base\<rparr>)))))))"

definition get_page :: "profile \<Rightarrow> PageAllocator \<Rightarrow> usize \<Rightarrow> (usize option, 'z machine_scheme) comp" where
  "get_page pr self cnt =
     bnd (bm_find pr (bitmap self) 0 cnt False) (\<lambda>r. case r of
       None \<Rightarrow> ret None
     | Some avl_page \<Rightarrow>
         andthen (bm_flips pr (bitmap self) avl_page cnt)
        (bnd (lift (umul pr avl_page 4096)) (\<lambda>off.
         bnd (lift (uadd pr (base_addr self) off)) (\<lambda>a.
         ret (Some a)))))"

definition free_page :: "profile \<Rightarrow> PageAllocator \<Rightarrow> usize \<Rightarrow> usize \<Rightarrow> (unit, 'z machine_scheme) comp" where
  "free_page pr self page cnt =
     andthen (check (page mod 4096 = 0))
    (bnd (lift (usub pr page (base_addr self))) (\<lambda>off.
     let pidx = off div 4096 in
     bnd (bm_all pr (bitmap self) pidx cnt) (\<lambda>ok.
     andthen (check ok)
     (bm_flips pr (bitmap self) pidx cnt))))"

text \<open>
  \<open>GlobalAlloc\<close> on a given allocator: the layout's size in pages, rounded up; \<open>unwrap\<close> panics
  when there is no run.
\<close>

definition alloc_pages :: "profile \<Rightarrow> PageAllocator \<Rightarrow> usize \<Rightarrow> (usize, 'z machine_scheme) comp" where
  "alloc_pages pr pa reqsize =
     bnd (lift (uadd pr reqsize 4095)) (\<lambda>n.
     bnd (get_page pr pa (n div 4096)) (\<lambda>r. case r of
       None \<Rightarrow> panicking UnwrapNone
     | Some p \<Rightarrow> ret p))"

definition dealloc_pages :: "profile \<Rightarrow> PageAllocator \<Rightarrow> usize \<Rightarrow> usize \<Rightarrow> (unit, 'z machine_scheme) comp" where
  "dealloc_pages pr pa p reqsize =
     bnd (lift (uadd pr reqsize 4095)) (\<lambda>n. free_page pr pa p (n div 4096))"

section \<open>Page table entries\<close>

datatype PageTableEntry = PageTableEntry (pte_bits: u32)

definition pte_present :: "profile \<Rightarrow> PageTableEntry \<Rightarrow> panic + bool" where
  "pte_present pr self = get_bit pr (pte_bits self) 0"

definition pte_rw :: "profile \<Rightarrow> PageTableEntry \<Rightarrow> panic + bool" where
  "pte_rw pr self = get_bit pr (pte_bits self) 1"

definition pte_is_user :: "profile \<Rightarrow> PageTableEntry \<Rightarrow> panic + bool" where
  "pte_is_user pr self = get_bit pr (pte_bits self) 2"

definition pte_write_through :: "profile \<Rightarrow> PageTableEntry \<Rightarrow> panic + bool" where
  "pte_write_through pr self = get_bit pr (pte_bits self) 3"

definition pte_cache_disable :: "profile \<Rightarrow> PageTableEntry \<Rightarrow> panic + bool" where
  "pte_cache_disable pr self = get_bit pr (pte_bits self) 4"

definition pte_accessed :: "profile \<Rightarrow> PageTableEntry \<Rightarrow> panic + bool" where
  "pte_accessed pr self = get_bit pr (pte_bits self) 5"

definition pte_dirty :: "profile \<Rightarrow> PageTableEntry \<Rightarrow> panic + bool" where
  "pte_dirty pr self = get_bit pr (pte_bits self) 6"

definition pte_page_attribute :: "profile \<Rightarrow> PageTableEntry \<Rightarrow> panic + bool" where
  "pte_page_attribute pr self = get_bit pr (pte_bits self) 7"

definition pte_global :: "profile \<Rightarrow> PageTableEntry \<Rightarrow> panic + bool" where
  "pte_global pr self = get_bit pr (pte_bits self) 8"

definition pte_available :: "profile \<Rightarrow> PageTableEntry \<Rightarrow> panic + u32" where
  "pte_available pr self = get_bits pr (pte_bits self) (Included 9, Included 11)"

definition pte_addr :: "profile \<Rightarrow> PageTableEntry \<Rightarrow> panic + u32" where
  "pte_addr pr self = chain (get_bits pr (pte_bits self) (Included 12, Included 31)) (\<lambda>b. ushl pr b 12)"

definition pte_debug :: "profile \<Rightarrow> PageTableEntry \<Rightarrow> panic + string" where
  "pte_debug pr self =
     chain (pte_present pr self) (\<lambda>a.
     chain (pte_rw pr self) (\<lambda>b.
     chain (pte_is_user pr self) (\<lambda>c.
     chain (pte_write_through pr self) (\<lambda>d.
     chain (pte_cache_disable pr self) (\<lambda>e.
     chain (pte_accessed pr self) (\<lambda>f.
     chain (pte_dirty pr self) (\<lambda>g.
     chain (pte_page_attribute pr self) (\<lambda>h.
     chain (pte_global pr self) (\<lambda>i.
     chain (pte_available pr self) (\<lambda>j.
     chain (pte_addr pr self) (\<lambda>k.
     Inr (debug_struct ''PageTableEntry''
       [(''present'', show_bool a), (''rw'', show_bool b), (''is_user'', show_bool c),
        (''write_through'', show_bool d), (''cache_disable'', show_bool e), (''accessed'', show_bool f),
        (''dirty'', show_bool g), (''page_attribute'', show_bool h), (''global'', show_bool i),
        (''available'', show_dec j), (''addr'', ''0x'' @ show_hex k)]))))))))))))"

text \<open>
  C39: Reading a page table entry never panics: every flag is the bit the processor defines, the
  frame address is the entry with its twelve flag bits cleared, and flags, available bits and
  address together determine the entry.
\<close>

theorem pte_decodes:
  "pte_present pr e = Inr (bit (pte_bits e) 0) \<and> pte_rw pr e = Inr (bit (pte_bits e) 1)
    \<and> pte_is_user pr e = Inr (bit (pte_bits e) 2) \<and> pte_write_through pr e = Inr (bit (pte_bits e) 3)
    \<and> pte_cache_disable pr e = Inr (bit (pte_bits e) 4) \<and> pte_accessed pr e = Inr (bit (pte_bits e) 5)
    \<and> pte_dirty pr e = Inr (bit (pte_bits e) 6) \<and> pte_page_attribute pr e = Inr (bit (pte_bits e) 7)
    \<and> pte_global pr e = Inr (bit (pte_bits e) 8)
    \<and> (\<exists>av ad. pte_available pr e = Inr av \<and> pte_addr pr e = Inr ad
        \<and> ad = pg_round_down (pte_bits e) \<and> unat av < 8
        \<and> pte_bits e = ad OR push_bit 9 av OR take_bit 9 (pte_bits e))"
proof -
  have f: "field_of pr 32 (Included 9, Included 11) (9, 12)" "field_of pr 32 (Included 12, Included 31) (12, 32)"
    by (simp_all add: field_of_def to_regular_range_def arith_ok)
  have m: "push_bit 12 1 - 1 = (mask 12 :: usize)" by (simp add: mask_eq_exp_minus_1 push_bit_eq_mult)
  let ?av = "drop_bit 9 (take_bit 12 (pte_bits e))" and ?ad = "push_bit 12 (drop_bit 12 (pte_bits e))"
  have w: "take_bit 32 (pte_bits e) = pte_bits e" by (rule bit_word_eqI) (auto simp: bit_simps)
  have av: "pte_available pr e = Inr ?av" by (simp add: pte_available_def u32_get_bits [OF f(1)])
  have ad: "pte_addr pr e = Inr ?ad" by (simp add: pte_addr_def u32_get_bits [OF f(2)] ushl_def w)
  have "?av = take_bit 3 (drop_bit 9 (pte_bits e))" by (rule bit_word_eqI) (auto simp: bit_simps)
  then have "unat ?av < 8" using unat_take_bit_less [of 3 "drop_bit 9 (pte_bits e)"] by simp
  moreover have "?ad = pg_round_down (pte_bits e)"
    unfolding pg_round_down_def m by (rule bit_word_eqI) (auto simp: bit_simps)
  moreover have "pte_bits e = ?ad OR push_bit 9 ?av OR take_bit 9 (pte_bits e)"
  proof (rule bit_word_eqI)
    fix n assume "n < LENGTH(32)"
    then show "bit (pte_bits e) n = bit (?ad OR push_bit 9 ?av OR take_bit 9 (pte_bits e)) n"
      by (cases "n < 12") (auto simp: bit_simps)
  qed
  ultimately show ?thesis
    using av ad by (simp add: pte_present_def pte_rw_def pte_is_user_def pte_write_through_def pte_cache_disable_def
        pte_accessed_def pte_dirty_def pte_page_attribute_def pte_global_def u32_get_bit)
qed

section \<open>Single bits\<close>

definition bm_bit :: "BitMap \<Rightarrow> 'z machine_scheme \<Rightarrow> nat \<Rightarrow> bool" where
  "bm_bit bm m i = bit (ram m (data_ptr bm + of_nat (i div 8))) (i mod 8)"

definition bm_bytes :: "BitMap \<Rightarrow> nat" where
  "bm_bytes bm = (unat (bm_size bm) + 7) div 8"

text \<open>\<open>m'\<close> differs from \<open>m\<close> at most in the bytes of the bitmap.\<close>

definition bm_frame :: "BitMap \<Rightarrow> 'z machine_scheme \<Rightarrow> 'z machine_scheme \<Rightarrow> bool" where
  "bm_frame bm m m' \<longleftrightarrow> (\<exists>r. m' = m\<lparr>ram := r\<rparr> \<and> (\<forall>a. bm_bytes bm \<le> unat (a - data_ptr bm) \<longrightarrow> r a = ram m a))"

lemma bm_frame_refl [simp]: "bm_frame bm m m"
  unfolding bm_frame_def by (rule exI [of _ "ram m"]) simp

lemma bm_frame_trans: "bm_frame bm m m' \<Longrightarrow> bm_frame bm m' m'' \<Longrightarrow> bm_frame bm m m''"
  by (auto simp: bm_frame_def)

lemma byte_addr: "data_ptr bm + idx div 8 = data_ptr bm + of_nat (unat idx div 8)"
  by (simp add: word_arith_nat_div)

lemma unat_mod_8: "unat (idx mod 8 :: usize) = unat idx mod 8"
  by (simp add: unat_mod)

lemma shift_ok: "ushl pr (1 :: u8) (idx mod 8) = Inr (push_bit (unat idx mod 8) 1)"
  by (simp add: ushl_def unat_mod_8)

lemma bm_test_run:
  "bm_test pr bm idx m =
     (if idx < bm_size bm then Some (Done (bm_bit bm m (unat idx)) m) else Some (Panicked AssertFailed m))"
  by (simp add: bm_test_def read_u8_def run_basic byte_addr shift_ok bm_bit_def
      bit_iff_and_push_bit_not_eq_0 check_def)

text \<open>Writing one byte of the bitmap changes only the bits of that byte.\<close>

lemma bm_bit_write:
  assumes "i < 2 ^ 32" "j < 2 ^ 32"
  shows "bm_bit bm (m\<lparr>ram := (ram m)(data_ptr bm + of_nat (i div 8) := v)\<rparr>) j =
    (if j div 8 = i div 8 then bit v (j mod 8) else bm_bit bm m j)"
proof -
  have b: "i div 8 < 2 ^ 32" "j div 8 < 2 ^ 32" using assms by auto
  have "(of_nat (j div 8) :: u32) = of_nat (i div 8) \<longleftrightarrow> j div 8 = i div 8"
    using b by (simp add: word_eq_nat_iff unat_of_nat_bounded)
  then show ?thesis by (simp add: bm_bit_def)
qed

lemma bm_frame_write:
  assumes "i < unat (bm_size bm)"
  shows "bm_frame bm m (m\<lparr>ram := (ram m)(data_ptr bm + of_nat (i div 8) := v)\<rparr>)"
proof -
  have "i div 8 < 2 ^ 32" and "i div 8 < bm_bytes bm"
    using assms unsigned_less [of "bm_size bm", where 'a = nat] by (auto simp: bm_bytes_def)
  then show ?thesis
    unfolding bm_frame_def
    by (intro exI [of _ "(ram m)(data_ptr bm + of_nat (i div 8) := v)"])
      (auto simp: unat_of_nat_bounded)
qed

lemma nat_div_mod_eq: "i = j \<longleftrightarrow> i div 8 = j div 8 \<and> i mod 8 = j mod (8 :: nat)"
  by (metis div_mult_mod_eq)

text \<open>The three writers: each sets one bit of the abstraction and keeps the rest.\<close>

lemma bm_write_bit:
  assumes "i < unat (bm_size bm)"
    and v: "\<And>k. k < 8 \<Longrightarrow> bit v k = (if k = i mod 8 then b else bit (ram m (data_ptr bm + of_nat (i div 8))) k)"
  shows "bm_frame bm m (m\<lparr>ram := (ram m)(data_ptr bm + of_nat (i div 8) := v)\<rparr>)"
    and "j < unat (bm_size bm) \<Longrightarrow>
      bm_bit bm (m\<lparr>ram := (ram m)(data_ptr bm + of_nat (i div 8) := v)\<rparr>) j = (if j = i then b else bm_bit bm m j)"
proof -
  have bound: "k < 2 ^ 32" if "k < unat (bm_size bm)" for k
    using that unsigned_less [of "bm_size bm", where 'a = nat] by simp
  show "bm_frame bm m (m\<lparr>ram := (ram m)(data_ptr bm + of_nat (i div 8) := v)\<rparr>)"
    using assms(1) by (rule bm_frame_write)
  assume j: "j < unat (bm_size bm)"
  show "bm_bit bm (m\<lparr>ram := (ram m)(data_ptr bm + of_nat (i div 8) := v)\<rparr>) j = (if j = i then b else bm_bit bm m j)"
    unfolding bm_bit_write [OF bound [OF assms(1)] bound [OF j]]
    using v [of "j mod 8"] by (auto simp: nat_div_mod_eq [of j i] bm_bit_def)
qed

lemma bm_writers_wp:
  assumes "idx < bm_size bm"
  shows "wp (bm_flip pr bm idx) (\<lambda>_ m'. bm_frame bm m m' \<and> (\<forall>j < unat (bm_size bm).
      bm_bit bm m' j = (if j = unat idx then \<not> bm_bit bm m j else bm_bit bm m j))) m"
    and "wp (bm_mark pr bm idx) (\<lambda>_ m'. bm_frame bm m m' \<and> (\<forall>j < unat (bm_size bm).
      bm_bit bm m' j = (j = unat idx \<or> bm_bit bm m j))) m"
    and "wp (bm_clear pr bm idx) (\<lambda>_ m'. bm_frame bm m m' \<and> (\<forall>j < unat (bm_size bm).
      bm_bit bm m' j = (j \<noteq> unat idx \<and> bm_bit bm m j))) m"
proof -
  let ?i = "unat idx" and ?a = "data_ptr bm + of_nat (unat idx div 8)"
  have i: "?i < unat (bm_size bm)" using assms by (simp add: word_less_nat_alt)
  have "bm_bit bm m ?i = bit (ram m ?a) (?i mod 8)" by (simp add: bm_bit_def)
  then have x: "bit (ram m ?a XOR push_bit (?i mod 8) 1) k
      = (if k = ?i mod 8 then \<not> bm_bit bm m ?i else bit (ram m ?a) k)" if "k < 8" for k
    using that by (auto simp: bit_simps)
  have o: "bit (ram m ?a OR push_bit (?i mod 8) 1) k = (if k = ?i mod 8 then True else bit (ram m ?a) k)"
    if "k < 8" for k
    using that by (auto simp: bit_simps)
  have n: "bit (ram m ?a AND NOT (push_bit (?i mod 8) 1)) k = (if k = ?i mod 8 then False else bit (ram m ?a) k)"
    if "k < 8" for k
    using that by (auto simp: bit_simps)
  show "wp (bm_flip pr bm idx) (\<lambda>_ m'. bm_frame bm m m' \<and> (\<forall>j < unat (bm_size bm).
      bm_bit bm m' j = (if j = unat idx then \<not> bm_bit bm m j else bm_bit bm m j))) m"
    using assms bm_write_bit [OF i x]
    by (simp add: bm_flip_def read_u8_def write_u8_def wp_simps byte_addr shift_ok)
  show "wp (bm_mark pr bm idx) (\<lambda>_ m'. bm_frame bm m m' \<and> (\<forall>j < unat (bm_size bm).
      bm_bit bm m' j = (j = unat idx \<or> bm_bit bm m j))) m"
    using assms bm_write_bit [OF i o]
    by (simp add: bm_mark_def read_u8_def write_u8_def wp_simps byte_addr shift_ok)
  show "wp (bm_clear pr bm idx) (\<lambda>_ m'. bm_frame bm m m' \<and> (\<forall>j < unat (bm_size bm).
      bm_bit bm m' j = (j \<noteq> unat idx \<and> bm_bit bm m j))) m"
    using assms bm_write_bit [OF i n]
    by (simp add: bm_clear_def read_u8_def write_u8_def wp_simps byte_addr shift_ok)
qed

section \<open>Runs of bits\<close>

lemma uadd_index:
  assumes "unat idx + unat n \<le> unat (bm_size bm)" "k < unat n"
  shows "uadd pr idx (0 + of_nat k) = Inr (idx + of_nat k)"
    and "unat (idx + of_nat k) = unat idx + k" and "idx + of_nat k < bm_size bm"
proof -
  have b: "unat idx + k < 2 ^ 32" "k < 2 ^ 32"
    using assms unsigned_less [of "bm_size bm", where 'a = nat] by simp_all
  then show "uadd pr idx (0 + of_nat k) = Inr (idx + of_nat k)"
    and u: "unat (idx + of_nat k) = unat idx + k"
    by (simp_all add: uadd_ok unat_plus_bounded unat_of_nat_bounded)
  then show "idx + of_nat k < bm_size bm"
    using assms by (simp add: word_less_nat_alt)
qed

lemma bm_flips_wp:
  assumes "unat idx + unat n \<le> unat (bm_size bm)"
  shows "wp (bm_flips pr bm idx n) (\<lambda>_ m'. bm_frame bm m m' \<and> (\<forall>j < unat (bm_size bm).
    bm_bit bm m' j = (if unat idx \<le> j \<and> j < unat idx + unat n then \<not> bm_bit bm m j else bm_bit bm m j))) m"
proof -
  let ?I = "\<lambda>k m'. bm_frame bm m m' \<and> (\<forall>j < unat (bm_size bm).
    bm_bit bm m' j = (if unat idx \<le> j \<and> j < unat idx + k then \<not> bm_bit bm m j else bm_bit bm m j))"
  have "wp (for_count (\<lambda>i. bnd (lift (uadd pr idx i)) (bm_flip pr bm)) (unat n) 0) (\<lambda>_. ?I (unat n)) m"
  proof (rule wp_for_count)
    show "?I 0 m" by simp
    fix k s assume k: "k < unat n" and I: "?I k s"
    have "wp (bm_flip pr bm (idx + of_nat k)) (\<lambda>_. ?I (Suc k)) s"
      using bm_writers_wp(1) [OF uadd_index(3) [OF assms k], of pr s]
      by (rule wp_mono) (use I uadd_index(2) [OF assms k] in \<open>auto intro: bm_frame_trans\<close>)
    then show "wp (bnd (lift (uadd pr idx (0 + of_nat k))) (bm_flip pr bm)) (\<lambda>_. ?I (Suc k)) s"
      by (simp only: uadd_index(1) [OF assms k] lift_simps bnd_ret)
  qed
  then show ?thesis by (simp add: bm_flips_def for_range_def)
qed

lemma bm_sets_wp:
  assumes "unat idx + unat n \<le> unat (bm_size bm)"
  shows "wp (bm_sets pr bm idx n val) (\<lambda>_ m'. bm_frame bm m m' \<and> (\<forall>j < unat (bm_size bm).
    bm_bit bm m' j = (if unat idx \<le> j \<and> j < unat idx + unat n then val else bm_bit bm m j))) m"
proof -
  let ?I = "\<lambda>k m'. bm_frame bm m m' \<and> (\<forall>j < unat (bm_size bm).
    bm_bit bm m' j = (if unat idx \<le> j \<and> j < unat idx + k then val else bm_bit bm m j))"
  have "wp (for_count (\<lambda>i. bnd (lift (uadd pr idx i)) (\<lambda>j. bm_set pr bm j val)) (unat n) 0) (\<lambda>_. ?I (unat n)) m"
  proof (rule wp_for_count)
    show "?I 0 m" by auto
    fix k s assume k: "k < unat n" and I: "?I k s"
    note lt = uadd_index(3) [OF assms k] and u = uadd_index(2) [OF assms k]
    have "wp (bm_set pr bm (idx + of_nat k) val) (\<lambda>_. ?I (Suc k)) s"
    proof (cases val)
      case True
      show ?thesis
        using bm_writers_wp(2) [OF lt, of pr s] lt
        by (simp add: bm_set_def True) (erule wp_mono, use I u True in \<open>auto intro: bm_frame_trans\<close>)
    next
      case False
      show ?thesis
        using bm_writers_wp(3) [OF lt, of pr s] lt
        by (simp add: bm_set_def False) (erule wp_mono, use I u False in \<open>auto intro: bm_frame_trans\<close>)
    qed
    then show "wp (bnd (lift (uadd pr idx (0 + of_nat k))) (\<lambda>j. bm_set pr bm j val)) (\<lambda>_. ?I (Suc k)) s"
      by (simp only: uadd_index(1) [OF assms k] lift_simps bnd_ret)
  qed
  then show ?thesis by (simp add: bm_sets_def for_range_def)
qed

text \<open>
  What \<open>contains\<close> does on any arguments: it stops at the first bit with the value, and fails the
  bounds assertion when it runs past the end without having met one.
\<close>

definition hit :: "BitMap \<Rightarrow> 'z machine_scheme \<Rightarrow> bool \<Rightarrow> nat \<Rightarrow> nat \<Rightarrow> bool" where
  "hit bm m val s e \<longleftrightarrow> (\<exists>j. s \<le> j \<and> j < e \<and> j < unat (bm_size bm) \<and> bm_bit bm m j = val)"

lemma hit_step:
  "s < unat (bm_size bm) \<Longrightarrow> hit bm m val s (s + Suc n) \<longleftrightarrow> bm_bit bm m s = val \<or> hit bm m val (Suc s) (Suc s + n)"
  unfolding hit_def by (metis add_Suc_right add_Suc Suc_le_eq le_eq_less_or_eq less_add_Suc1)

lemma bm_contains_loop_run:
  assumes "unat start + unat i \<le> unat (bm_size bm)"
  shows "bm_contains_loop pr bm start val n i m =
    (let s = unat start + unat i in
     if hit bm m val s (s + n) then Some (Done True m)
     else if s + n \<le> unat (bm_size bm) then Some (Done False m)
     else Some (Panicked AssertFailed m))"
  using assms
proof (induction n arbitrary: i)
  case 0
  then show ?case by (simp add: Let_def hit_def run_basic)
next
  case (Suc n)
  let ?s = "unat start + unat i"
  have bound: "unat (bm_size bm) < 2 ^ 32"
    using unsigned_less [of "bm_size bm", where 'a = nat] by simp
  then have add: "uadd pr start i = Inr (start + i)" and u: "unat (start + i) = ?s"
    using Suc.prems by (simp_all add: uadd_ok unat_plus_bounded)
  show ?case
  proof (cases "?s < unat (bm_size bm)")
    case True
    then have i1: "unat (i + 1) = Suc (unat i)"
      using bound by (simp add: unat_plus_bounded)
    have "bm_test pr bm (start + i) m = Some (Done (bm_bit bm m ?s) m)"
      using True u by (simp add: bm_test_run word_less_nat_alt)
    then show ?thesis
      using Suc.IH [of "i + 1"] True i1 hit_step [OF True, of m val n]
      by (auto simp: add bnd_run Let_def run_basic)
  next
    case False
    then have "bm_test pr bm (start + i) m = Some (Panicked AssertFailed m)"
      using u by (simp add: bm_test_run word_less_nat_alt)
    then show ?thesis
      using False Suc.prems by (auto simp: add bnd_run Let_def hit_def)
  qed
qed

lemma bm_contains_run:
  assumes "unat start \<le> unat (bm_size bm)"
  shows "bm_contains pr bm start n val m =
    (if hit bm m val (unat start) (unat start + unat n) then Some (Done True m)
     else if unat start + unat n \<le> unat (bm_size bm) then Some (Done False m)
     else Some (Panicked AssertFailed m))"
  using assms by (simp add: bm_contains_def bm_contains_loop_run Let_def)

text \<open>A run of \<open>n\<close> bits of value \<open>val\<close> from \<open>i\<close> on, inside the bitmap.\<close>

definition run_at :: "BitMap \<Rightarrow> 'z machine_scheme \<Rightarrow> bool \<Rightarrow> nat \<Rightarrow> nat \<Rightarrow> bool" where
  "run_at bm m val n i \<longleftrightarrow> i + n \<le> unat (bm_size bm) \<and> (\<forall>j. i \<le> j \<and> j < i + n \<longrightarrow> bm_bit bm m j = val)"

lemma run_at_iff: "run_at bm m val n i \<longleftrightarrow> i + n \<le> unat (bm_size bm) \<and> \<not> hit bm m (\<not> val) i (i + n)"
  by (auto simp: run_at_def hit_def)

lemma bm_find_loop_skip:
  assumes "k = unat (bm_size bm) - unat i" and "unat i \<le> j" and "j < unat (bm_size bm)"
    and "\<And>l. unat i \<le> l \<Longrightarrow> l < j \<Longrightarrow> hit bm m (\<not> val) l (l + unat n)"
  shows "bm_find_loop pr bm n val k i m = bm_find_loop pr bm n val (unat (bm_size bm) - j) (of_nat j) m"
  using assms
proof (induction k arbitrary: i)
  case 0
  then show ?case by simp
next
  case (Suc k)
  show ?case
  proof (cases "unat i = j")
    case True
    then show ?thesis using Suc.prems(1) by auto
  next
    case False
    have lt: "unat i < unat (bm_size bm)" using Suc.prems by simp
    then have i1: "unat (i + 1) = Suc (unat i)"
      using unsigned_less [of "bm_size bm", where 'a = nat] by (simp add: unat_plus_bounded)
    have "bm_contains pr bm i n (\<not> val) m = Some (Done True m)"
      using Suc.prems(4) [of "unat i"] Suc.prems(2) False lt by (simp add: bm_contains_run)
    then have "bm_find_loop pr bm n val (Suc k) i m = bm_find_loop pr bm n val k (i + 1) m"
      by (simp add: bnd_run)
    also have "\<dots> = bm_find_loop pr bm n val (unat (bm_size bm) - j) (of_nat j) m"
    proof (rule Suc.IH)
      show "k = unat (bm_size bm) - unat (i + 1)" using Suc.prems(1) i1 by simp
    qed (use Suc.prems(2-4) False i1 in simp_all)
    finally show ?thesis .
  qed
qed

lemma bm_find_hit:
  assumes "j < unat (bm_size bm)" and "run_at bm m val (unat n) j"
    and "\<And>l. unat start \<le> l \<Longrightarrow> l < j \<Longrightarrow> \<not> run_at bm m val (unat n) l" and "unat start \<le> j"
  shows "bm_find pr bm start n val m = Some (Done (Some (of_nat j)) m)"
proof -
  obtain k where k: "unat (bm_size bm) - j = Suc k" using assms(1) by (cases "unat (bm_size bm) - j") auto
  have j: "unat (of_nat j :: usize) = j"
    using assms(1) unsigned_less [of "bm_size bm", where 'a = nat] by (simp add: unat_of_nat_bounded)
  have "hit bm m (\<not> val) l (l + unat n)" if "unat start \<le> l" "l < j" for l
    using assms(2) assms(3) [OF that] that by (auto simp: run_at_iff)
  then have "bm_find pr bm start n val m = bm_find_loop pr bm n val (Suc k) (of_nat j) m"
    unfolding bm_find_def using assms(1,4) by (simp add: bm_find_loop_skip [where j = j] k)
  moreover have "bm_contains pr bm (of_nat j) n (\<not> val) m = Some (Done False m)"
    using assms(1,2) j by (simp add: bm_contains_run run_at_iff)
  ultimately show ?thesis by (simp add: bnd_run run_basic)
qed

lemma bm_find_miss:
  assumes "\<And>l. unat start \<le> l \<Longrightarrow> l < unat (bm_size bm) \<Longrightarrow> \<not> run_at bm m val (unat n) l"
    and "unat start < unat (bm_size bm)"
  shows "bm_find pr bm start n val m =
    (if bm_bit bm m (unat (bm_size bm) - 1) = val then Some (Panicked AssertFailed m) else Some (Done None m))"
proof -
  let ?N = "unat (bm_size bm)"
  let ?last = "?N - 1"
  have N: "?N < 2 ^ 32" using unsigned_less [of "bm_size bm", where 'a = nat] by simp
  show ?thesis
  proof (cases "\<exists>l. unat start \<le> l \<and> l < ?N \<and> \<not> hit bm m (\<not> val) l (l + unat n)")
    case False
    then have all: "\<And>l. unat start \<le> l \<Longrightarrow> l < ?N \<Longrightarrow> hit bm m (\<not> val) l (l + unat n)" by blast
    obtain j where "?last \<le> j" "j < ?N" "bm_bit bm m j = (\<not> val)"
      using all [of ?last] assms(2) unfolding hit_def by force
    moreover from this have "j = ?last" by simp
    ultimately have last: "bm_bit bm m ?last \<noteq> val" by simp
    have lu: "unat (of_nat ?last :: usize) = ?last" using N by (simp add: unat_of_nat_bounded)
    have "bm_find pr bm start n val m = bm_find_loop pr bm n val 1 (of_nat ?last) m"
      unfolding bm_find_def using assms(2) all by (simp add: bm_find_loop_skip [where j = ?last])
    moreover have "bm_contains pr bm (of_nat ?last) n (\<not> val) m = Some (Done True m)"
      using all [of ?last] assms(2) lu by (simp add: bm_contains_run)
    ultimately show ?thesis using last by (simp add: bnd_run run_basic)
  next
    case True
    define l where "l = (LEAST l. unat start \<le> l \<and> l < ?N \<and> \<not> hit bm m (\<not> val) l (l + unat n))"
    have l: "unat start \<le> l" "l < ?N" "\<not> hit bm m (\<not> val) l (l + unat n)"
      using LeastI_ex [OF True] by (simp_all add: l_def)
    have before: "hit bm m (\<not> val) i (i + unat n)" if "unat start \<le> i" "i < l" for i
      using not_less_Least [of i] that l(2) unfolding l_def by fastforce
    have over: "?N < l + unat n" using l assms(1) [of l] by (auto simp: run_at_iff)
    have last: "bm_bit bm m ?last = val"
      using l over by (auto simp: hit_def)
    obtain k where k: "?N - l = Suc k" using l(2) by (cases "?N - l") auto
    have lu: "unat (of_nat l :: usize) = l" using N l(2) by (simp add: unat_of_nat_bounded)
    have "bm_find pr bm start n val m = bm_find_loop pr bm n val (Suc k) (of_nat l) m"
      unfolding bm_find_def using l(1,2) before by (simp add: bm_find_loop_skip [where j = l] k)
    moreover have "bm_contains pr bm (of_nat l) n (\<not> val) m = Some (Panicked AssertFailed m)"
      using l over lu by (simp add: bm_contains_run)
    ultimately show ?thesis using last by (simp add: bnd_run)
  qed
qed

lemma bm_contains_outside:
  assumes "unat (bm_size bm) \<le> unat start" and "0 < unat n"
  shows "bm_contains pr bm start n val m = Some (Panicked AssertFailed m)"
proof -
  obtain k where k: "unat n = Suc k" using assms(2) by (cases "unat n") auto
  have "uadd pr start 0 = Inr start"
    using unsigned_less [of start, where 'a = nat] by (simp add: uadd_def)
  moreover have "bm_test pr bm start m = Some (Panicked AssertFailed m)"
    using assms(1) by (simp add: bm_test_run word_less_nat_alt)
  ultimately show ?thesis by (simp add: bm_contains_def k bnd_run)
qed

section \<open>The contract of the bitmap\<close>

definition used :: "BitMap \<Rightarrow> 'z machine_scheme \<Rightarrow> nat set" where
  "used bm m = {i. i < unat (bm_size bm) \<and> bm_bit bm m i}"

text \<open>\<open>free_run N U n i\<close>: the \<open>n\<close> pages from \<open>i\<close> on exist and none of them is in \<open>U\<close>.\<close>

definition free_run :: "nat \<Rightarrow> nat set \<Rightarrow> nat \<Rightarrow> nat \<Rightarrow> bool" where
  "free_run N U n i \<longleftrightarrow> i + n \<le> N \<and> {i..<i + n} \<inter> U = {}"

text \<open>
  What the page allocator relies on: \<open>find\<close> returns the first free run and otherwise fails in one
  of two ways, \<open>flips\<close> complements a run, \<open>all\<close> tests one; only the bitmap's own memory changes.
\<close>

locale page_map =
  fixes N :: nat
    and pages :: "'s \<Rightarrow> nat set"
    and frame :: "'s \<Rightarrow> 's \<Rightarrow> bool"
    and find :: "usize \<Rightarrow> (usize option, 's) comp"
    and flips :: "usize \<Rightarrow> usize \<Rightarrow> (unit, 's) comp"
    and all :: "usize \<Rightarrow> usize \<Rightarrow> (bool, 's) comp"
  assumes size_bound: "N < 2 ^ 32"
    and pages_bound: "pages s \<subseteq> {..<N}"
    and find_first: "i < N \<Longrightarrow> free_run N (pages s) (unat n) i \<Longrightarrow>
      (\<And>l. l < i \<Longrightarrow> \<not> free_run N (pages s) (unat n) l) \<Longrightarrow> find n s = Some (Done (Some (of_nat i)) s)"
    and find_none: "0 < N \<Longrightarrow> (\<And>l. l < N \<Longrightarrow> \<not> free_run N (pages s) (unat n) l) \<Longrightarrow>
      find n s = (if N - 1 \<in> pages s then Some (Done None s) else Some (Panicked AssertFailed s))"
    and flips_toggle: "unat idx + unat n \<le> N \<Longrightarrow> \<exists>s'. flips idx n s = Some (Done () s') \<and> frame s s'
      \<and> pages s' = (pages s - {unat idx..<unat idx + unat n}) \<union> ({unat idx..<unat idx + unat n} - pages s)"
    and all_inside: "unat idx + unat n \<le> N \<Longrightarrow> all idx n s = Some (Done ({unat idx..<unat idx + unat n} \<subseteq> pages s) s)"
    and all_outside: "0 < unat n \<Longrightarrow> N < unat idx + unat n \<Longrightarrow>
      all idx n s = Some (Done False s) \<or> all idx n s = Some (Panicked AssertFailed s)"
begin

lemma first_run:
  assumes "\<exists>i < N. free_run N (pages s) n i"
  obtains i where "i < N" "free_run N (pages s) n i" "\<And>l. l < i \<Longrightarrow> \<not> free_run N (pages s) n l"
proof -
  let ?P = "\<lambda>i. i < N \<and> free_run N (pages s) n i"
  have "?P (Least ?P)" using assms by (rule LeastI_ex)
  moreover have "\<not> free_run N (pages s) n l" if "l < Least ?P" for l
    using not_less_Least [OF that] that calculation by auto
  ultimately show ?thesis using that by blast
qed

text \<open>Taking the first free run: it becomes allocated, everything else stays as it was.\<close>

lemma take_first:
  assumes "i < N" "free_run N (pages s) (unat n) i" "\<And>l. l < i \<Longrightarrow> \<not> free_run N (pages s) (unat n) l"
  shows "\<exists>s'. bnd (find n) (\<lambda>r. case r of None \<Rightarrow> q | Some j \<Rightarrow> andthen (flips j n) (k j)) s = k (of_nat i) s'
    \<and> frame s s' \<and> pages s' = pages s \<union> {i..<i + unat n}"
proof -
  have i: "unat (of_nat i :: usize) = i" using assms(1) size_bound by (simp add: unat_of_nat_bounded)
  have fr: "i + unat n \<le> N" "{i..<i + unat n} \<inter> pages s = {}"
    using assms(2) by (simp_all add: free_run_def)
  obtain s' where s': "flips (of_nat i) n s = Some (Done () s')" "frame s s'"
    and p: "pages s' = (pages s - {i..<i + unat n}) \<union> ({i..<i + unat n} - pages s)"
    using flips_toggle [of "of_nat i" n s] fr(1) i by auto
  have "pages s' = pages s \<union> {i..<i + unat n}" using p fr(2) by auto
  moreover have "bnd (find n) (\<lambda>r. case r of None \<Rightarrow> q | Some j \<Rightarrow> andthen (flips j n) (k j)) s = k (of_nat i) s'"
    using find_first [OF assms] s'(1) by (simp add: bnd_run andthen_run)
  ultimately show ?thesis using s'(2) by blast
qed

text \<open>Giving a run back, and what happens when it was not allocated.\<close>

lemma give_back:
  assumes "unat idx + unat n \<le> N" "{unat idx..<unat idx + unat n} \<subseteq> pages s"
  shows "\<exists>s'. bnd (all idx n) (\<lambda>ok. andthen (check ok) (flips idx n)) s = Some (Done () s')
    \<and> frame s s' \<and> pages s' = pages s - {unat idx..<unat idx + unat n}"
proof -
  have "all idx n s = Some (Done True s)" using all_inside [OF assms(1)] assms(2) by simp
  then have "bnd (all idx n) (\<lambda>ok. andthen (check ok) (flips idx n)) s = flips idx n s"
    by (simp add: bnd_run)
  then show ?thesis using flips_toggle [OF assms(1), of s] assms(2) by auto
qed

lemma give_back_rejected:
  assumes "0 < unat n" "\<not> {unat idx..<unat idx + unat n} \<subseteq> pages s"
  shows "bnd (all idx n) (\<lambda>ok. andthen (check ok) (flips idx n)) s = Some (Panicked AssertFailed s)"
proof -
  have "all idx n s = Some (Done False s) \<or> all idx n s = Some (Panicked AssertFailed s)"
    using all_inside [of idx n s] all_outside [OF assms(1), of idx s] assms(2)
    by (cases "unat idx + unat n \<le> N") auto
  then show ?thesis by (auto simp: bnd_run run_basic)
qed

end

lemma free_run_run_at:
  "free_run (unat (bm_size bm)) (used bm m) n i \<longleftrightarrow> run_at bm m False n i"
  by (auto simp: free_run_def run_at_def used_def)

interpretation bitmap: page_map "unat (bm_size bm)" "used bm" "bm_frame bm"
  "\<lambda>n. bm_find pr bm 0 n False" "bm_flips pr bm" "bm_all pr bm" for pr bm
proof
  fix s :: "'z machine_scheme" and n idx :: usize and i :: nat
  let ?N = "unat (bm_size bm)" and ?R = "{unat idx..<unat idx + unat n}"
  show "?N < 2 ^ 32" using unsigned_less [of "bm_size bm", where 'a = nat] by simp
  show "used bm s \<subseteq> {..<?N}" by (auto simp: used_def)
  show "bm_find pr bm 0 n False s = Some (Done (Some (of_nat i)) s)"
    if "i < ?N" "free_run ?N (used bm s) (unat n) i" "\<And>l. l < i \<Longrightarrow> \<not> free_run ?N (used bm s) (unat n) l"
    using that by (intro bm_find_hit) (simp_all add: free_run_run_at)
  show "bm_find pr bm 0 n False s =
      (if ?N - 1 \<in> used bm s then Some (Done None s) else Some (Panicked AssertFailed s))"
    if "0 < ?N" "\<And>l. l < ?N \<Longrightarrow> \<not> free_run ?N (used bm s) (unat n) l"
  proof -
    have "?N - 1 \<in> used bm s \<longleftrightarrow> bm_bit bm s (?N - 1)" using that(1) by (simp add: used_def)
    then show ?thesis
      using that by (subst bm_find_miss) (simp_all add: free_run_run_at)
  qed
  show "\<exists>s'. bm_flips pr bm idx n s = Some (Done () s') \<and> bm_frame bm s s'
      \<and> used bm s' = (used bm s - ?R) \<union> (?R - used bm s)" if inside: "unat idx + unat n \<le> ?N"
  proof -
    obtain s' where "bm_flips pr bm idx n s = Some (Done () s')" "bm_frame bm s s'"
      and b: "\<forall>j < ?N. bm_bit bm s' j
        = (if unat idx \<le> j \<and> j < unat idx + unat n then \<not> bm_bit bm s j else bm_bit bm s j)"
      using bm_flips_wp [OF inside, of pr s] by (auto simp: wp_iff)
    moreover have "used bm s' = (used bm s - ?R) \<union> (?R - used bm s)"
      using b inside by (auto simp: used_def)
    ultimately show ?thesis by blast
  qed
  show "bm_all pr bm idx n s = Some (Done (?R \<subseteq> used bm s) s)" if "unat idx + unat n \<le> ?N"
  proof -
    have "hit bm s False (unat idx) (unat idx + unat n) \<longleftrightarrow> \<not> ?R \<subseteq> used bm s"
      using that by (auto simp: hit_def used_def)
    then show ?thesis
      using that by (simp add: bm_all_def bnd_def bm_contains_run run_basic)
  qed
  show "bm_all pr bm idx n s = Some (Done False s) \<or> bm_all pr bm idx n s = Some (Panicked AssertFailed s)"
    if "0 < unat n" "?N < unat idx + unat n"
    using that bm_contains_outside [of bm idx n pr False s]
    by (cases "unat idx \<le> ?N") (auto simp: bm_all_def bnd_def bm_contains_run run_basic)
qed

section \<open>The bitmap as a set\<close>

lemma bm_sets_used:
  assumes "unat idx + unat n \<le> unat (bm_size bm)"
  shows "\<exists>m'. bm_sets pr bm idx n val m = Some (Done () m') \<and> bm_frame bm m m'
    \<and> used bm m' = (if val then used bm m \<union> {unat idx..<unat idx + unat n} else used bm m - {unat idx..<unat idx + unat n})"
proof -
  obtain m' where m': "bm_sets pr bm idx n val m = Some (Done () m')" "bm_frame bm m m'"
    and b: "\<forall>j < unat (bm_size bm). bm_bit bm m' j = (if unat idx \<le> j \<and> j < unat idx + unat n then val else bm_bit bm m j)"
    using bm_sets_wp [OF assms, of pr val m] by (auto simp: wp_iff)
  have "used bm m' = (if val then used bm m \<union> {unat idx..<unat idx + unat n} else used bm m - {unat idx..<unat idx + unat n})"
    using b assms by (cases val) (auto simp: used_def split: if_splits)
  then show ?thesis using m' by blast
qed

lemma bm_any_used:
  assumes "unat idx + unat n \<le> unat (bm_size bm)"
  shows "bm_any pr bm idx n m = Some (Done ({unat idx..<unat idx + unat n} \<inter> used bm m \<noteq> {}) m)"
proof -
  have "hit bm m True (unat idx) (unat idx + unat n) \<longleftrightarrow> {unat idx..<unat idx + unat n} \<inter> used bm m \<noteq> {}"
    using assms by (auto simp: hit_def used_def)
  then show ?thesis using assms by (simp add: bm_any_def bm_contains_run)
qed

lemma bm_outside:
  assumes "bm_size bm \<le> idx"
  shows "bm_test pr bm idx m = Some (Panicked AssertFailed m)" "bm_mark pr bm idx m = Some (Panicked AssertFailed m)"
    "bm_clear pr bm idx m = Some (Panicked AssertFailed m)" "bm_flip pr bm idx m = Some (Panicked AssertFailed m)"
    "bm_set pr bm idx val m = Some (Panicked AssertFailed m)"
  using assms by (simp_all add: bm_test_def bm_mark_def bm_clear_def bm_flip_def bm_set_def check_def run_basic not_less [symmetric])

text \<open>
  A run that reaches beyond the end: the loop of the writers does the part inside and then panics.
\<close>

definition leaves :: "BitMap \<Rightarrow> usize \<Rightarrow> usize \<Rightarrow> bool" where
  "leaves bm idx n \<longleftrightarrow> 0 < n \<and> unat (bm_size bm) < unat idx + unat n"

definition inside_run :: "BitMap \<Rightarrow> usize \<Rightarrow> usize \<Rightarrow> nat set" where
  "inside_run bm idx n = {unat idx..<unat idx + unat n} \<inter> {..<unat (bm_size bm)}"

lemma not_leaves: "\<not> leaves bm idx n \<longleftrightarrow> n = 0 \<or> unat idx + unat n \<le> unat (bm_size bm)"
  by (auto simp: leaves_def word_gt_0)

lemma inside_run_all: "n = 0 \<or> unat idx + unat n \<le> unat (bm_size bm) \<Longrightarrow> inside_run bm idx n = {unat idx..<unat idx + unat n}"
  by (auto simp: inside_run_def)

text \<open>The part inside, as a run of its own.\<close>

definition part :: "BitMap \<Rightarrow> usize \<Rightarrow> nat" where
  "part bm idx = unat (bm_size bm) - unat idx"

lemma leaves_part:
  assumes "leaves bm idx n"
  shows "part bm idx < unat n" "unat (of_nat (part bm idx) :: usize) = part bm idx"
    "unat idx \<le> unat (bm_size bm) \<Longrightarrow> unat idx + unat (of_nat (part bm idx) :: usize) \<le> unat (bm_size bm)"
    "inside_run bm idx n = {unat idx..<unat idx + part bm idx}"
    "uadd pr idx (of_nat (part bm idx)) = Inr (idx + of_nat (part bm idx))" "bm_size bm \<le> idx + of_nat (part bm idx)"
proof -
  show l: "part bm idx < unat n" using assms by (auto simp: leaves_def part_def word_gt_0 unat_eq_0 simp flip: unat_gt_0)
  then show u: "unat (of_nat (part bm idx) :: usize) = part bm idx"
    using unsigned_less [of n, where 'a = nat] by (intro unat_of_nat_bounded) simp
  then show "unat idx \<le> unat (bm_size bm) \<Longrightarrow> unat idx + unat (of_nat (part bm idx) :: usize) \<le> unat (bm_size bm)"
    by (simp add: part_def)
  show "inside_run bm idx n = {unat idx..<unat idx + part bm idx}" using l by (auto simp: inside_run_def part_def)
  have s: "unat idx + part bm idx < 2 ^ 32"
    using unsigned_less [of "bm_size bm", where 'a = nat] unsigned_less [of idx, where 'a = nat] by (auto simp: part_def)
  then show "uadd pr idx (of_nat (part bm idx)) = Inr (idx + of_nat (part bm idx))" by (simp add: uadd_def u)
  show "bm_size bm \<le> idx + of_nat (part bm idx)"
    using s u by (simp add: word_le_nat_alt unat_plus_bounded part_def)
qed

lemma writers_leave:
  assumes "leaves bm idx n" "for_count body (part bm idx) 0 m = Some (Done () m')"
    and "\<And>j. bm_size bm \<le> j \<Longrightarrow> write j m' = Some (Panicked AssertFailed m')" "body = (\<lambda>i. bnd (lift (uadd pr idx i)) write)"
  shows "for_range 0 n body m = Some (Panicked AssertFailed m')"
proof -
  have "body (0 + of_nat (part bm idx)) m' = Some (Panicked AssertFailed m')"
    using leaves_part(5,6) [OF assms(1)] assms(3) by (simp add: assms(4) bnd_run)
  from for_count_panics [OF assms(2) this leaves_part(1) [OF assms(1)]] show ?thesis by (simp add: for_range_def)
qed

lemma bm_sets_leaves:
  assumes "leaves bm idx n"
  shows "\<exists>m'. bm_sets pr bm idx n val m = Some (Panicked AssertFailed m') \<and> bm_frame bm m m'
    \<and> used bm m' = (if val then used bm m \<union> inside_run bm idx n else used bm m - inside_run bm idx n)"
proof -
  note l = leaves_part [OF assms]
  obtain m' where m': "bm_sets pr bm idx (of_nat (part bm idx)) val m = Some (Done () m')" "bm_frame bm m m'"
      "used bm m' = (if val then used bm m \<union> inside_run bm idx n else used bm m - inside_run bm idx n)"
  proof (cases "unat idx \<le> unat (bm_size bm)")
    case True
    then show thesis using bm_sets_used [OF l(3), of pr val m] that unfolding l(2,4) by blast
  next
    case False
    then show thesis using that [of m] by (simp add: part_def bm_sets_def for_range_def run_basic l(4))
  qed
  have "for_count (\<lambda>i. bnd (lift (uadd pr idx i)) (\<lambda>j. bm_set pr bm j val)) (part bm idx) 0 m = Some (Done () m')"
    using m'(1) l(2) by (simp add: bm_sets_def for_range_def)
  from writers_leave [OF assms this bm_outside(5) refl] show ?thesis using m'(2,3) unfolding bm_sets_def by blast
qed

lemma bm_flips_leaves:
  assumes "leaves bm idx n"
  shows "\<exists>m'. bm_flips pr bm idx n m = Some (Panicked AssertFailed m') \<and> bm_frame bm m m'
    \<and> used bm m' = (used bm m - inside_run bm idx n) \<union> (inside_run bm idx n - used bm m)"
proof -
  note l = leaves_part [OF assms]
  obtain m' where m': "bm_flips pr bm idx (of_nat (part bm idx)) m = Some (Done () m')" "bm_frame bm m m'"
      "used bm m' = (used bm m - inside_run bm idx n) \<union> (inside_run bm idx n - used bm m)"
  proof (cases "unat idx \<le> unat (bm_size bm)")
    case True
    then show thesis using bitmap.flips_toggle [OF l(3), of pr m] that unfolding l(2,4) by blast
  next
    case False
    then show thesis using that [of m] by (simp add: part_def bm_flips_def for_range_def run_basic l(4))
  qed
  have "for_count (\<lambda>i. bnd (lift (uadd pr idx i)) (bm_flip pr bm)) (part bm idx) 0 m = Some (Done () m')"
    using m'(1) l(2) by (simp add: bm_flips_def for_range_def)
  from writers_leave [OF assms this bm_outside(4) refl] show ?thesis using m'(2,3) unfolding bm_flips_def by blast
qed

lemma bm_contains_leaves:
  assumes "leaves bm idx n"
  shows "bm_contains pr bm idx n val m
    = Some (if \<exists>j \<in> inside_run bm idx n. (j \<in> used bm m) = val then Done True m else Panicked AssertFailed m)"
proof (cases "unat idx \<le> unat (bm_size bm)")
  case True
  have "hit bm m val (unat idx) (unat idx + unat n) \<longleftrightarrow> (\<exists>j \<in> inside_run bm idx n. (j \<in> used bm m) = val)"
    by (auto simp: hit_def used_def inside_run_def)
  then show ?thesis using assms by (simp add: bm_contains_run [OF True] leaves_def)
next
  case False
  then have "inside_run bm idx n = {}" by (auto simp: inside_run_def)
  moreover have "0 < unat n" using assms by (simp add: leaves_def word_less_nat_alt)
  ultimately show ?thesis using False by (simp add: bm_contains_outside)
qed

text \<open>Any run: inside, empty, or leaving the bitmap.\<close>

lemma run_cases:
  obtains "leaves bm idx n" | "\<not> leaves bm idx n" "n = 0" "inside_run bm idx n = {}"
    | "\<not> leaves bm idx n" "unat idx + unat n \<le> unat (bm_size bm)" "inside_run bm idx n = {unat idx..<unat idx + unat n}"
  using not_leaves [of bm idx n] inside_run_all [of n idx bm] by fastforce

lemma bm_empty_run:
  "bm_sets pr bm idx 0 val m = Some (Done () m)" "bm_flips pr bm idx 0 m = Some (Done () m)"
  "bm_any pr bm idx 0 m = Some (Done False m)" "bm_all pr bm idx 0 m = Some (Done True m)"
  by (simp_all add: bm_sets_def bm_flips_def bm_any_def bm_all_def bm_contains_def for_range_def bnd_run run_basic)

lemma bm_sets_any_run:
  "\<exists>m'. bm_sets pr bm idx n val m = Some (if leaves bm idx n then Panicked AssertFailed m' else Done () m') \<and> bm_frame bm m m'
    \<and> used bm m' = (if val then used bm m \<union> inside_run bm idx n else used bm m - inside_run bm idx n)"
proof (cases rule: run_cases [of bm idx n])
  case 1
  then show ?thesis using bm_sets_leaves [of bm idx n pr val m] by (cases val) simp_all
next
  case 2
  then show ?thesis by (intro exI [of _ m]) (simp add: bm_empty_run)
next
  case 3
  then show ?thesis using bm_sets_used [of idx n bm pr val m] by (cases val) simp_all
qed

lemma bm_flips_any_run:
  "\<exists>m'. bm_flips pr bm idx n m = Some (if leaves bm idx n then Panicked AssertFailed m' else Done () m') \<and> bm_frame bm m m'
    \<and> used bm m' = (used bm m - inside_run bm idx n) \<union> (inside_run bm idx n - used bm m)"
proof (cases rule: run_cases [of bm idx n])
  case 1
  then show ?thesis using bm_flips_leaves [of bm idx n pr m] by simp
next
  case 2
  then show ?thesis by (intro exI [of _ m]) (simp add: bm_empty_run)
next
  case 3
  then show ?thesis using bitmap.flips_toggle [of idx n bm pr m] by simp
qed

lemma bm_tests_any_run:
  assumes R_def: "R = inside_run bm idx n"
  shows "bm_any pr bm idx n m
      = Some (if leaves bm idx n \<and> R \<inter> used bm m = {} then Panicked AssertFailed m else Done (R \<inter> used bm m \<noteq> {}) m)"
    and "bm_all pr bm idx n m = Some (if leaves bm idx n \<and> R \<subseteq> used bm m then Panicked AssertFailed m else Done (R \<subseteq> used bm m) m)"
proof -
  have d: "(\<exists>j \<in> R. (j \<in> used bm m) = True) \<longleftrightarrow> R \<inter> used bm m \<noteq> {}" "(\<exists>j \<in> R. (j \<in> used bm m) = False) \<longleftrightarrow> \<not> R \<subseteq> used bm m"
    by auto
  show "bm_any pr bm idx n m
      = Some (if leaves bm idx n \<and> R \<inter> used bm m = {} then Panicked AssertFailed m else Done (R \<inter> used bm m \<noteq> {}) m)"
  proof (cases rule: run_cases [of bm idx n])
    case 1
    then show ?thesis using d(1) by (simp add: bm_any_def bm_contains_leaves R_def)
  qed (simp_all add: bm_empty_run bm_any_used R_def)
  show "bm_all pr bm idx n m = Some (if leaves bm idx n \<and> R \<subseteq> used bm m then Panicked AssertFailed m else Done (R \<subseteq> used bm m) m)"
  proof (cases rule: run_cases [of bm idx n])
    case 1
    then show ?thesis using d(2) by (simp add: bm_all_def bnd_def bm_contains_leaves R_def run_basic)
  qed (simp_all add: bm_empty_run bitmap.all_inside R_def)
qed

text \<open>
  C35: The bitmap refines a set of page numbers, on every run, inside the bitmap or not. With \<open>R\<close> the part of the
  run inside, \<open>sets\<close> adds or removes \<open>R\<close> and \<open>flips\<close> complements it; they change the bitmap's own bytes only,
  and when the run leaves the bitmap they panic after that, with the part inside already changed. \<open>any\<close> and \<open>all\<close> test \<open>R\<close>,
  change nothing, and panic when the run leaves the bitmap and the part inside does not decide. \<open>test\<close> is membership;
  the operations on one bit panic without effect on an index beyond the end.
\<close>

theorem bitmap_refines_set:
  assumes "R = {unat idx..<unat idx + unat n} \<inter> {..<unat (bm_size bm)}" and "out \<longleftrightarrow> 0 < n \<and> unat (bm_size bm) < unat idx + unat n"
  shows "(\<exists>m'. bm_sets pr bm idx n val m = Some (if out then Panicked AssertFailed m' else Done () m') \<and> bm_frame bm m m'
        \<and> used bm m' = (if val then used bm m \<union> R else used bm m - R))
    \<and> (\<exists>m'. bm_flips pr bm idx n m = Some (if out then Panicked AssertFailed m' else Done () m') \<and> bm_frame bm m m'
        \<and> used bm m' = (used bm m - R) \<union> (R - used bm m) \<and> (R \<inter> used bm m = {} \<longrightarrow> used bm m' = used bm m \<union> R))
    \<and> bm_any pr bm idx n m = Some (if out \<and> R \<inter> used bm m = {} then Panicked AssertFailed m else Done (R \<inter> used bm m \<noteq> {}) m)
    \<and> bm_all pr bm idx n m = Some (if out \<and> R \<subseteq> used bm m then Panicked AssertFailed m else Done (R \<subseteq> used bm m) m)
    \<and> (if i < bm_size bm then bm_test pr bm i m = Some (Done (unat i \<in> used bm m) m)
       else bm_test pr bm i m = Some (Panicked AssertFailed m) \<and> bm_set pr bm i val m = Some (Panicked AssertFailed m)
         \<and> bm_flip pr bm i m = Some (Panicked AssertFailed m))"
proof -
  have R: "R = inside_run bm idx n" and out: "out \<longleftrightarrow> leaves bm idx n" using assms by (simp_all add: inside_run_def leaves_def)
  have "if i < bm_size bm then bm_test pr bm i m = Some (Done (unat i \<in> used bm m) m)
       else bm_test pr bm i m = Some (Panicked AssertFailed m) \<and> bm_set pr bm i val m = Some (Panicked AssertFailed m)
         \<and> bm_flip pr bm i m = Some (Panicked AssertFailed m)"
    by (simp add: bm_test_run used_def word_less_nat_alt bm_outside word_le_nat_alt)
  moreover have "\<exists>m'. bm_flips pr bm idx n m = Some (if out then Panicked AssertFailed m' else Done () m') \<and> bm_frame bm m m'
        \<and> used bm m' = (used bm m - R) \<union> (R - used bm m) \<and> (R \<inter> used bm m = {} \<longrightarrow> used bm m' = used bm m \<union> R)"
    using bm_flips_any_run [of pr bm idx n m] unfolding R out by blast
  ultimately show ?thesis
    using bm_sets_any_run [of pr bm idx n val m] bm_tests_any_run [OF refl, of pr bm idx n m] unfolding R out by (intro conjI)
qed

theorem bitmap_refines_set_witness:
  "\<exists>m' m''. bm_sets Debug \<lparr>data_ptr = 0xc0100000, bm_size = 16\<rparr> 3 7 True sample_machine = Some (Done () m')
    \<and> used \<lparr>data_ptr = 0xc0100000, bm_size = 16\<rparr> m' = used \<lparr>data_ptr = 0xc0100000, bm_size = 16\<rparr> sample_machine \<union> {3..<10}
    \<and> bm_sets Release \<lparr>data_ptr = 0xc0100000, bm_size = 16\<rparr> 12 7 True sample_machine = Some (Panicked AssertFailed m'')
    \<and> used \<lparr>data_ptr = 0xc0100000, bm_size = 16\<rparr> m'' = used \<lparr>data_ptr = 0xc0100000, bm_size = 16\<rparr> sample_machine \<union> {12..<16}"
proof -
  let ?bm = "\<lparr>data_ptr = 0xc0100000, bm_size = 16\<rparr>"
  have r: "{3..<10} = {unat (3 :: usize)..<unat (3 :: usize) + unat (7 :: usize)} \<inter> {..<unat (bm_size ?bm)}"
    "False \<longleftrightarrow> 0 < (7 :: usize) \<and> unat (bm_size ?bm) < unat (3 :: usize) + unat (7 :: usize)"
    "{12..<16} = {unat (12 :: usize)..<unat (12 :: usize) + unat (7 :: usize)} \<inter> {..<unat (bm_size ?bm)}"
    "True \<longleftrightarrow> 0 < (7 :: usize) \<and> unat (bm_size ?bm) < unat (12 :: usize) + unat (7 :: usize)"
    by auto
  show ?thesis
    using bitmap_refines_set [OF r(1,2), of Debug True sample_machine, THEN conjunct1]
      bitmap_refines_set [OF r(3,4), of Release True sample_machine, THEN conjunct1] by auto
qed

section \<open>The allocator's memory\<close>

abbreviation page_count :: "PageAllocator \<Rightarrow> nat" where
  "page_count pa \<equiv> unat (bm_size (bitmap pa))"

abbreviation allocated :: "PageAllocator \<Rightarrow> 'z machine_scheme \<Rightarrow> nat set" where
  "allocated pa \<equiv> used (bitmap pa)"

definition page_addr :: "PageAllocator \<Rightarrow> nat \<Rightarrow> usize" where
  "page_addr pa i = base_addr pa + of_nat (4096 * i)"

text \<open>
  A well-formed allocator: the pages start on a page boundary behind the bitmap and end within
  the address space.
\<close>

definition wf_pa :: "PageAllocator \<Rightarrow> bool" where
  "wf_pa pa \<longleftrightarrow> base_addr pa mod 4096 = 0
     \<and> unat (data_ptr (bitmap pa)) + bm_bytes (bitmap pa) \<le> unat (base_addr pa)
     \<and> unat (base_addr pa) + 4096 * page_count pa \<le> 2 ^ 32"

lemma page_addr_arith:
  assumes "wf_pa pa" "i < page_count pa"
  shows "umul pr (of_nat i) 4096 = Inr (of_nat (4096 * i) :: usize)"
    and "uadd pr (base_addr pa) (of_nat (4096 * i)) = Inr (page_addr pa i)"
    and "unat (page_addr pa i) = unat (base_addr pa) + 4096 * i"
proof -
  have i: "4096 * i + unat (base_addr pa) < 2 ^ 32" "i < 2 ^ 32" "4096 * i < 2 ^ 32"
    using assms unsigned_less [of "bm_size (bitmap pa)", where 'a = nat] by (auto simp: wf_pa_def)
  then have u: "unat (of_nat i :: usize) = i" "unat (of_nat (4096 * i) :: usize) = 4096 * i"
    by (simp_all add: unat_of_nat_bounded del: of_nat_mult)
  show "umul pr (of_nat i) 4096 = Inr (of_nat (4096 * i) :: usize)"
    using i u(1) by (simp add: umul_def mult.commute)
  show "uadd pr (base_addr pa) (of_nat (4096 * i)) = Inr (page_addr pa i)"
    using i u(2) by (simp add: uadd_def page_addr_def del: of_nat_mult)
  show "unat (page_addr pa i) = unat (base_addr pa) + 4096 * i"
    using i u(2) by (simp add: page_addr_def unat_plus_bounded del: of_nat_mult)
qed

lemma get_page_take:
  assumes "wf_pa pa" "i < page_count pa" "free_run (page_count pa) (allocated pa m) (unat cnt) i"
    "\<And>l. l < i \<Longrightarrow> \<not> free_run (page_count pa) (allocated pa m) (unat cnt) l"
  shows "\<exists>m'. get_page pr pa cnt m = Some (Done (Some (page_addr pa i)) m')
    \<and> bm_frame (bitmap pa) m m' \<and> allocated pa m' = allocated pa m \<union> {i..<i + unat cnt}"
proof -
  let ?k = "\<lambda>j. bnd (lift (umul pr j 4096)) (\<lambda>off. bnd (lift (uadd pr (base_addr pa) off)) (\<lambda>a. ret (Some a)))"
  obtain m' where "get_page pr pa cnt m = ?k (of_nat i) m'" "bm_frame (bitmap pa) m m'"
      "allocated pa m' = allocated pa m \<union> {i..<i + unat cnt}"
    using bitmap.take_first [OF assms(2-4), where q = "ret None" and k = ?k and pr = pr]
    unfolding get_page_def by blast
  moreover have "?k (of_nat i) m' = Some (Done (Some (page_addr pa i)) m')"
    by (simp add: page_addr_arith(1,2) [OF assms(1,2)] run_basic del: of_nat_mult)
  ultimately show ?thesis by auto
qed

lemma get_page_fail:
  assumes "\<And>l. l < page_count pa \<Longrightarrow> \<not> free_run (page_count pa) (allocated pa m) (unat cnt) l"
  shows "get_page pr pa cnt m =
    (if page_count pa = 0 \<or> page_count pa - 1 \<in> allocated pa m then Some (Done None m)
     else Some (Panicked AssertFailed m))"
proof (cases "page_count pa = 0")
  case True
  then show ?thesis by (simp add: get_page_def bm_find_def bnd_run run_basic)
next
  case False
  then show ?thesis
    using bitmap.find_none [of "bitmap pa" m cnt pr] assms by (auto simp: get_page_def bnd_run run_basic)
qed

text \<open>The index \<open>free_page\<close> computes from an address.\<close>

lemma free_page_index:
  assumes "wf_pa pa" "base_addr pa \<le> page"
  shows "free_page pr pa page cnt m =
    (if page mod 4096 = 0 then
       bnd (bm_all pr (bitmap pa) ((page - base_addr pa) div 4096) cnt)
         (\<lambda>ok. andthen (check ok) (bm_flips pr (bitmap pa) ((page - base_addr pa) div 4096) cnt)) m
     else Some (Panicked AssertFailed m))"
  using assms by (simp add: free_page_def usub_def check_def run_basic Let_def)

lemma page_index:
  assumes "wf_pa pa" "i < page_count pa"
  shows "base_addr pa \<le> page_addr pa i" "page_addr pa i mod 4096 = 0"
    "unat ((page_addr pa i - base_addr pa) div 4096) = i"
proof -
  note u = page_addr_arith(3) [OF assms]
  show le: "base_addr pa \<le> page_addr pa i" by (simp add: word_le_nat_alt u)
  have "unat (base_addr pa) mod 4096 = 0"
    using assms(1) by (simp add: wf_pa_def word_eq_nat_iff unat_mod)
  then show "page_addr pa i mod 4096 = 0" by (simp add: word_eq_nat_iff unat_mod u)
  show "unat ((page_addr pa i - base_addr pa) div 4096) = i"
    using le by (simp add: unat_div unat_minus_bounded u)
qed

lemma free_page_give:
  assumes "wf_pa pa" "i < page_count pa" "{i..<i + unat cnt} \<subseteq> allocated pa m" "i + unat cnt \<le> page_count pa"
  shows "\<exists>m'. free_page pr pa (page_addr pa i) cnt m = Some (Done () m')
    \<and> bm_frame (bitmap pa) m m' \<and> allocated pa m' = allocated pa m - {i..<i + unat cnt}"
  using bitmap.give_back [of "(page_addr pa i - base_addr pa) div 4096" cnt "bitmap pa" m pr] assms(3,4)
  by (simp add: free_page_index [OF assms(1) page_index(1)] page_index [OF assms(1,2)] assms(1,2))

text \<open>An address below the pages wraps around to an index past the last page.\<close>

lemma below_base_index:
  assumes "wf_pa pa" "page < base_addr pa"
  shows "page_count pa \<le> unat ((page - base_addr pa) div 4096)"
proof -
  have lt: "unat page < unat (base_addr pa)" using assms(2) by (simp add: word_less_nat_alt)
  have "unat (page - base_addr pa) = unat page + 2 ^ 32 - unat (base_addr pa)"
    using lt by (simp add: unat_sub_if' word_le_nat_alt)
  then have "4096 * page_count pa \<le> unat (page - base_addr pa)"
    using assms(1) unfolding wf_pa_def by linarith
  then show ?thesis by (simp add: unat_div)
qed

definition owned_run :: "PageAllocator \<Rightarrow> 'z machine_scheme \<Rightarrow> usize \<Rightarrow> usize \<Rightarrow> bool" where
  "owned_run pa m page cnt \<longleftrightarrow>
     (\<exists>i. page = page_addr pa i \<and> i + unat cnt \<le> page_count pa \<and> {i..<i + unat cnt} \<subseteq> allocated pa m)"

lemma aligned_page:
  assumes "wf_pa pa" "base_addr pa \<le> page" "page mod 4096 = 0"
  shows "page = page_addr pa (unat ((page - base_addr pa) div 4096))"
proof -
  have "unat page mod 4096 = 0" "unat (base_addr pa) mod 4096 = 0" "unat (base_addr pa) \<le> unat page"
    using assms by (simp_all add: wf_pa_def word_eq_nat_iff unat_mod word_le_nat_alt)
  then have "4096 * unat ((page - base_addr pa) div 4096) = unat (page - base_addr pa)"
    using assms(2) by (simp add: unat_div unat_minus_bounded mod_eq_0_iff_dvd)
  then show ?thesis by (simp add: page_addr_def del: of_nat_mult)
qed

lemma free_page_reject:
  assumes "wf_pa pa" "0 < cnt" "\<not> owned_run pa m page cnt"
  shows "free_page pr pa page cnt m =
    (if pr = Debug \<and> page mod 4096 = 0 \<and> page < base_addr pa then Some (Panicked ArithOverflow m)
     else Some (Panicked AssertFailed m))"
proof -
  let ?i = "(page - base_addr pa) div 4096"
  have cnt: "0 < unat cnt" using assms(2) by (simp add: word_less_nat_alt)
  consider "page mod 4096 \<noteq> 0" | "page mod 4096 = 0" "page < base_addr pa" | "page mod 4096 = 0" "base_addr pa \<le> page"
    by fastforce
  then show ?thesis
  proof cases
    case 1
    then show ?thesis by (simp add: free_page_def run_basic)
  next
    case 2
    have "\<not> {unat ?i..<unat ?i + unat cnt} \<subseteq> allocated pa m"
      using below_base_index [OF assms(1) 2(2)] cnt bitmap.pages_bound [of "bitmap pa" m] by fastforce
    then show ?thesis
      using 2 bitmap.give_back_rejected [OF cnt, of ?i "bitmap pa" m pr]
      by (cases pr) (simp_all add: free_page_def usub_def overflow_def run_basic Let_def leD)
  next
    case 3
    have "\<not> {unat ?i..<unat ?i + unat cnt} \<subseteq> allocated pa m"
    proof
      assume sub: "{unat ?i..<unat ?i + unat cnt} \<subseteq> allocated pa m"
      have "unat ?i + unat cnt - 1 \<in> {unat ?i..<unat ?i + unat cnt}" using cnt by simp
      then have "unat ?i + unat cnt - 1 \<in> {..<page_count pa}"
        using sub bitmap.pages_bound [of "bitmap pa" m] by blast
      then have "owned_run pa m page cnt"
        unfolding owned_run_def using sub cnt aligned_page [OF assms(1) 3(2,1)] by fastforce
      then show False using assms(3) by simp
    qed
    then show ?thesis
      using 3 bitmap.give_back_rejected [OF cnt, of ?i "bitmap pa" m pr]
      by (auto simp: free_page_index [OF assms(1) 3(2)] leD)
  qed
qed

end
