(* ===== verification/RondLoader.thy ===== *)
theory RondLoader
  imports RondPage
begin

text \<open>
  The boot loader, \<open>src/loader.s\<close>: it reads its own image from the disk, asks the firmware for the
  memory map, builds the page tables, enters protected mode with paging and jumps to the kernel.
  Each labelled block of the source is a function on the registers and the physical memory; the
  firmware calls (\<open>int 0x13\<close>, \<open>int 0x15\<close>) are parameters. Return addresses on the stack are left
  out: it grows down from 0xf000, where nothing else is read or written. The variables of the disk
  loop lie in the first sector at 0x7c00, below every other write, and are fields of the state.
\<close>

section \<open>Constants\<close>

definition CR0_PE :: u32 where "CR0_PE = 0x00000001"
definition CR0_PG :: u32 where "CR0_PG = 0x80000000"
definition CR0_WP :: u32 where "CR0_WP = 0x00010000"

definition PG_TABLE :: u32 where "PG_TABLE = 0x00000001"
definition PG_RW :: u32 where "PG_RW = 0x00000002"
definition PG_US :: u32 where "PG_US = 0x00000004"
definition PG_PAGE :: u32 where "PG_PAGE = 0x00000001"

definition LOADER_LOAD_ADDR :: u32 where "LOADER_LOAD_ADDR = 0x20000"
definition PAGING_TABLE_ADDR :: u32 where "PAGING_TABLE_ADDR = 0xf000"
definition PAGING_PAGE_ADDR :: u32 where "PAGING_PAGE_ADDR = 0x10000"
definition KERNEL_BASE :: u32 where "KERNEL_BASE = 0xc0000000"

text \<open>
  The layout of the assembled image: 4 KiB of loader, \<open>kernel.bin\<close> (of \<open>k\<close> bytes), a mark. The first
  sector is padded to 512 bytes, so that the three variables behind it have fixed offsets.
\<close>

definition LOADER_END :: "nat \<Rightarrow> nat" where "LOADER_END k = 0x1000 + k"
definition END_CHECK_ADDR :: "nat \<Rightarrow> nat" where "END_CHECK_ADDR k = LOADER_END k"
definition END_CHECK :: u32 where "END_CHECK = 0x2233aabb"
definition LOADER_DISK_BLOCK_COUNT :: "nat \<Rightarrow> nat" where "LOADER_DISK_BLOCK_COUNT k = (LOADER_END k + 511) div 512"
definition LOADER_DISK_TIME :: "nat \<Rightarrow> nat" where "LOADER_DISK_TIME k = (LOADER_DISK_BLOCK_COUNT k + 127) div 128"

definition kernel_size :: u16 where "kernel_size = 0x200"
definition memlayoutlen :: u16 where "memlayoutlen = 0x204"
definition memlayoutbuf :: u16 where "memlayoutbuf = 0x208"

text \<open>
  The messages as they are assembled. \<open>str_jump_in\<close> is declared with \<open>dd\<close>, so its text is padded to
  double words and every number takes four bytes.
\<close>

definition str_boot_start :: "u8 list" where "str_boot_start = bytes_of ''Booting'' @ [0x0d, 0x0a, 0]"
definition str_load_fail :: "u8 list" where "str_load_fail = bytes_of ''Load Fail'' @ [0x0d, 0x0a, 0]"
definition str_jump_in :: "u8 list" where
  "str_jump_in = bytes_of ''Jump In'' @ [0] @ bytes_of_word 4 (0x0d :: u32) @ bytes_of_word 4 (0x0a :: u32) @ bytes_of_word 4 (0 :: u32)"

text \<open>The global descriptor table.\<close>

definition gdt :: "u64 list" where
  "gdt = [0x0000000000000000, 0x00cf9a000000ffff, 0x00cf92000000ffff]"

definition SELECTOR_CODE_SEG :: u16 where "SELECTOR_CODE_SEG = 8"
definition SELECTOR_DATA_SEG :: u16 where "SELECTOR_DATA_SEG = 16"

section \<open>State\<close>

text \<open>
  The firmware: an extended read returns the bytes of so many blocks from a block number on, or
  fails; a memory map query takes the continuation value and returns a 20-byte entry with the next
  continuation value (0 after the last one), or fails.
\<close>

record firmware =
  int13_read :: "u32 \<Rightarrow> u16 \<Rightarrow> u8 list option"
  int15_e820 :: "u32 \<Rightarrow> (u8 list \<times> u32) option"

record loader =
  mem :: "u32 \<Rightarrow> u8"
  tty :: "u8 list"
  port92 :: u8
  eax :: u32
  ebx :: u32
  cx :: u16
  di :: u16
  es :: u16
  stack_top :: u32
  load_disk_cnt :: u16
  blkcnt :: u16
  db_addr_addr :: u16
  db_addr_seg :: u16
  d_lba :: u32
  cr0_val :: u32
  cr3_val :: u32
  cr4_val :: u32
  gdt_limit :: u16
  gdt_base :: u32

definition linear :: "u16 \<Rightarrow> u16 \<Rightarrow> u32" where
  "linear sg off = 16 * ucast sg + ucast off"

definition store_u32 :: "(u32 \<Rightarrow> u8) \<Rightarrow> u32 \<Rightarrow> u32 \<Rightarrow> u32 \<Rightarrow> u8" where
  "store_u32 m a w = store_bytes m a (bytes_of_word 4 w)"

text \<open>The instructions with a count in \<open>cx\<close>.\<close>

definition stosd :: "loader \<Rightarrow> loader" where
  "stosd s = s\<lparr>mem := store_u32 (mem s) (linear (es s) (di s)) (eax s), di := di s + 4\<rparr>"

definition rep_stosd :: "loader \<Rightarrow> loader" where
  "rep_stosd s = ((stosd ^^ unat (cx s)) s)\<lparr>cx := 0\<rparr>"

definition loop_cx :: "(loader \<Rightarrow> loader) \<Rightarrow> loader \<Rightarrow> loader" where
  "loop_cx body s = ((body ^^ (if cx s = 0 then 2 ^ 16 else unat (cx s))) s)\<lparr>cx := 0\<rparr>"

section \<open>From the first sector to the rest of the image\<close>

definition bios_putc :: "u8 \<Rightarrow> loader \<Rightarrow> loader" where
  "bios_putc c s = s\<lparr>tty := tty s @ [c]\<rparr>"

text \<open>\<open>puts\<close> stops at the first zero byte of what \<open>si\<close> points to.\<close>

fun puts :: "u8 list \<Rightarrow> loader \<Rightarrow> loader" where
  "puts [] s = s"
| "puts (al # bs) s = (if al = 0 then s else puts bs (bios_putc al s))"

definition boot_start :: "loader \<Rightarrow> loader" where
  "boot_start s = puts str_boot_start (s\<lparr>es := 0x07c0, stack_top := 0xf000\<rparr>)"

definition a20gate :: "loader \<Rightarrow> loader" where
  "a20gate s = s\<lparr>port92 := port92 s OR 2\<rparr>"

text \<open>The initial values of the variables of the disk loop.\<close>

definition dapack :: "nat \<Rightarrow> loader \<Rightarrow> loader" where
  "dapack k s = s\<lparr>load_disk_cnt := of_nat (LOADER_DISK_TIME k), blkcnt := 127, db_addr_addr := 0, db_addr_seg := 0x2000, d_lba := 0\<rparr>"

text \<open>The disk loop: \<open>Inl\<close> is the jump to \<open>check_fail\<close>, \<open>Inr\<close> the one to \<open>check_read\<close>.\<close>

function bios_read :: "firmware \<Rightarrow> loader \<Rightarrow> loader + loader" where
  "bios_read fw s = (case int13_read fw (d_lba s) (blkcnt s) of
     None \<Rightarrow> Inl s
   | Some bytes \<Rightarrow>
       (let s1 = s\<lparr>mem := store_bytes (mem s) (linear (db_addr_seg s) (db_addr_addr s)) bytes,
                   load_disk_cnt := load_disk_cnt s - 1\<rparr> in
        if load_disk_cnt s1 = 0 then Inr s1
        else bios_read fw (s1\<lparr>db_addr_seg := db_addr_seg s1 + 0x1000, d_lba := d_lba s1 + 128\<rparr>)))"
  by pat_completeness auto

lemma count_down: "(w :: u16) \<noteq> 1 \<Longrightarrow> unat (w - 2) < unat (w - 1)"
  using unat_minus_one [of "w - 1"] unat_gt_0 [of "w - 1"] by (simp add: diff_diff_eq)

termination bios_read
  by (relation "measure (\<lambda>(fw, s). unat (load_disk_cnt s - 1))") (auto dest: count_down)

declare bios_read.simps [simp del]

definition check_read :: "nat \<Rightarrow> (bool, loader) comp" where
  "check_read k s =
     (let sg = of_nat (END_CHECK_ADDR k mod 2 ^ 20 div 2 ^ 16 * 2 ^ 12 + 0x2000);
          si = of_nat (END_CHECK_ADDR k mod 2 ^ 16) in
      if read_u32 (mem s) (linear 0x2000 0x1000) AND 0xffffff00 \<noteq> 0x464c4500 then Some (Done False s)
      else if si \<le> 0xfffc then Some (Done (read_u32 (mem s) (linear sg si) = END_CHECK) s)
      else Some Undefined)"

text \<open>
  \<open>fail_loop\<close> never returns, so its value does not show the state it is entered in. The blocks that
  jump there take what stands at that label as an argument \<open>stop\<close>; the loader passes \<open>fail_loop\<close>.
\<close>

definition fail_loop :: "(unit, loader) comp" where
  "fail_loop = forever"

definition check_fail :: "(unit, loader) comp \<Rightarrow> (unit, loader) comp" where
  "check_fail stop = andthen (modify (puts str_load_fail)) stop"

definition load_image :: "(unit, loader) comp \<Rightarrow> firmware \<Rightarrow> nat \<Rightarrow> (unit, loader) comp" where
  "load_image stop fw k s = (case bios_read fw s of
     Inl s' \<Rightarrow> check_fail stop s'
   | Inr s' \<Rightarrow> bnd (check_read k) (\<lambda>ok. if ok then ret () else check_fail stop) s')"

section \<open>The memory map\<close>

definition jump_in :: "loader \<Rightarrow> loader" where
  "jump_in s = puts str_jump_in (s\<lparr>es := 0x2000\<rparr>)"

text \<open>The data segment is 0x2000 by now.\<close>

definition detect_start :: "loader \<Rightarrow> loader" where
  "detect_start s = s\<lparr>ebx := 0, mem := store_u32 (mem s) (linear 0x2000 memlayoutlen) 0, di := memlayoutbuf\<rparr>"

definition detectmemfail :: "loader \<Rightarrow> loader" where
  "detectmemfail s = s\<lparr>mem := store_u32 (mem s) (linear 0x2000 memlayoutlen) 0xdead\<rparr>"

text \<open>A firmware that never ends its map keeps the loop running; \<open>None\<close> is not returning.\<close>

partial_function (option) detectmem :: "firmware \<Rightarrow> loader \<Rightarrow> loader option" where
  "detectmem fw s = (case int15_e820 fw (ebx s) of
     None \<Rightarrow> Some (detectmemfail s)
   | Some (entry, next) \<Rightarrow>
       (let m = store_bytes (mem s) (linear (es s) (di s)) entry;
            s1 = s\<lparr>ebx := next,
                   mem := store_u32 m (linear 0x2000 memlayoutlen) (read_u32 m (linear 0x2000 memlayoutlen) + 1),
                   di := di s + 20\<rparr> in
        if ebx s1 = 0 then Some s1 else detectmem fw s1))"

section \<open>Page tables\<close>

definition pde_mem_clear :: "loader \<Rightarrow> loader" where
  "pde_mem_clear s = rep_stosd (s\<lparr>es := ucast (drop_bit 4 PAGING_TABLE_ADDR), eax := 0, di := 0, cx := 0x400\<rparr>)"

definition write_pde :: "loader \<Rightarrow> loader" where
  "write_pde s =
     (let m = store_u32 (mem s) (linear (es s) (di s)) (eax s) in
      s\<lparr>mem := store_u32 m (linear (es s) (di s + ucast (drop_bit 20 KERNEL_BASE))) (eax s),
        di := di s + 4, eax := eax s + 0x1000\<rparr>)"

definition build_pde :: "loader \<Rightarrow> loader" where
  "build_pde s = loop_cx write_pde (s\<lparr>eax := PAGING_PAGE_ADDR OR PG_TABLE OR PG_RW OR PG_US, cx := 0x40, di := 0\<rparr>)"

definition write_pte :: "loader \<Rightarrow> loader" where
  "write_pte s = s\<lparr>mem := store_u32 (mem s) (linear (es s) (di s)) (eax s), di := di s + 4, eax := eax s + 0x1000\<rparr>"

definition build_pte :: "loader \<Rightarrow> loader" where
  "build_pte s = loop_cx write_pte
     (s\<lparr>es := ucast (drop_bit 4 PAGING_PAGE_ADDR), eax := PG_PAGE OR PG_RW OR PG_US, cx := 0x4000, di := 0\<rparr>)"

text \<open>
  The label \<open>gdt\<close> is an offset in the image, given by the assembler. The jump that follows the write
  to \<open>cr0\<close> loads the code segment.
\<close>

definition set_pde :: "u32 \<Rightarrow> loader \<Rightarrow> loader" where
  "set_pde gdt_label s = s\<lparr>cr3_val := PAGING_TABLE_ADDR,
     gdt_limit := of_nat (8 * length gdt) - 1, gdt_base := gdt_label + LOADER_LOAD_ADDR,
     cr0_val := cr0_val s OR CR0_PE OR CR0_PG OR CR0_WP\<rparr>"

section \<open>Protected mode\<close>

text \<open>
  The processor's side: an address is looked up in the directory \<open>dir\<close> and in the page table
  found there; an entry without the present bit is a page fault.
\<close>

definition translate :: "(u32 \<Rightarrow> u8) \<Rightarrow> u32 \<Rightarrow> u32 \<Rightarrow> u32 option" where
  "translate m dir va =
     (let pde = read_u32 m ((dir AND 0xfffff000) + 4 * drop_bit 22 va) in
      if \<not> bit pde 0 then None
      else let pte = read_u32 m ((pde AND 0xfffff000) + 4 * (drop_bit 12 va AND 0x3ff)) in
      if \<not> bit pte 0 then None else Some ((pte AND 0xfffff000) + (va AND 0xfff)))"

text \<open>Accesses at this point go through the tables; there is no handler for a page fault yet.\<close>

definition access :: "u32 \<Rightarrow> (u32, loader) comp" where
  "access va s = (case translate (mem s) (cr3_val s) va of None \<Rightarrow> Some Undefined | Some pa \<Rightarrow> Some (Done pa s))"

definition protect_entry :: "nat \<Rightarrow> (unit, loader) comp" where
  "protect_entry k =
     andthen (modify (\<lambda>s. s\<lparr>stack_top := stack_top s + KERNEL_BASE\<rparr>))
    (bnd (access (KERNEL_BASE + LOADER_LOAD_ADDR + ucast kernel_size)) (\<lambda>a.
     modify (\<lambda>s. s\<lparr>mem := store_u32 (mem s) a (of_nat (LOADER_END k))\<rparr>)))"

text \<open>\<open>enable_sse\<close> ends in the jump to the entry point of the ELF header; its target is the result.\<close>

definition enable_sse :: "(u32, loader) comp" where
  "enable_sse =
     andthen (modify (\<lambda>s. s\<lparr>cr0_val := (cr0_val s AND 0xFFFFFFFB) OR 2, cr4_val := cr4_val s OR 0x600\<rparr>))
    (bnd (access (KERNEL_BASE + 0x21018)) (\<lambda>a. gets (\<lambda>s. read_u32 (mem s) a)))"

definition run_loader :: "firmware \<Rightarrow> nat \<Rightarrow> u32 \<Rightarrow> (u32, loader) comp" where
  "run_loader fw k gdt_label =
     andthen (modify (\<lambda>s. a20gate (boot_start (dapack k s))))
    (andthen (load_image fail_loop fw k)
    (andthen (modify (\<lambda>s. detect_start (jump_in s)))
    (andthen (\<lambda>s. map_option (Done ()) (detectmem fw s))
    (andthen (modify (\<lambda>s. set_pde gdt_label (build_pte (build_pde (pde_mem_clear s)))))
    (andthen (protect_entry k)
     enable_sse)))))"

end
