(* ===== verification/RondTables.thy ===== *)
theory RondTables
  imports RondLoader
begin

text \<open>
  The page tables the loader builds, and what they make of addresses: the loops that write them fill
  memory with words; the translation of every address follows from the entries.
\<close>

section \<open>Filling memory with words\<close>

definition fill :: "(u32 \<Rightarrow> u8) \<Rightarrow> u32 \<Rightarrow> (nat \<Rightarrow> u32) \<Rightarrow> nat \<Rightarrow> u32 \<Rightarrow> u8" where
  "fill m b f n x =
     (if unat (x - b) < 4 * n then bytes_of_word 4 (f (unat (x - b) div 4)) ! (unat (x - b) mod 4) else m x)"

lemma fill_0 [simp]: "fill m b f 0 = m"
  by (simp add: fill_def fun_eq_iff)

lemma fill_Suc:
  assumes "4 * Suc n \<le> 2 ^ 32"
  shows "store_u32 (fill m b f n) (b + 4 * of_nat n) (f n) = fill m b f (Suc n)"
proof
  fix x
  let ?d = "unat (x - b)"
  have n: "unat (4 * of_nat n :: u32) = 4 * n"
    using assms unat_of_nat_bounded [where 'w = 32, of "4 * n"] by simp
  have "unat (x - (b + 4 * of_nat n)) = unat ((x - b) - 4 * of_nat n)" by (simp add: diff_diff_eq)
  then have d: "unat (x - (b + 4 * of_nat n)) = (if 4 * n \<le> ?d then ?d - 4 * n else ?d + 2 ^ 32 - 4 * n)"
    using unat_sub_if' [of "x - b" "4 * of_nat n"] n by (simp add: word_le_nat_alt)
  consider "?d < 4 * n" | k where "?d = 4 * n + k" "k < 4" | "4 * n + 4 \<le> ?d"
    by (metis add_less_cancel_left le_Suc_ex not_less)
  then show "store_u32 (fill m b f n) (b + 4 * of_nat n) (f n) x = fill m b f (Suc n) x"
    using d assms by cases (auto simp: store_u32_def store_bytes_def fill_def)
qed

lemma slice_fill:
  assumes "i < n" "4 * n \<le> 2 ^ 32"
  shows "ram_slice (fill m b f n) (b + 4 * of_nat i) 4 = bytes_of_word 4 (f i)"
proof (rule nth_equalityI)
  fix j assume "j < length (ram_slice (fill m b f n) (b + 4 * of_nat i) 4)"
  then have j: "j < 4" by simp
  have "unat (4 * of_nat i + of_nat j :: u32) = 4 * i + j"
    using assms j unat_of_nat_bounded [where 'w = 32, of "4 * i + j"] by simp
  moreover have "4 * i + j < 4 * n" using assms(1) j by linarith
  ultimately show "ram_slice (fill m b f n) (b + 4 * of_nat i) 4 ! j = bytes_of_word 4 (f i) ! j"
    using j by (simp add: ram_slice_def fill_def algebra_simps)
qed simp

lemma read_fill: "i < n \<Longrightarrow> 4 * n \<le> 2 ^ 32 \<Longrightarrow> read_u32 (fill m b f n) (b + 4 * of_nat i) = f i"
  by (simp add: read_u32_def slice_fill word_of_bytes_of_word)

text \<open>Four bytes that lie outside a region.\<close>

definition apart :: "u32 \<Rightarrow> u32 \<Rightarrow> nat \<Rightarrow> bool" where
  "apart a b n \<longleftrightarrow> (\<forall>j < 4. n \<le> unat (a + of_nat j - b))"

lemma read_fill_apart: "apart a b (4 * n) \<Longrightarrow> read_u32 (fill m b f n) a = read_u32 m a"
  by (auto simp: apart_def read_u32_def ram_slice_def fill_def intro!: arg_cong [of _ _ word_of_bytes] map_cong)

lemma store_fill_apart:
  assumes "apart a b (4 * n)"
  shows "store_u32 (fill m b f n) a w = fill (store_u32 m a w) b f n"
proof
  fix x
  have "4 * n \<le> unat (x - b)" if "unat (x - a) < 4"
  proof -
    have "x = a + of_nat (unat (x - a))" by simp
    then show ?thesis using assms that unfolding apart_def by metis
  qed
  then show "store_u32 (fill m b f n) a w x = fill (store_u32 m a w) b f n x"
    by (auto simp: store_u32_def store_bytes_def fill_def)
qed

lemma apartI:
  assumes "unat a + 4 \<le> unat b \<or> unat b + n \<le> unat a" "unat a + 4 \<le> 2 ^ 32" "unat b + n \<le> 2 ^ 32"
  shows "apart a b n"
  unfolding apart_def
proof (intro allI impI)
  fix j :: nat assume j: "j < 4"
  then have "unat (a + of_nat j) = unat a + j"
    using assms(2) unat_of_nat_bounded [where 'w = 32, of j] by (simp add: unat_plus_bounded)
  then show "n \<le> unat (a + of_nat j - b)"
    using assms j unsigned_less [of b] by (auto simp: unat_sub_if' word_le_nat_alt)
qed

section \<open>The loops\<close>

lemma linear_word:
  assumes "i < 0x4000"
  shows "linear sg (4 * of_nat i) = 16 * ucast sg + 4 * of_nat i"
proof -
  have "unat (4 * of_nat i :: u16) = 4 * i" "unat (4 * of_nat i :: u32) = 4 * i"
    using assms unat_of_nat_bounded [where 'w = 16, of "4 * i"] unat_of_nat_bounded [where 'w = 32, of "4 * i"] by simp_all
  then have "(ucast (4 * of_nat i :: u16) :: u32) = 4 * of_nat i" using assms by (simp add: word_eq_nat_iff unat_ucast_mod)
  then show ?thesis by (simp add: linear_def)
qed

text \<open>A loop that writes one word per round.\<close>

lemma stosd_rounds:
  assumes "di s = 0" "n \<le> 0x4000"
  shows "(stosd ^^ n) s = s\<lparr>mem := fill (mem s) (16 * ucast (es s)) (\<lambda>_. eax s) n, di := 4 * of_nat n\<rparr>"
  using assms(2)
proof (induction n)
  case (Suc n)
  then show ?case
    using fill_Suc [of n "mem s" "16 * ucast (es s)" "\<lambda>_. eax s"] linear_word [of n "es s"]
    by (simp add: stosd_def)
qed (use assms in simp)

lemma write_pte_rounds:
  assumes "di s = 0" "n \<le> 0x4000"
  shows "(write_pte ^^ n) s = s\<lparr>mem := fill (mem s) (16 * ucast (es s)) (\<lambda>i. eax s + 0x1000 * of_nat i) n,
    di := 4 * of_nat n, eax := eax s + 0x1000 * of_nat n\<rparr>"
  using assms(2)
proof (induction n)
  case (Suc n)
  then show ?case
    using fill_Suc [of n "mem s" "16 * ucast (es s)" "\<lambda>i. eax s + 0x1000 * of_nat i"] linear_word [of n "es s"]
    by (simp add: write_pte_def algebra_simps)
qed (use assms in simp)

text \<open>The directory loop writes every entry twice, 0xc00 bytes apart.\<close>

lemma kernel_dir: "(ucast (drop_bit 20 KERNEL_BASE) :: u16) = 0xc00"
  by code_simp

lemma write_pde_rounds:
  assumes "di s = 0" "es s = 0xf00" "n \<le> 0x300"
  shows "(write_pde ^^ n) s = s\<lparr>mem := fill (fill (mem s) 0xf000 (\<lambda>i. eax s + 0x1000 * of_nat i) n) 0xfc00 (\<lambda>i. eax s + 0x1000 * of_nat i) n,
    di := 4 * of_nat n, eax := eax s + 0x1000 * of_nat n\<rparr>"
  using assms(3)
proof (induction n)
  case (Suc n)
  let ?f = "\<lambda>i. eax s + 0x1000 * of_nat i"
  have n: "unat (4 * of_nat n :: u32) = 4 * n"
    using Suc.prems unat_of_nat_bounded [where 'w = 32, of "4 * n"] by simp
  then have a: "unat (0xf000 + 4 * of_nat n :: u32) = 0xf000 + 4 * n" using Suc.prems by (simp add: unat_plus_bounded)
  have "4 * of_nat n + 0xc00 = (4 * of_nat (n + 0x300) :: u16)" "4 * of_nat (n + 0x300) = (0xc00 + 4 * of_nat n :: u32)" by simp_all
  then have lin: "linear 0xf00 (4 * of_nat n) = 0xf000 + 4 * of_nat n" "linear 0xf00 (4 * of_nat n + 0xc00) = 0xfc00 + 4 * of_nat n"
    using linear_word [of n "0xf00"] linear_word [of "n + 0x300" "0xf00"] Suc.prems by simp_all
  have "apart (0xf000 + 4 * of_nat n) 0xfc00 (4 * n)"
    using a Suc.prems by (intro apartI) auto
  then have "store_u32 (fill (fill (mem s) 0xf000 ?f n) 0xfc00 ?f n) (0xf000 + 4 * of_nat n) (?f n)
      = fill (fill (mem s) 0xf000 ?f (Suc n)) 0xfc00 ?f n"
    using Suc.prems fill_Suc [of n "mem s" "0xf000" ?f] by (simp add: store_fill_apart)
  then have "write_pde (s\<lparr>mem := fill (fill (mem s) 0xf000 ?f n) 0xfc00 ?f n, di := 4 * of_nat n, eax := ?f n\<rparr>)
      = s\<lparr>mem := fill (fill (mem s) 0xf000 ?f (Suc n)) 0xfc00 ?f (Suc n), di := 4 * of_nat (Suc n), eax := ?f (Suc n)\<rparr>"
    using Suc.prems fill_Suc [of n "fill (mem s) 0xf000 ?f (Suc n)" "0xfc00" ?f] lin
    by (simp add: write_pde_def assms kernel_dir algebra_simps)
  then show ?case using Suc by simp
qed (use assms in simp)

section \<open>The tables\<close>

definition dir_word :: "nat \<Rightarrow> u32" where "dir_word i = 0x10007 + 0x1000 * of_nat i"
definition page_word :: "nat \<Rightarrow> u32" where "page_word i = 7 + 0x1000 * of_nat i"

text \<open>The entries in memory: 64 of the directory at either end of the address space, 16 tables of pages.\<close>

definition dir_entry :: "nat \<Rightarrow> u32" where
  "dir_entry d = (if d < 64 then dir_word d else if 768 \<le> d \<and> d < 832 then dir_word (d - 768) else 0)"

definition tables_in :: "(u32 \<Rightarrow> u8) \<Rightarrow> bool" where
  "tables_in m \<longleftrightarrow> (\<forall>d < 1024. read_u32 m (0xf000 + 4 * of_nat d) = dir_entry d)
     \<and> (\<forall>i < 0x4000. read_u32 m (0x10000 + 4 * of_nat i) = page_word i)"

definition table_memory :: "(u32 \<Rightarrow> u8) \<Rightarrow> u32 \<Rightarrow> u8" where
  "table_memory m = fill (fill (fill (fill m 0xf000 (\<lambda>_. 0) 1024) 0xf000 dir_word 64) 0xfc00 dir_word 64) 0x10000 page_word 0x4000"

lemma build_tables_mem:
  "mem (build_pte (build_pde (pde_mem_clear s))) = table_memory (mem s)"
  unfolding build_pte_def build_pde_def pde_mem_clear_def loop_cx_def rep_stosd_def table_memory_def dir_word_def page_word_def
  by (simp add: stosd_rounds write_pde_rounds write_pte_rounds PAGING_PAGE_ADDR_def PAGING_TABLE_ADDR_def PG_TABLE_def PG_RW_def PG_US_def PG_PAGE_def)

lemma build_tables_frame:
  "cr0_val (build_pte (build_pde (pde_mem_clear s))) = cr0_val s" "cr4_val (build_pte (build_pde (pde_mem_clear s))) = cr4_val s"
  "stack_top (build_pte (build_pde (pde_mem_clear s))) = stack_top s" "tty (build_pte (build_pde (pde_mem_clear s))) = tty s"
  unfolding build_pte_def build_pde_def pde_mem_clear_def loop_cx_def rep_stosd_def
  by (simp_all add: stosd_rounds write_pde_rounds write_pte_rounds PAGING_PAGE_ADDR_def PAGING_TABLE_ADDR_def)

lemma entry_addr:
  assumes "unat b + 4 * i < 2 ^ 32"
  shows "unat (b + 4 * of_nat i :: u32) = unat b + 4 * i"
  using assms unat_of_nat_bounded [where 'w = 32, of "4 * i"] by (simp add: unat_plus_bounded)

lemma directory_read:
  assumes d: "d < 1024"
  shows "read_u32 (fill (fill (fill m 0xf000 (\<lambda>_. 0) 1024) 0xf000 dir_word 64) 0xfc00 dir_word 64) (0xf000 + 4 * of_nat d) = dir_entry d"
    (is "read_u32 (fill ?low 0xfc00 _ _) ?a = _")
proof -
  have a: "unat ?a = 0xf000 + 4 * d" using entry_addr [of "0xf000" d] d by simp
  consider (high) "768 \<le> d" "d < 832" | (low) "d < 64" | (none) "64 \<le> d" "\<not> (768 \<le> d \<and> d < 832)" by linarith
  then show ?thesis
  proof cases
    case high
    then have "?a = 0xfc00 + 4 * of_nat (d - 768)" "d - 768 < 64" by (simp_all add: of_nat_diff)
    then show ?thesis using high read_fill [of "d - 768" 64 _ "0xfc00" dir_word] by (simp add: dir_entry_def)
  next
    case low
    then have "apart ?a 0xfc00 (4 * 64)" using a by (intro apartI) auto
    then show ?thesis using low read_fill [of d 64 _ "0xf000" dir_word] by (simp add: dir_entry_def read_fill_apart)
  next
    case none
    then have "apart ?a 0xfc00 (4 * 64)" "apart ?a 0xf000 (4 * 64)" using a d by (intro apartI; auto)+
    then show ?thesis using none d read_fill [of d 1024 m "0xf000" "\<lambda>_. 0"] by (auto simp: dir_entry_def read_fill_apart)
  qed
qed

lemma table_memory_tables: "tables_in (table_memory m)"
proof -
  have "read_u32 (table_memory m) (0xf000 + 4 * of_nat d) = dir_entry d" if d: "d < 1024" for d
  proof -
    have "apart (0xf000 + 4 * of_nat d) 0x10000 (4 * 0x4000)" using entry_addr [of "0xf000" d] d by (intro apartI) simp_all
    then show ?thesis unfolding table_memory_def using directory_read [OF d] by (simp only: read_fill_apart)
  qed
  moreover have "read_u32 (table_memory m) (0x10000 + 4 * of_nat i) = page_word i" if "i < 0x4000" for i
    unfolding table_memory_def using read_fill [of i "0x4000" _ "0x10000" page_word] that by simp
  ultimately show ?thesis by (simp add: tables_in_def)
qed

lemma table_memory_outside: "unat a < 0xf000 \<or> 0x20000 \<le> unat a \<Longrightarrow> table_memory m a = m a"
  by (auto simp: table_memory_def fill_def unat_sub_if' word_le_nat_alt split: if_splits)

text \<open>The entries depend on nothing outside.\<close>

lemma read_u32_same:
  assumes "unat a + 4 \<le> 2 ^ 32" "\<And>x. unat a \<le> unat x \<Longrightarrow> unat x < unat a + 4 \<Longrightarrow> m' x = m x"
  shows "read_u32 m' a = read_u32 m a"
proof -
  have "m' (a + of_nat j) = m (a + of_nat j)" if "j < 4" for j :: nat
  proof -
    have "unat (a + of_nat j) = unat a + j"
      using that assms(1) unat_of_nat_bounded [where 'w = 32, of j] by (simp add: unat_plus_bounded)
    then show ?thesis using that by (intro assms(2)) simp_all
  qed
  then show ?thesis by (auto simp: read_u32_def ram_slice_def intro!: arg_cong [of _ _ word_of_bytes] map_cong)
qed

lemma tables_in_frame:
  assumes "tables_in m" "\<And>a. 0xf000 \<le> unat a \<Longrightarrow> unat a < 0x20000 \<Longrightarrow> m' a = m a"
  shows "tables_in m'"
proof -
  have "read_u32 m' a = read_u32 m a" if "0xf000 \<le> unat a" "unat a + 4 \<le> 0x20000" for a
    by (rule read_u32_same) (use that assms(2) in simp_all)
  then show ?thesis
    using assms(1) entry_addr [of "0xf000"] entry_addr [of "0x10000"] by (simp add: tables_in_def)
qed

section \<open>Translation\<close>

lemma frame_mask: "(w :: u32) AND 0xfffff000 = pg_round_down w"
proof -
  have "(0xfffff000 :: u32) = NOT (push_bit 12 1 - 1)" by code_simp
  then show ?thesis by (simp only: pg_round_down_def)
qed

lemma frame_of_nat:
  assumes "k < 2 ^ 20" "f < 4096"
  shows "pg_round_down (of_nat (4096 * k + f)) = of_nat (4096 * k)"
proof -
  have "unat (of_nat (4096 * k + f) :: u32) = 4096 * k + f" "unat (of_nat (4096 * k) :: u32) = 4096 * k"
    using assms unat_of_nat_bounded [where 'w = 32, of "4096 * k + f"] unat_of_nat_bounded [where 'w = 32, of "4096 * k"] by simp_all
  then show ?thesis
    using pg_round_down_page [of "of_nat (4096 * k + f)"] assms by (simp only: word_eq_nat_iff) simp
qed

lemma entry_words:
  "dir_word i = of_nat (4096 * (16 + i) + 7)" "page_word i = of_nat (4096 * i + 7)"
  by (simp_all add: dir_word_def page_word_def)

lemma entry_bit: "bit (of_nat (4096 * k + 7) :: u32) 0"
  by (simp add: bit_0)

lemma index_words:
  "drop_bit 22 va = (of_nat (unat va div 2 ^ 22) :: u32)" "drop_bit 12 va AND 0x3ff = (of_nat (unat va div 2 ^ 12 mod 1024) :: u32)"
  "va AND 0xfff = (of_nat (unat va mod 2 ^ 12) :: u32)" for va :: u32
proof -
  have m: "(0x3ff :: u32) = mask 10" "(0xfff :: u32) = mask 12" by (simp_all add: mask_eq_exp_minus_1)
  have d: "unat (drop_bit n va) = unat va div 2 ^ n" for n by (rule trans [OF unat_drop_bit_eq drop_bit_eq_div])
  have t: "unat (w AND mask n) = unat w mod 2 ^ n" for w :: u32 and n
    unfolding take_bit_eq_mask [symmetric] by (rule trans [OF unsigned_take_bit_eq take_bit_eq_mod])
  have w: "w = of_nat (unat w)" for w :: u32 by simp
  show "drop_bit 22 va = of_nat (unat va div 2 ^ 22)" using w [of "drop_bit 22 va"] d by metis
  show "drop_bit 12 va AND 0x3ff = (of_nat (unat va div 2 ^ 12 mod 1024) :: u32)"
    using w [of "drop_bit 12 va AND 0x3ff"] unfolding m t d by simp
  show "va AND 0xfff = (of_nat (unat va mod 2 ^ 12) :: u32)" using w [of "va AND 0xfff"] unfolding m t by simp
qed

text \<open>
  The first 256 MiB of physical memory as seen from either end of the address space: the directory
  leads to the word that would be the entry of the page in one long table from 0x10000 on.
\<close>

definition page_lookup :: "(u32 \<Rightarrow> u8) \<Rightarrow> nat \<Rightarrow> u32 option" where
  "page_lookup m off =
     (let pte = read_u32 m (0x10000 + 4 * of_nat (off div 4096)) in
      if bit pte 0 then Some (pg_round_down pte + of_nat (off mod 4096)) else None)"

lemma translate_dir:
  assumes "tables_in m" "unat va div 2 ^ 22 = d" "dir_entry d = dir_word i" "i < 64"
  shows "translate m 0xf000 va = page_lookup m (2 ^ 22 * i + unat va mod 2 ^ 22)"
proof -
  let ?t = "unat va div 2 ^ 12 mod 1024"
  have "unat va < 2 ^ 32" using unsigned_less [of va, where 'a = nat] by simp
  then have "d < 1024" using assms(2) by (simp add: div_less_iff_less_mult)
  then have pde: "read_u32 m (0xf000 + 4 * of_nat d) = of_nat (4096 * (16 + i) + 7)"
    using assms(1,3) by (simp only: tables_in_def entry_words)
  have "pg_round_down 0xf000 = (0xf000 :: u32)" using frame_of_nat [of 15 0] by simp
  moreover have f: "pg_round_down (of_nat (4096 * (16 + i) + 7)) = (0x10000 + 4 * of_nat (1024 * i) :: u32)"
    using frame_of_nat [of "16 + i" 7] assms(4) by simp
  moreover have e: "2 ^ 22 * i + unat va mod 2 ^ 22 = unat va mod 2 ^ 12 + 4096 * (1024 * i + ?t)"
    using mod_mult2_eq [of "unat va" 4096 1024] by simp
  have q: "(r + 4096 * q) div 4096 = q" "(r + 4096 * q) mod 4096 = r" if "r < 4096" for q r :: nat
    using that by simp_all
  have "unat va mod 2 ^ 12 < 4096" by simp
  from q [OF this, of "1024 * i + ?t"] have
    "(2 ^ 22 * i + unat va mod 2 ^ 22) div 4096 = 1024 * i + ?t" "(2 ^ 22 * i + unat va mod 2 ^ 22) mod 4096 = unat va mod 2 ^ 12"
    unfolding e by - assumption+
  ultimately show ?thesis
    unfolding translate_def Let_def index_words frame_mask assms(2) page_lookup_def
    using pde entry_bit [of "16 + i"] by (simp add: algebra_simps)
qed

lemma translate_first:
  assumes "tables_in m" "unat va < 0x10000000"
  shows "translate m 0xf000 va = page_lookup m (unat va)" "translate m 0xf000 (KERNEL_BASE + va) = page_lookup m (unat va)"
proof -
  let ?i = "unat va div 2 ^ 22"
  have i: "?i < 64" using assms(2) by (simp add: div_less_iff_less_mult)
  have e: "2 ^ 22 * ?i + unat va mod 2 ^ 22 = unat va" by simp
  show "translate m 0xf000 va = page_lookup m (unat va)"
    using translate_dir [OF assms(1) refl, of va ?i] i unfolding e by (simp add: dir_entry_def)
  have "unat (KERNEL_BASE + va) = 0x300 * 2 ^ 22 + unat va" using assms(2) by (simp add: KERNEL_BASE_def unat_plus_bounded)
  then have "unat (KERNEL_BASE + va) div 2 ^ 22 = 768 + ?i" "unat (KERNEL_BASE + va) mod 2 ^ 22 = unat va mod 2 ^ 22"
    by (simp_all only: div_mult_self3 mod_mult_self3) simp
  then show "translate m 0xf000 (KERNEL_BASE + va) = page_lookup m (unat va)"
    using translate_dir [OF assms(1), of "KERNEL_BASE + va" "768 + ?i" ?i] i e by (simp add: dir_entry_def)
qed

lemma page_lookup_mapped:
  assumes "tables_in m" "off < 0x4000000"
  shows "page_lookup m off = Some (of_nat off)"
proof -
  have n: "off div 4096 < 0x4000" using assms(2) by (simp add: div_less_iff_less_mult)
  then have w: "read_u32 m (0x10000 + 4 * of_nat (off div 4096)) = of_nat (4096 * (off div 4096) + 7)"
    using assms(1) by (simp only: tables_in_def entry_words)
  have "of_nat (4096 * (off div 4096)) + of_nat (off mod 4096) = (of_nat off :: u32)"
    unfolding of_nat_add [symmetric] by simp
  then show ?thesis
    unfolding page_lookup_def Let_def w using frame_of_nat [of "off div 4096" 7] entry_bit [of "off div 4096"] n by simp
qed

lemma translate_none:
  assumes "tables_in m" "0x10000000 \<le> unat va \<and> unat va < 0xc0000000 \<or> 0xd0000000 \<le> unat va"
  shows "translate m 0xf000 va = None"
proof -
  let ?d = "unat va div 2 ^ 22"
  have "unat va < 2 ^ 32" using unsigned_less [of va, where 'a = nat] by simp
  then have d: "?d < 1024" by (simp add: div_less_iff_less_mult)
  have "64 \<le> ?d" "\<not> (768 \<le> ?d \<and> ?d < 832)"
    using assms(2) by (auto simp: less_eq_div_iff_mult_less_eq div_less_iff_less_mult)
  then have "read_u32 m (0xf000 + 4 * of_nat ?d) = 0" using assms(1) d by (auto simp: tables_in_def dir_entry_def)
  moreover have "pg_round_down 0xf000 = (0xf000 :: u32)" using frame_of_nat [of 15 0] by simp
  ultimately show ?thesis unfolding translate_def Let_def index_words frame_mask by simp
qed

text \<open>
  C12: The page tables the loader builds. The first 64 MiB of physical memory appear unchanged at
  address 0 and at \<open>KERNEL_BASE\<close>. The next 192 MiB appear there too as far as the directory is
  concerned, but their page tables are the words from 0x20000 on, where the image of loader and
  kernel lies: where they lead depends on its bytes. All other addresses fault. Memory outside
  the tables is left alone.
\<close>

theorem page_tables_map:
  fixes s :: loader
  defines "m \<equiv> mem (build_pte (build_pde (pde_mem_clear s)))"
  shows "(unat va < 0x4000000 \<longrightarrow> translate m PAGING_TABLE_ADDR va = Some va \<and> translate m PAGING_TABLE_ADDR (KERNEL_BASE + va) = Some va)
    \<and> (0x4000000 \<le> unat va \<and> unat va < 0x10000000 \<longrightarrow>
        (let pte = read_u32 (mem s) (0x20000 + 4 * (va div 4096 - 0x4000));
             r = (if bit pte 0 then Some ((pte AND 0xfffff000) + va mod 4096) else None) in
         translate m PAGING_TABLE_ADDR va = r \<and> translate m PAGING_TABLE_ADDR (KERNEL_BASE + va) = r))
    \<and> (0x10000000 \<le> unat va \<and> unat va < 0xc0000000 \<or> 0xd0000000 \<le> unat va \<longrightarrow> translate m PAGING_TABLE_ADDR va = None)
    \<and> (unat a < 0xf000 \<or> 0x20000 \<le> unat a \<longrightarrow> m a = mem s a)"
proof -
  have m: "m = table_memory (mem s)" by (simp add: m_def build_tables_mem)
  have t: "tables_in m" unfolding m by (rule table_memory_tables)
  have out: "m a = mem s a" if "unat a < 0xf000 \<or> 0x20000 \<le> unat a" for a
    using that unfolding m by (rule table_memory_outside)
  have stray: "page_lookup m (unat va) = (let pte = read_u32 (mem s) (0x20000 + 4 * (va div 4096 - 0x4000)) in
      if bit pte 0 then Some ((pte AND 0xfffff000) + va mod 4096) else None)" if "0x4000000 \<le> unat va" "unat va < 0x10000000"
  proof -
    have w: "of_nat (unat va div 4096) = va div 4096" "of_nat (unat va mod 4096) = va mod 4096"
      by (simp_all add: word_arith_nat_div word_arith_nat_mod)
    have e: "0x10000 + 4 * (va div 4096) = 0x20000 + 4 * (va div 4096 - 0x4000)" by simp
    have "0x4000 \<le> unat va div 4096" "unat va div 4096 < 0x10000"
      using that by (simp_all add: less_eq_div_iff_mult_less_eq div_less_iff_less_mult)
    then have "0x20000 \<le> unat (0x10000 + 4 * (va div 4096))" "unat (0x10000 + 4 * (va div 4096)) + 4 \<le> 2 ^ 32"
      using entry_addr [of "0x10000" "unat va div 4096"] unfolding w by simp_all
    then have "read_u32 m (0x10000 + 4 * (va div 4096)) = read_u32 (mem s) (0x10000 + 4 * (va div 4096))"
      by (intro read_u32_same out) auto
    then show ?thesis unfolding page_lookup_def w frame_mask e [symmetric] by (simp only: Let_def)
  qed
  show ?thesis
    unfolding PAGING_TABLE_ADDR_def
    using translate_first [OF t] page_lookup_mapped [OF t] translate_none [OF t] out stray by (simp add: Let_def)
qed

text \<open>A machine with empty memory.\<close>

definition sample_loader :: loader where
  "sample_loader = \<lparr>mem = (\<lambda>_. 0), tty = [], port92 = 0, eax = 0, ebx = 0, cx = 0, di = 0, es = 0, stack_top = 0, load_disk_cnt = 0, blkcnt = 0,
     db_addr_addr = 0, db_addr_seg = 0, d_lba = 0, cr0_val = 0, cr3_val = 0, cr4_val = 0, gdt_limit = 0, gdt_base = 0\<rparr>"

theorem page_tables_map_witness:
  "let m = mem (build_pte (build_pde (pde_mem_clear sample_loader))) in
     translate m PAGING_TABLE_ADDR 0xb8000 = Some 0xb8000 \<and> translate m PAGING_TABLE_ADDR 0xc00b8000 = Some 0xb8000
   \<and> translate m PAGING_TABLE_ADDR 0xc5000000 = None \<and> translate m PAGING_TABLE_ADDR 0x80000000 = None \<and> m 0x7c00 = 0"
proof -
  have z: "read_u32 (mem sample_loader) a = 0" for a by (simp add: sample_loader_def read_u32_def ram_slice_def upt_rec numeral_eq_Suc)
  show ?thesis
    using page_tables_map [of "0xb8000" sample_loader 0] page_tables_map [of "0x5000000" sample_loader 0]
      page_tables_map [of "0x80000000" sample_loader "0x7c00"]
    by (simp add: KERNEL_BASE_def z) (simp add: sample_loader_def)
qed

end
