(* ===== verification/RondDisk.thy ===== *)
theory RondDisk
  imports RondTables
begin

text \<open>
  What the loader brings into memory before it builds the tables: the image from the disk and the
  memory map of the firmware.
\<close>

section \<open>The disk\<close>

text \<open>
  \<open>disk.s\<close>: the assembled loader, filled up to a whole block (the assembler does that with no-operation
  instructions) and with zeros to 1 MiB.
\<close>

definition disk_img :: "u8 list \<Rightarrow> u8 list" where
  "disk_img bin =
     (let blocks = bin @ replicate ((512 - length bin mod 512) mod 512) 0x90 in
      blocks @ replicate (512 * 2 * 1024 - length blocks) 0)"

text \<open>The firmware reads the blocks of that disk.\<close>

definition reads_disk :: "firmware \<Rightarrow> u8 list \<Rightarrow> bool" where
  "reads_disk fw bin \<longleftrightarrow> length bin \<le> 2 ^ 20 \<and> (\<forall>lba n. 512 * (unat lba + unat n) \<le> 2 ^ 20 \<longrightarrow>
     int13_read fw lba n = Some (take (512 * unat n) (drop (512 * unat lba) (disk_img bin))))"

text \<open>
  Memory after the chunks \<open>j\<close> to \<open>j + n - 1\<close> have been read: 127 blocks of every 64 KiB come from the
  disk, the last one keeps what memory held.
\<close>

definition chunks_read :: "u8 list \<Rightarrow> nat \<Rightarrow> nat \<Rightarrow> (u32 \<Rightarrow> u8) \<Rightarrow> u32 \<Rightarrow> u8" where
  "chunks_read disk j n m a =
     (let i = unat (a - 0x20000) in
      if 65536 * j \<le> i \<and> i < 65536 * (j + n) \<and> i mod 65536 < 127 * 512 then disk ! i else m a)"

lemma chunks_read_first:
  assumes "j < 8" "length disk = 2 ^ 20"
  shows "store_bytes m (0x20000 + 65536 * of_nat j) (take (127 * 512) (drop (65536 * j) disk)) = chunks_read disk j 1 m"
proof
  fix a :: u32
  let ?i = "unat (a - 0x20000)"
  have j: "unat (65536 * of_nat j :: u32) = 65536 * j"
    using assms(1) unat_of_nat_bounded [where 'w = 32, of "65536 * j"] by simp
  have "unat (a - (0x20000 + 65536 * of_nat j)) = unat ((a - 0x20000) - 65536 * of_nat j)" by (simp add: diff_diff_eq)
  then have d: "unat (a - (0x20000 + 65536 * of_nat j)) = (if 65536 * j \<le> ?i then ?i - 65536 * j else ?i + 2 ^ 32 - 65536 * j)"
    using unat_sub_if' [of "a - 0x20000" "65536 * of_nat j"] j by (simp add: word_le_nat_alt)
  have len: "length (take (127 * 512) (drop (65536 * j) disk)) = 127 * 512" using assms by simp
  consider "?i < 65536 * j" | r where "?i = 65536 * j + r" "r < 65536" | "65536 * (j + 1) \<le> ?i"
  proof -
    assume *: "?i < 65536 * j \<Longrightarrow> thesis" "\<And>r. ?i = 65536 * j + r \<Longrightarrow> r < 65536 \<Longrightarrow> thesis" "65536 * (j + 1) \<le> ?i \<Longrightarrow> thesis"
    show thesis using * (2) [of "?i - 65536 * j"] *(1,3) by fastforce
  qed
  then show "store_bytes m (0x20000 + 65536 * of_nat j) (take (127 * 512) (drop (65536 * j) disk)) a = chunks_read disk j 1 m a"
    using d assms(1) unfolding store_bytes_def len chunks_read_def Let_def
    by cases (auto simp: assms(2))
qed

lemma chunks_read_Suc:
  "chunks_read disk (Suc j) n (chunks_read disk j 1 m) = chunks_read disk j (Suc n) m"
  by (auto simp: chunks_read_def Let_def fun_eq_iff)

lemma length_disk_img:
  assumes "length bin \<le> 2 ^ 20"
  shows "length (disk_img bin) = 2 ^ 20"
proof -
  have "n + (512 - n mod 512) mod 512 \<le> 2 ^ 20" if "n \<le> 2 ^ 20" for n :: nat
  proof (cases "n mod 512 = 0")
    case False
    have q: "512 * (n div 512) + n mod 512 = n" "0 < n mod 512" "n \<le> 1048576" using that False by simp_all
    then have "n div 512 < 2048" by linarith
    have "n + (512 - n mod 512) = 512 * (n div 512) + 512" using q(1) mod_less_divisor [of 512 n] by linarith
    also have "\<dots> \<le> 2 ^ 20" using \<open>n div 512 < 2048\<close> by simp
    finally show ?thesis by (intro order.trans [OF add_left_mono [OF mod_less_eq_dividend]])
  qed (use that in simp)
  from this [OF assms] show ?thesis by (simp add: disk_img_def Let_def)
qed

lemma bios_read_chunks:
  assumes "reads_disk fw bin" "0 < n" "j + n \<le> 8"
    and "blkcnt s = 127" "db_addr_addr s = 0" "db_addr_seg s = of_nat (0x2000 + 0x1000 * j)" "d_lba s = of_nat (128 * j)"
    and "load_disk_cnt s = of_nat n"
  shows "\<exists>c sg l. bios_read fw s = Inr (s\<lparr>mem := chunks_read (disk_img bin) j n (mem s),
    load_disk_cnt := c, db_addr_seg := sg, d_lba := l\<rparr>)"
  using assms(2-)
proof (induction n arbitrary: j s)
  case (Suc n)
  have lba: "unat (d_lba s) = 128 * j"
    using Suc.prems unat_of_nat_bounded [where 'w = 32, of "128 * j"] by simp
  then have "int13_read fw (d_lba s) 127 = Some (take (127 * 512) (drop (65536 * j) (disk_img bin)))"
    using assms(1) Suc.prems(2) by (simp add: reads_disk_def)
  moreover have "linear (db_addr_seg s) 0 = 0x20000 + 65536 * of_nat j"
  proof -
    have "unat (of_nat (0x2000 + 0x1000 * j) :: u16) = 0x2000 + 0x1000 * j"
      using Suc.prems(2) by (intro unat_of_nat_bounded) simp
    moreover have "unat (of_nat (0x2000 + 0x1000 * j) :: u32) = 0x2000 + 0x1000 * j"
      using Suc.prems(2) by (intro unat_of_nat_bounded) simp
    ultimately have "(ucast (of_nat (0x2000 + 0x1000 * j) :: u16) :: u32) = of_nat (0x2000 + 0x1000 * j)"
      using Suc.prems(2) by (simp only: word_eq_nat_iff unat_ucast_mod) simp
    then show ?thesis using Suc.prems(5) by (simp add: linear_def)
  qed
  moreover have "store_bytes (mem s) (0x20000 + 65536 * of_nat j) (take (127 * 512) (drop (65536 * j) (disk_img bin)))
      = chunks_read (disk_img bin) j 1 (mem s)"
    using assms(1) Suc.prems(2) length_disk_img by (intro chunks_read_first) (auto simp: reads_disk_def)
  ultimately have run: "bios_read fw s = (let s1 = s\<lparr>mem := chunks_read (disk_img bin) j 1 (mem s), load_disk_cnt := of_nat n\<rparr> in
      if load_disk_cnt s1 = 0 then Inr s1
      else bios_read fw (s1\<lparr>db_addr_seg := db_addr_seg s1 + 0x1000, d_lba := d_lba s1 + 128\<rparr>))"
    using Suc.prems by (subst bios_read.simps) (simp only: Let_def, simp)
  show ?case
  proof (cases "n = 0")
    case True
    then have "bios_read fw s = Inr (s\<lparr>mem := chunks_read (disk_img bin) j (Suc n) (mem s), load_disk_cnt := 0,
        db_addr_seg := db_addr_seg s, d_lba := d_lba s\<rparr>)"
      using run by simp
    then show ?thesis by blast
  next
    case False
    let ?s = "s\<lparr>mem := chunks_read (disk_img bin) j 1 (mem s), load_disk_cnt := of_nat n,
      db_addr_seg := db_addr_seg s + 0x1000, d_lba := d_lba s + 128\<rparr>"
    have "(of_nat n :: u16) \<noteq> 0" using False Suc.prems(2) by (simp add: word_eq_nat_iff unat_of_nat_bounded)
    then have "bios_read fw s = bios_read fw ?s" using run by (simp add: Let_def)
    moreover have "\<exists>c sg l. bios_read fw ?s = Inr (?s\<lparr>mem := chunks_read (disk_img bin) (Suc j) n (mem ?s),
        load_disk_cnt := c, db_addr_seg := sg, d_lba := l\<rparr>)"
      by (rule Suc.IH) (use False Suc.prems in simp_all)
    ultimately show ?thesis using chunks_read_Suc [of "disk_img bin" j n "mem s"] by simp
  qed
qed simp

section \<open>The image\<close>

text \<open>
  The assembled image for a \<open>kernel.bin\<close> of \<open>k\<close> bytes, an ELF file: the mark follows the kernel, and
  the whole fits below 0xa0000 once loaded.
\<close>

definition loader_image :: "nat \<Rightarrow> u8 list \<Rightarrow> bool" where
  "loader_image k bin \<longleftrightarrow> 52 \<le> k \<and> k \<le> 0x7f000 \<and> length bin = LOADER_END k + 4
     \<and> take 4 (drop 0x1000 bin) = [0x7f, 0x45, 0x4c, 0x46] \<and> drop (LOADER_END k) bin = bytes_of_word 4 END_CHECK"

lemma chunks_read_slice:
  assumes "i mod 65536 + n \<le> 127 * 512" "i < 65536 * T" "T \<le> 8" "length disk = 2 ^ 20"
  shows "ram_slice (chunks_read disk 0 T m) (0x20000 + of_nat i) n = take n (drop i disk)"
proof -
  have "i + n \<le> 65536 * T"
  proof -
    have "i div 65536 < T" using assms(2) by (simp add: div_less_iff_less_mult mult.commute)
    then have "65536 * (i div 65536) + 65536 \<le> 65536 * T" by simp
    then show ?thesis using assms(1) mult_div_mod_eq [of 65536 i] by linarith
  qed
  note top = this
  show ?thesis
  proof (rule nth_equalityI)
    fix q assume "q < length (ram_slice (chunks_read disk 0 T m) (0x20000 + of_nat i) n)"
    then have q: "q < n" by simp
    then have u: "unat (of_nat i + of_nat q :: u32) = i + q"
      using top assms(3) unat_of_nat_bounded [where 'w = 32, of "i + q"] by simp
    have "i mod 65536 + q < 65536" using q assms(1) by simp
    then have "(i + q) mod 65536 = i mod 65536 + q" using mod_add_left_eq [of i 65536 q] by simp
    then show "ram_slice (chunks_read disk 0 T m) (0x20000 + of_nat i) n ! q = take n (drop i disk) ! q"
      using q u top assms by (simp add: ram_slice_def chunks_read_def)
  qed (use top assms in simp)
qed

lemma disk_time: "LOADER_DISK_TIME k = (LOADER_END k + 65535) div 65536"
proof -
  have "(LOADER_END k + 511) div 512 + 127 = (LOADER_END k + 511 + 127 * 512) div 512" by simp
  then have "LOADER_DISK_TIME k = (LOADER_END k + 65535) div 512 div 128"
    by (simp add: LOADER_DISK_TIME_def LOADER_DISK_BLOCK_COUNT_def)
  then show ?thesis by (simp only: div_mult2_eq [symmetric]) simp
qed

lemma image_sizes:
  assumes "loader_image k bin"
  shows "0 < LOADER_DISK_TIME k" "LOADER_DISK_TIME k \<le> 8" "LOADER_END k mod 65536 \<noteq> 0 \<Longrightarrow> LOADER_END k < 65536 * LOADER_DISK_TIME k"
    "length bin \<le> 2 ^ 20" "LOADER_END k mod 65536 = 0 \<Longrightarrow> LOADER_END k = 65536 * LOADER_DISK_TIME k"
proof -
  have e: "0x1000 \<le> LOADER_END k" "LOADER_END k \<le> 0x80000" using assms by (simp_all add: loader_image_def LOADER_END_def)
  then show "length bin \<le> 2 ^ 20" using assms by (simp add: loader_image_def)
  have t: "65536 * LOADER_DISK_TIME k + (LOADER_END k + 65535) mod 65536 = LOADER_END k + 65535"
    unfolding disk_time by (rule mult_div_mod_eq)
  have m: "(LOADER_END k + 65535) mod 65536 < 65536" by simp
  show "0 < LOADER_DISK_TIME k" "LOADER_DISK_TIME k \<le> 8" using e t m by linarith+
  have "(LOADER_END k + 65535) mod 65536 = (LOADER_END k mod 65536 + 65535) mod 65536" by (simp add: mod_add_left_eq)
  also have "\<dots> = (if LOADER_END k mod 65536 = 0 then 65535 else LOADER_END k mod 65536 - 1)"
  proof (cases "LOADER_END k mod 65536")
    case (Suc r)
    then have "r < 65536" using mod_less_divisor [of 65536 "LOADER_END k"] by linarith
    then show ?thesis using Suc by simp
  qed simp
  finally have r: "(LOADER_END k + 65535) mod 65536 = (if LOADER_END k mod 65536 = 0 then 65535 else LOADER_END k mod 65536 - 1)" .
  have l: "LOADER_END k mod 65536 < 65536" by simp
  show "LOADER_END k < 65536 * LOADER_DISK_TIME k" if "LOADER_END k mod 65536 \<noteq> 0"
    using t r l that by simp
  show "LOADER_END k = 65536 * LOADER_DISK_TIME k" if "LOADER_END k mod 65536 = 0"
    using t r that by simp
qed

text \<open>Where the mark is looked for.\<close>

lemma ucast_small: "n < 2 ^ 16 \<Longrightarrow> (ucast (of_nat n :: u16) :: u32) = of_nat n"
  using unat_of_nat_bounded [where 'w = 16, of n] unat_of_nat_bounded [where 'w = 32, of n]
  by (simp add: word_eq_nat_iff unat_ucast_mod)

lemma mark_address:
  assumes "k \<le> 0x7f000"
  shows "linear (of_nat (END_CHECK_ADDR k mod 2 ^ 20 div 2 ^ 16 * 2 ^ 12 + 0x2000)) (of_nat (END_CHECK_ADDR k mod 2 ^ 16))
    = 0x20000 + of_nat (LOADER_END k)"
proof -
  let ?e = "LOADER_END k"
  define A B where "A = ?e mod 2 ^ 20 div 2 ^ 16 * 2 ^ 12 + 0x2000" and "B = ?e mod 2 ^ 16"
  have e: "?e \<le> 0x80000" using assms by (simp add: LOADER_END_def)
  then have d: "?e mod 2 ^ 20 = ?e" "?e div 2 ^ 16 \<le> 8" by simp_all
  then have "A < 2 ^ 16" "B < 2 ^ 16" by (simp_all add: A_def B_def)
  moreover have "16 * A + B = 0x20000 + ?e"
    unfolding A_def B_def d(1) using mult_div_mod_eq [of "2 ^ 16" ?e] by simp
  then have "(of_nat (16 * A + B) :: u32) = of_nat (0x20000 + ?e)" by (rule arg_cong)
  then have "16 * of_nat A + of_nat B = (0x20000 + of_nat ?e :: u32)" by (simp only: of_nat_add of_nat_mult of_nat_numeral)
  ultimately show ?thesis
    unfolding linear_def END_CHECK_ADDR_def A_def [symmetric] B_def [symmetric] by (simp only: ucast_small)
qed

lemma disk_bytes: "i + n \<le> length bin \<Longrightarrow> take n (drop i (disk_img bin)) = take n (drop i bin)"
  by (simp add: disk_img_def Let_def)

lemma elf_mark: "word_of_bytes [0x7f, 0x45, 0x4c, 0x46] AND 0xffffff00 = (0x464c4500 :: u32)"
  by code_simp

lemma check_read_image:
  assumes "loader_image k bin" "mem s = chunks_read (disk_img bin) 0 (LOADER_DISK_TIME k) m" "LOADER_END k mod 65536 \<le> 65532"
  shows "check_read k s = Some (Done (read_u32 (mem s) (0x20000 + of_nat (LOADER_END k)) = END_CHECK) s)"
proof -
  note im = assms(1) [unfolded loader_image_def] and sz = image_sizes [OF assms(1)]
  have T: "0x1000 < 65536 * LOADER_DISK_TIME k" using sz(1) by simp
  have "ram_slice (mem s) (0x20000 + of_nat 0x1000) 4 = take 4 (drop 0x1000 (disk_img bin))"
    unfolding assms(2) by (rule chunks_read_slice) (use T sz length_disk_img in simp_all)
  then have "ram_slice (mem s) (0x20000 + of_nat 0x1000) 4 = [0x7f, 0x45, 0x4c, 0x46]"
    using im disk_bytes [of "0x1000" 4 bin] by (simp add: LOADER_END_def)
  then have "read_u32 (mem s) (linear 0x2000 0x1000) AND 0xffffff00 = 0x464c4500"
    using elf_mark by (simp add: read_u32_def linear_def)
  moreover have "(of_nat (END_CHECK_ADDR k mod 2 ^ 16) :: u16) \<le> 0xfffc"
    using assms(3) unat_of_nat_bounded [where 'w = 16, of "END_CHECK_ADDR k mod 2 ^ 16"]
    by (simp add: word_le_nat_alt END_CHECK_ADDR_def)
  ultimately show ?thesis
    using mark_address [of k] im by (simp only: check_read_def Let_def) simp
qed

lemma mark_not_read:
  assumes "loader_image k bin" "LOADER_END k mod 65536 = 0 \<or> 127 * 512 \<le> LOADER_END k mod 65536 \<and> LOADER_END k mod 65536 \<le> 65532"
  shows "read_u32 (chunks_read disk 0 (LOADER_DISK_TIME k) m) (0x20000 + of_nat (LOADER_END k)) = read_u32 m (0x20000 + of_nat (LOADER_END k))"
proof (rule read_u32_same)
  let ?e = "LOADER_END k"
  have "?e \<le> 0x80000" using assms(1) by (simp add: loader_image_def LOADER_END_def)
  then have e: "unat (0x20000 + of_nat ?e :: u32) = 0x20000 + ?e" "?e < 2 ^ 31"
    using unat_of_nat_bounded [where 'w = 32, of ?e] by (simp_all add: unat_plus_bounded)
  then show "unat (0x20000 + of_nat ?e :: u32) + 4 \<le> 2 ^ 32" by simp
  fix x :: u32 assume "unat (0x20000 + of_nat ?e :: u32) \<le> unat x" "unat x < unat (0x20000 + of_nat ?e :: u32) + 4"
  then obtain q where q: "unat x = 0x20000 + ?e + q" "q < 4" unfolding e by (metis add_less_cancel_left le_Suc_ex)
  then have d: "unat (x - 0x20000) = ?e + q" by (simp add: unat_sub_if' word_le_nat_alt)
  have "65536 * LOADER_DISK_TIME k \<le> ?e + q \<or> 127 * 512 \<le> (?e + q) mod 65536"
    using assms(2)
  proof
    assume "?e mod 65536 = 0"
    then show ?thesis using image_sizes(5) [OF assms(1)] by simp
  next
    assume r: "127 * 512 \<le> ?e mod 65536 \<and> ?e mod 65536 \<le> 65532"
    then have "(?e + q) mod 65536 = ?e mod 65536 + q" using q(2) mod_add_left_eq [of ?e 65536 q] by simp
    then show ?thesis using r by simp
  qed
  then show "chunks_read disk 0 (LOADER_DISK_TIME k) m x = m x" by (auto simp: chunks_read_def d)
qed

lemma mark_read:
  assumes "loader_image k bin" "0 < LOADER_END k mod 65536" "LOADER_END k mod 65536 + 4 \<le> 127 * 512"
  shows "read_u32 (chunks_read (disk_img bin) 0 (LOADER_DISK_TIME k) m) (0x20000 + of_nat (LOADER_END k)) = END_CHECK"
proof -
  have "ram_slice (chunks_read (disk_img bin) 0 (LOADER_DISK_TIME k) m) (0x20000 + of_nat (LOADER_END k)) 4
      = take 4 (drop (LOADER_END k) (disk_img bin))"
    by (rule chunks_read_slice) (use assms image_sizes [OF assms(1)] length_disk_img in simp_all)
  then show ?thesis
    using assms(1) disk_bytes [of "LOADER_END k" 4 bin] by (simp add: loader_image_def read_u32_def word_of_bytes_of_word)
qed

lemma bios_read_image:
  assumes "reads_disk fw bin" "loader_image k bin"
  shows "\<exists>c sg l. bios_read fw (dapack k s) = Inr ((dapack k s)\<lparr>mem := chunks_read (disk_img bin) 0 (LOADER_DISK_TIME k) (mem s),
    load_disk_cnt := c, db_addr_seg := sg, d_lba := l\<rparr>)"
  using bios_read_chunks [OF assms(1), of "LOADER_DISK_TIME k" 0 "dapack k s"] image_sizes [OF assms(2)]
  by (simp add: dapack_def)

lemma puts_frame: "puts bs s = s\<lparr>tty := tty s @ takeWhile (\<lambda>b. b \<noteq> 0) bs\<rparr>"
  by (induction bs arbitrary: s) (simp_all add: bios_putc_def)

lemma check_fail_prints: "check_fail stop s = stop (s\<lparr>tty := tty s @ bytes_of ''Load Fail'' @ [0x0d, 0x0a]\<rparr>)"
  by (simp add: check_fail_def andthen_run run_basic puts_frame str_load_fail_def bytes_of_def)

lemma load_image_ok:
  assumes "loader_image k bin" "0 < LOADER_END k mod 65536" "LOADER_END k mod 65536 + 4 \<le> 127 * 512"
    and "bios_read fw s = Inr s'" "mem s' = chunks_read (disk_img bin) 0 (LOADER_DISK_TIME k) m"
  shows "load_image stop fw k s = Some (Done () s')"
proof -
  have "check_read k s' = Some (Done True s')"
    using check_read_image [OF assms(1,5)] mark_read [OF assms(1-3), of m] assms(3,5) by simp
  then show ?thesis using assms(4) by (simp add: load_image_def bnd_run run_basic)
qed

lemma load_image_fails:
  assumes "loader_image k bin" "bios_read fw (dapack k s) = Inr s'" "mem s' = chunks_read (disk_img bin) 0 (LOADER_DISK_TIME k) (mem s)"
    and "read_u32 (mem s) (0x20000 + of_nat (LOADER_END k)) \<noteq> END_CHECK"
    and "LOADER_END k mod 65536 = 0 \<or> 127 * 512 \<le> LOADER_END k mod 65536 \<and> LOADER_END k mod 65536 \<le> 65532"
  shows "load_image stop fw k (dapack k s) = check_fail stop s'"
proof -
  have "check_read k s' = Some (Done False s')"
    using check_read_image [OF assms(1,3)] mark_not_read [OF assms(1,5), of "disk_img bin" "mem s"] assms(3-5) by auto
  then show ?thesis using assms(2) by (simp add: load_image_def bnd_run)
qed

text \<open>
  C13: Loading the image. When the firmware reads the disk, every block of the image is in place from
  0x20000 on except the last of each 128, whose 512 bytes keep what memory held before. The check
  at the end does not notice: it lets the loader go on whenever the mark behind the kernel is neither
  in such a block nor at a multiple of 64 KiB. In these cases, unless memory happened to hold the
  mark there already, the loader has read everything else, prints the message of a failed load and arrives in
  \<open>fail_loop\<close>, with nothing else changed. The same happens when the firmware fails at the first read.
\<close>

theorem load_image_gaps:
  assumes "reads_disk fw bin" and "loader_image k bin"
  shows "(\<exists>s'. bios_read fw (dapack k s) = Inr s' \<and> tty s' = tty s
      \<and> (\<forall>i < 65536 * LOADER_DISK_TIME k. mem s' (0x20000 + of_nat i)
        = (if i mod 65536 < 127 * 512 then disk_img bin ! i else mem s (0x20000 + of_nat i)))
      \<and> (0 < LOADER_END k mod 65536 \<and> LOADER_END k mod 65536 + 4 \<le> 127 * 512 \<longrightarrow>
        load_image stop fw k (dapack k s) = Some (Done () s'))
      \<and> (LOADER_END k mod 65536 = 0 \<or> 127 * 512 \<le> LOADER_END k mod 65536 \<and> LOADER_END k mod 65536 \<le> 65532 \<longrightarrow>
        read_u32 (mem s) (0x20000 + of_nat (LOADER_END k)) \<noteq> END_CHECK \<longrightarrow>
        load_image stop fw k (dapack k s) = stop (s'\<lparr>tty := tty s @ bytes_of ''Load Fail'' @ [0x0d, 0x0a]\<rparr>)))
    \<and> (int13_read fw' 0 127 = None \<longrightarrow>
        load_image stop fw' k (dapack k s) = stop ((dapack k s)\<lparr>tty := tty s @ bytes_of ''Load Fail'' @ [0x0d, 0x0a]\<rparr>))
    \<and> fail_loop s = None"
proof -
  obtain c sg l where b: "bios_read fw (dapack k s) = Inr ((dapack k s)\<lparr>mem := chunks_read (disk_img bin) 0 (LOADER_DISK_TIME k) (mem s),
      load_disk_cnt := c, db_addr_seg := sg, d_lba := l\<rparr>)" (is "_ = Inr ?s")
    using bios_read_image [OF assms, of s] by blast
  have t: "tty ?s = tty s" "tty (dapack k s) = tty s" by (simp_all add: dapack_def)
  have m: "mem ?s (0x20000 + of_nat i) = (if i mod 65536 < 127 * 512 then disk_img bin ! i else mem s (0x20000 + of_nat i))"
    if "i < 65536 * LOADER_DISK_TIME k" for i
  proof -
    have "unat (of_nat i :: u32) = i" using that image_sizes(2) [OF assms(2)] by (intro unat_of_nat_bounded) simp
    then show ?thesis using that by (simp add: chunks_read_def)
  qed
  have ok: "load_image stop fw k (dapack k s) = Some (Done () ?s)" if "0 < LOADER_END k mod 65536" "LOADER_END k mod 65536 + 4 \<le> 127 * 512"
    using load_image_ok [OF assms(2) that b] by simp
  have bad: "load_image stop fw k (dapack k s) = stop (?s\<lparr>tty := tty s @ bytes_of ''Load Fail'' @ [0x0d, 0x0a]\<rparr>)"
    if "read_u32 (mem s) (0x20000 + of_nat (LOADER_END k)) \<noteq> END_CHECK"
      "LOADER_END k mod 65536 = 0 \<or> 127 * 512 \<le> LOADER_END k mod 65536 \<and> LOADER_END k mod 65536 \<le> 65532"
    using load_image_fails [OF assms(2) b _ that, of stop] by (simp only: check_fail_prints t) simp
  have err: "load_image stop fw' k (dapack k s) = stop ((dapack k s)\<lparr>tty := tty s @ bytes_of ''Load Fail'' @ [0x0d, 0x0a]\<rparr>)"
    if "int13_read fw' 0 127 = None"
  proof -
    have "bios_read fw' (dapack k s) = Inl (dapack k s)" using that by (subst bios_read.simps) (simp add: dapack_def)
    then show ?thesis by (simp only: load_image_def sum.case check_fail_prints t)
  qed
  show ?thesis
    by (intro conjI exI [of _ ?s] allI impI b t(1) m) (use ok bad err in \<open>auto simp: fail_loop_def forever_hangs\<close>)
qed

text \<open>A small image, and a firmware that reads it and reports the sample memory map.\<close>

definition sample_bin :: "u8 list" where
  "sample_bin = replicate 0x1a0 0 @ concat (map (bytes_of_word 8) gdt) @ replicate 0xe48 0 @ [0x7f, 0x45, 0x4c, 0x46] @ replicate 48 0 @ bytes_of_word 4 END_CHECK"

definition sample_firmware :: firmware where
  "sample_firmware = \<lparr>int13_read = (\<lambda>lba n. Some (take (512 * unat n) (drop (512 * unat lba) (disk_img sample_bin)))),
     int15_e820 = (\<lambda>b. if unat b < 2 then Some (layout_bytes (sample_map ! unat b), b + 1)
       else if unat b = 2 then Some (layout_bytes (sample_map ! 2), 0) else None)\<rparr>"

lemma sample_disk: "reads_disk sample_firmware sample_bin" "loader_image 52 sample_bin"
  by (simp_all add: reads_disk_def sample_firmware_def sample_bin_def gdt_def loader_image_def LOADER_END_def)

theorem load_image_gaps_witness:
  "\<exists>s'. bios_read sample_firmware (dapack 52 sample_loader) = Inr s' \<and> mem s' (0x20000 + of_nat 0x1000) = 0x7f
     \<and> load_image fail_loop sample_firmware 52 (dapack 52 sample_loader) = Some (Done () s')
     \<and> load_image (modify (\<lambda>s. s)) (sample_firmware\<lparr>int13_read := \<lambda>_ _. None\<rparr>) 52 (dapack 52 sample_loader)
       = Some (Done () ((dapack 52 sample_loader)\<lparr>tty := tty sample_loader @ bytes_of ''Load Fail'' @ [0x0d, 0x0a]\<rparr>))"
proof -
  have t: "LOADER_DISK_TIME 52 = 1" "LOADER_END 52 mod 65536 = 4148"
    by (simp_all add: LOADER_DISK_TIME_def LOADER_DISK_BLOCK_COUNT_def LOADER_END_def)
  have "disk_img sample_bin ! 0x1000 = 0x7f" by (simp add: disk_img_def Let_def sample_bin_def gdt_def nth_append)
  moreover obtain s' where r: "bios_read sample_firmware (dapack 52 sample_loader) = Inr s'"
      "\<forall>i < 65536 * LOADER_DISK_TIME 52. mem s' (0x20000 + of_nat i)
        = (if i mod 65536 < 127 * 512 then disk_img sample_bin ! i else mem sample_loader (0x20000 + of_nat i))"
      "load_image fail_loop sample_firmware 52 (dapack 52 sample_loader) = Some (Done () s')"
    using load_image_gaps [OF sample_disk, of sample_loader fail_loop] t(2) by force
  ultimately have "mem s' (0x20000 + of_nat 0x1000) = 0x7f" using r(2) [THEN spec, of "0x1000"] t(1) by simp
  moreover have "load_image (modify (\<lambda>s. s)) (sample_firmware\<lparr>int13_read := \<lambda>_ _. None\<rparr>) 52 (dapack 52 sample_loader)
       = Some (Done () ((dapack 52 sample_loader)\<lparr>tty := tty sample_loader @ bytes_of ''Load Fail'' @ [0x0d, 0x0a]\<rparr>))"
    using load_image_gaps [OF sample_disk, of sample_loader "modify (\<lambda>s. s)" "sample_firmware\<lparr>int13_read := \<lambda>_ _. None\<rparr>"]
    by (simp add: run_basic)
  ultimately show ?thesis using r(1,3) by blast
qed

end
