(* ===== verification/RondDetect.thy ===== *)
theory RondDetect
  imports RondDisk
begin

text \<open>
  The memory map: how the loader collects the entries of the firmware and where the kernel finds them.
\<close>

text \<open>A firmware that reports the entries \<open>ls\<close> from a continuation value on, and one that gives up after them.\<close>

fun reports :: "firmware \<Rightarrow> u32 \<Rightarrow> MemLayout list \<Rightarrow> bool" where
  "reports fw b [] \<longleftrightarrow> False"
| "reports fw b [l] \<longleftrightarrow> int15_e820 fw b = Some (layout_bytes l, 0)"
| "reports fw b (l # ls) \<longleftrightarrow> (\<exists>b'. b' \<noteq> 0 \<and> int15_e820 fw b = Some (layout_bytes l, b') \<and> reports fw b' ls)"

fun gives_up :: "firmware \<Rightarrow> u32 \<Rightarrow> MemLayout list \<Rightarrow> bool" where
  "gives_up fw b [] \<longleftrightarrow> int15_e820 fw b = None"
| "gives_up fw b (l # ls) \<longleftrightarrow> (\<exists>b'. b' \<noteq> 0 \<and> int15_e820 fw b = Some (layout_bytes l, b') \<and> gives_up fw b' ls)"

text \<open>Memory with a number of entries and the entries behind it.\<close>

definition map_mem :: "(u32 \<Rightarrow> u8) \<Rightarrow> u32 \<Rightarrow> MemLayout list \<Rightarrow> u32 \<Rightarrow> u8" where
  "map_mem m n ls = store_bytes (store_u32 m 0x20204 n) 0x20208 (concat (map layout_bytes ls))"

lemma store_bytes_append:
  assumes "length xs + length ys \<le> 2 ^ 31"
  shows "store_bytes (store_bytes m a xs) (a + of_nat (length xs)) ys = store_bytes m a (xs @ ys)"
proof
  fix x :: u32
  let ?d = "unat (x - a)"
  have n: "unat (of_nat (length xs) :: u32) = length xs" using assms by (intro unat_of_nat_bounded) simp
  have "unat (x - (a + of_nat (length xs))) = unat ((x - a) - of_nat (length xs))" by (simp add: diff_diff_eq)
  then have d: "unat (x - (a + of_nat (length xs))) = (if length xs \<le> ?d then ?d - length xs else ?d + 2 ^ 32 - length xs)"
    using unat_sub_if' [of "x - a" "of_nat (length xs)"] n by (simp add: word_le_nat_alt)
  show "store_bytes (store_bytes m a xs) (a + of_nat (length xs)) ys x = store_bytes m a (xs @ ys) x"
    using d assms by (auto simp: store_bytes_def nth_append)
qed

lemma length_map_bytes: "length (concat (map layout_bytes ls)) = 20 * length ls"
  by (induction ls) simp_all

text \<open>The counter is in front of the entries.\<close>

lemma map_mem_counter:
  assumes "length ls \<le> 178"
  shows "read_u32 (map_mem m n ls) 0x20204 = n" "store_u32 (map_mem m n ls) 0x20204 n' = map_mem m n' ls"
proof -
  have front: "\<not> unat (x - 0x20208) < 20 * length ls" if "unat (x - 0x20204) < 4" for x :: u32
  proof -
    have "x - 0x20208 = (x - 0x20204) - 4" by simp
    then have "unat (x - 0x20208) = unat (x - 0x20204) + 2 ^ 32 - 4"
      using that unat_sub_if' [of "x - 0x20204" 4] by (simp add: word_le_nat_alt)
    then show ?thesis using assms by simp
  qed
  have "ram_slice (map_mem m n ls) 0x20204 4 = ram_slice (store_u32 m 0x20204 n) 0x20204 4"
  proof (rule nth_equalityI)
    fix j assume "j < length (ram_slice (map_mem m n ls) 0x20204 4)"
    then have j: "j < 4" by simp
    then have "unat (0x20204 + of_nat j - 0x20204 :: u32) < 4" using unat_of_nat_bounded [where 'w = 32, of j] by simp
    from front [OF this] show "ram_slice (map_mem m n ls) 0x20204 4 ! j = ram_slice (store_u32 m 0x20204 n) 0x20204 4 ! j"
      using j by (simp add: ram_slice_def map_mem_def store_bytes_def [of _ "0x20208"] length_map_bytes)
  qed simp
  then show "read_u32 (map_mem m n ls) 0x20204 = n"
    using ram_slice_store [of "bytes_of_word 4 n" 0 4 m "0x20204"]
    by (simp add: read_u32_def store_u32_def word_of_bytes_of_word)
  show "store_u32 (map_mem m n ls) 0x20204 n' = map_mem m n' ls"
    using front by (auto simp: map_mem_def store_u32_def store_bytes_def fun_eq_iff length_map_bytes)
qed

lemma map_mem_snoc:
  assumes "length ls < 178"
  shows "store_bytes (map_mem m n ls) (0x20208 + of_nat (20 * length ls)) (layout_bytes l) = map_mem m n (ls @ [l])"
  using store_bytes_append [of "concat (map layout_bytes ls)" "layout_bytes l" "store_u32 m 0x20204 n" "0x20208"] assms
  by (simp add: map_mem_def length_map_bytes)

definition collecting :: "(u32 \<Rightarrow> u8) \<Rightarrow> MemLayout list \<Rightarrow> loader \<Rightarrow> bool" where
  "collecting m ds s \<longleftrightarrow> es s = 0x2000 \<and> mem s = map_mem m (of_nat (length ds)) ds \<and> di s = of_nat (0x208 + 20 * length ds)"

lemma detect_entry:
  assumes "collecting m ds s" "length ds < 178" "int15_e820 fw (ebx s) = Some (layout_bytes l, b)"
  defines "s1 \<equiv> s\<lparr>ebx := b, mem := map_mem m (of_nat (length (ds @ [l]))) (ds @ [l]), di := of_nat (0x208 + 20 * length (ds @ [l]))\<rparr>"
  shows "detectmem fw s = (if b = 0 then Some s1 else detectmem fw s1)" "collecting m (ds @ [l]) s1"
proof -
  note c = assms(1) [unfolded collecting_def]
  have d: "unat (of_nat (0x208 + 20 * length ds) :: u16) = 0x208 + 20 * length ds"
    "unat (of_nat (0x208 + 20 * length ds) :: u32) = 0x208 + 20 * length ds"
    using assms(2) by (intro unat_of_nat_bounded; simp)+
  then have "(ucast (of_nat (0x208 + 20 * length ds) :: u16) :: u32) = of_nat (0x208 + 20 * length ds)"
    using assms(2) by (simp only: word_eq_nat_iff unat_ucast_mod) simp
  then have lin: "linear 0x2000 (of_nat (0x208 + 20 * length ds)) = 0x20208 + of_nat (20 * length ds)"
    "linear 0x2000 memlayoutlen = 0x20204"
    by (simp_all add: linear_def memlayoutlen_def)
  show "detectmem fw s = (if b = 0 then Some s1 else detectmem fw s1)"
    using c assms(2,3) map_mem_snoc [OF assms(2)] map_mem_counter [of "ds @ [l]"] lin
    by (subst detectmem.simps) (simp only: Let_def option.case prod.case, simp add: s1_def algebra_simps)
  show "collecting m (ds @ [l]) s1" using c by (simp add: collecting_def s1_def)
qed

lemma detect_reports:
  assumes "collecting m ds s" "length (ds @ ls) \<le> 178" "reports fw (ebx s) ls"
  shows "\<exists>d. detectmem fw s = Some (s\<lparr>ebx := 0, mem := map_mem m (of_nat (length (ds @ ls))) (ds @ ls), di := d\<rparr>)"
  using assms
proof (induction ls arbitrary: ds s)
  case (Cons l ls)
  show ?case
  proof (cases ls)
    case Nil
    then show ?thesis using detect_entry [OF Cons.prems(1), of fw l 0] Cons.prems(2,3) by auto
  next
    case (Cons l' ls')
    then obtain b where b: "b \<noteq> 0" "int15_e820 fw (ebx s) = Some (layout_bytes l, b)" "reports fw b ls"
      using Cons.prems(3) by auto
    let ?s = "s\<lparr>ebx := b, mem := map_mem m (of_nat (length (ds @ [l]))) (ds @ [l]), di := of_nat (0x208 + 20 * length (ds @ [l]))\<rparr>"
    have e: "detectmem fw s = detectmem fw ?s" "collecting m (ds @ [l]) ?s"
      using detect_entry [OF Cons.prems(1) _ b(2)] b(1) Cons.prems(2) by simp_all
    have "reports fw (ebx ?s) ls" using b(3) by simp
    then show ?thesis using Cons.IH [OF e(2)] Cons.prems(2) unfolding e(1) by simp
  qed
qed simp

lemma detect_gives_up:
  assumes "collecting m ds s" "length (ds @ ls) \<le> 178" "gives_up fw (ebx s) ls"
  shows "\<exists>b d. detectmem fw s = Some (s\<lparr>ebx := b, mem := map_mem m 0xdead (ds @ ls), di := d\<rparr>)"
  using assms
proof (induction ls arbitrary: ds s)
  case Nil
  have "linear 0x2000 memlayoutlen = 0x20204" by (simp add: linear_def memlayoutlen_def)
  then have "detectmem fw s = Some (s\<lparr>ebx := ebx s, mem := map_mem m 0xdead (ds @ []), di := di s\<rparr>)"
    using Nil map_mem_counter(2) [of ds m "of_nat (length ds)" "0xdead"]
    by (subst detectmem.simps) (simp add: collecting_def detectmemfail_def)
  then show ?case by blast
next
  case (Cons l ls)
  then obtain b where b: "b \<noteq> 0" "int15_e820 fw (ebx s) = Some (layout_bytes l, b)" "gives_up fw b ls" by auto
  let ?s = "s\<lparr>ebx := b, mem := map_mem m (of_nat (length (ds @ [l]))) (ds @ [l]), di := of_nat (0x208 + 20 * length (ds @ [l]))\<rparr>"
  have e: "detectmem fw s = detectmem fw ?s" "collecting m (ds @ [l]) ?s"
    using detect_entry [OF Cons.prems(1) _ b(2)] b(1) Cons.prems(2) by simp_all
  have "gives_up fw (ebx ?s) ls" using b(3) by simp
  then show ?case using Cons.IH [OF e(2)] Cons.prems(2) unfolding e(1) by simp
qed

text \<open>
  C15: Collecting the memory map. When the firmware reports at most 178 entries (what fits in front of
  the kernel) and ends with a zero continuation value, the loop ends and memory holds their number at
  0x20204 and the entries in order from 0x20208 on, nothing else having changed. When the firmware
  fails in the course of it, which is how some firmwares say that there are no more entries, the
  number stored is 0xdead.
\<close>

theorem detectmem_collects:
  assumes "es s = 0x2000" and "length ls \<le> 178"
  shows "(reports fw 0 ls \<longrightarrow> (\<exists>d. detectmem fw (detect_start s)
        = Some (s\<lparr>ebx := 0, mem := map_mem (mem s) (of_nat (length ls)) ls, di := d\<rparr>)))
    \<and> (gives_up fw 0 ls \<longrightarrow> (\<exists>b d. detectmem fw (detect_start s) = Some (s\<lparr>ebx := b, mem := map_mem (mem s) 0xdead ls, di := d\<rparr>)))"
proof -
  have "collecting (mem s) [] (detect_start s)"
    using assms(1) by (simp add: collecting_def detect_start_def map_mem_def store_bytes_def linear_def memlayoutlen_def memlayoutbuf_def)
  from detect_reports [OF this, of ls fw] detect_gives_up [OF this, of ls fw] assms(2)
  show ?thesis by (auto simp: detect_start_def)
qed

lemma sample_reports: "reports sample_firmware 0 sample_map"
  by (simp add: sample_map_def) (simp add: sample_firmware_def sample_map_def)

theorem detectmem_collects_witness:
  "\<exists>d. detectmem sample_firmware (detect_start (sample_loader\<lparr>es := 0x2000\<rparr>))
     = Some (sample_loader\<lparr>es := 0x2000, ebx := 0, mem := map_mem (mem sample_loader) 3 sample_map, di := d\<rparr>)"
proof -
  have "length sample_map = 3" by (simp add: sample_map_def)
  then show ?thesis using detectmem_collects [of "sample_loader\<lparr>es := 0x2000\<rparr>" sample_map sample_firmware] sample_reports by simp
qed

end
