(* ===== verification/RondPic.thy ===== *)
theory RondPic
  imports RondMachine
begin

text \<open>
  The interrupt controllers and the timer, \<open>src/kernel/src/arch/x86/pic.rs\<close>, and
  \<open>end_of_interrupt\<close> of \<open>intr.rs\<close>. The code is a sequence of port writes; the specification
  side of this theory reads such a sequence the way the 8259A and 8254 data sheets do.
\<close>

section \<open>The code\<close>

definition PIC0_CTRL :: u16 where "PIC0_CTRL = 0x20"
definition PIC0_DATA :: u16 where "PIC0_DATA = 0x21"
definition PIC1_CTRL :: u16 where "PIC1_CTRL = 0xa0"
definition PIC1_DATA :: u16 where "PIC1_DATA = 0xa1"

definition pic_init :: "(unit, 'z machine_scheme) comp" where
  "pic_init = block
     [outb PIC0_DATA 0xff,
      outb PIC1_DATA 0xff,
      outb PIC0_CTRL 0x11,
      outb PIC0_DATA 0x20,
      outb PIC0_DATA 0x04,
      outb PIC0_DATA 0x01,
      outb PIC1_CTRL 0x11,
      outb PIC1_DATA 0x28,
      outb PIC1_DATA 0x02,
      outb PIC1_DATA 0x01,
      outb PIC0_DATA 0x00,
      outb PIC1_DATA 0x00]"

definition PIT_PORT_CONTROL :: u16 where "PIT_PORT_CONTROL = 0x43"
definition PIT_PORT_COUNTER_OFFSET_TO_CHANNEL :: u16 where
  "PIT_PORT_COUNTER_OFFSET_TO_CHANNEL = 0x40"
definition PIT_HZ :: u32 where "PIT_HZ = 1193180"

definition pit_count :: "profile \<Rightarrow> u32 \<Rightarrow> panic + u16" where
  "pit_count pr frequency =
     (if frequency < 19 then Inr 0
      else if frequency > PIT_HZ then Inr 2
      else chain (uadd pr PIT_HZ (frequency div 2)) (\<lambda>n.
           chain (udiv n frequency) (\<lambda>q. Inr (ucast q))))"

definition pit_configure_channel ::
  "profile \<Rightarrow> u16 \<Rightarrow> u16 \<Rightarrow> u32 \<Rightarrow> (unit, 'z machine_scheme) comp" where
  "pit_configure_channel pr channel mode frequency =
     andthen (check (channel = 0 \<or> channel = 2))
    (andthen (check (mode = 2 \<or> mode = 3))
    (bnd (lift (pit_count pr frequency)) (\<lambda>count.
     andthen (outb PIT_PORT_CONTROL (ucast (push_bit 6 channel OR 0x30 OR push_bit 1 mode)))
    (bnd (lift (uadd pr PIT_PORT_COUNTER_OFFSET_TO_CHANNEL channel)) (\<lambda>port.
     andthen (outb port (ucast count))
             (outb port (ucast (drop_bit 8 count))))))))"

definition end_of_interrupt :: "(unit, 'z machine_scheme) comp" where
  "end_of_interrupt = outb 0x20 0x20"

lemma pic_init_run [comp_simps]:
  "pic_init m = Some (Done () (emit
     [(0x21, 0xff), (0xa1, 0xff), (0x20, 0x11), (0x21, 0x20), (0x21, 0x04), (0x21, 0x01),
      (0xa0, 0x11), (0xa1, 0x28), (0xa1, 0x02), (0xa1, 0x01), (0x21, 0x00), (0xa1, 0x00)] m))"
  by (simp add: pic_init_def PIC0_CTRL_def PIC0_DATA_def PIC1_CTRL_def PIC1_DATA_def run_basic)

lemma end_of_interrupt_run [comp_simps]: "end_of_interrupt m = Some (Done () (emit [(0x20, 0x20)] m))"
  by (simp add: end_of_interrupt_def outb_run)

section \<open>The interrupt controller's side\<close>

text \<open>
  One 8259A as its data sheet describes programming: a control write with bit 4 set (ICW1)
  starts initialisation, in which the following data writes are ICW2 (vector base), ICW3
  (unless ICW1 selects single mode) and ICW4 (if ICW1 asks for it); every other data write
  sets the interrupt mask.
\<close>

datatype icw_state = IcwReady | Expect2 | Expect3 | Expect4

record pic8259 =
  vector_base :: u8
  single :: bool
  needs4 :: bool
  icw3 :: u8
  icw4 :: u8
  imr :: u8
  icw :: icw_state

definition pic_ctrl :: "u8 \<Rightarrow> pic8259 \<Rightarrow> pic8259" where
  "pic_ctrl d p = (if bit d 4
     then p\<lparr>single := bit d 1, needs4 := bit d 0, imr := 0, icw := Expect2\<rparr> else p)"

definition pic_data :: "u8 \<Rightarrow> pic8259 \<Rightarrow> pic8259" where
  "pic_data d p = (case icw p of
     IcwReady \<Rightarrow> p\<lparr>imr := d\<rparr>
   | Expect2 \<Rightarrow> p\<lparr>vector_base := d AND 0xf8,
                 icw := if \<not> single p then Expect3 else if needs4 p then Expect4 else IcwReady\<rparr>
   | Expect3 \<Rightarrow> p\<lparr>icw3 := d, icw := if needs4 p then Expect4 else IcwReady\<rparr>
   | Expect4 \<Rightarrow> p\<lparr>icw4 := d, icw := IcwReady\<rparr>)"

fun pic_event :: "u16 \<Rightarrow> u16 \<Rightarrow> io_event \<Rightarrow> pic8259 \<Rightarrow> pic8259" where
  "pic_event ctrl data (Out port d) p =
     (if port = ctrl then pic_ctrl d p else if port = data then pic_data d p else p)"
| "pic_event ctrl data (In port d) p = p"

definition pic_after :: "u16 \<Rightarrow> u16 \<Rightarrow> io_event list \<Rightarrow> pic8259 \<Rightarrow> pic8259" where
  "pic_after ctrl data evs p = fold (pic_event ctrl data) evs p"

lemma pic_after_simps [simp]:
  "pic_after ctrl data [] p = p"
  "pic_after ctrl data (e # es) p = pic_after ctrl data es (pic_event ctrl data e p)"
  "pic_after ctrl data (es @ fs) p = pic_after ctrl data fs (pic_after ctrl data es p)"
  by (simp_all add: pic_after_def)

lemma pic_sequence:
  "pic_data mk (pic_data d4 (pic_data d3 (pic_data v (pic_ctrl 0x11 p)))) =
     p\<lparr>vector_base := v AND 0xf8, single := False, needs4 := True, icw3 := d3, icw4 := d4,
       imr := mk, icw := IcwReady\<rparr>"
proof -
  have "pic_ctrl 0x11 p = p\<lparr>single := False, needs4 := True, imr := 0, icw := Expect2\<rparr>"
    by (simp add: pic_ctrl_def)
  then show ?thesis by (simp add: pic_data_def)
qed

section \<open>Properties\<close>

text \<open>
  C33: whatever state the firmware left the two interrupt controllers in, \<open>pic_init\<close> leaves
  both fully initialised (no initialisation word outstanding), the master on vectors 0x20 to 0x27
  and the slave on 0x28 to 0x2f, cascaded (not single) with the slave on the master's line 2,
  in 8086 mode without automatic EOI, and with every interrupt line unmasked.
\<close>

theorem pic_init_remaps:
  "\<exists>evs. pic_init m = Some (Done () (m\<lparr>io := io m @ evs\<rparr>))
    \<and> (let master = pic_after PIC0_CTRL PIC0_DATA evs p0; slave = pic_after PIC1_CTRL PIC1_DATA evs p1
       in icw master = IcwReady \<and> icw slave = IcwReady
        \<and> vector_base master = 0x20 \<and> vector_base slave = 0x28
        \<and> \<not> single master \<and> \<not> single slave
        \<and> icw3 master = push_bit (unat (icw3 slave)) 1
        \<and> icw4 master = 1 \<and> icw4 slave = 1
        \<and> imr master = 0 \<and> imr slave = 0)"
proof -
  let ?evs = "map (\<lambda>(p, d). Out p d)
     [(0x21, 0xff), (0xa1, 0xff), (0x20, 0x11), (0x21, 0x20), (0x21, 0x04), (0x21, 0x01),
      (0xa0, 0x11), (0xa1, 0x28), (0xa1, 0x02), (0xa1, 0x01), (0x21, 0x00), (0xa1, 0x00)]"
  have master: "pic_after PIC0_CTRL PIC0_DATA ?evs p0
      = (pic_data 0xff p0)\<lparr>vector_base := 0x20, single := False, needs4 := True, icw3 := 4, icw4 := 1,
          imr := 0, icw := IcwReady\<rparr>"
    by (simp add: PIC0_CTRL_def PIC0_DATA_def pic_sequence)
  have slave: "pic_after PIC1_CTRL PIC1_DATA ?evs p1
      = (pic_data 0xff p1)\<lparr>vector_base := 0x28, single := False, needs4 := True, icw3 := 2, icw4 := 1,
          imr := 0, icw := IcwReady\<rparr>"
    by (simp add: PIC1_CTRL_def PIC1_DATA_def pic_sequence)
  show ?thesis
    by (rule exI [of _ ?evs], rule conjI, rule pic_init_run) (unfold Let_def master slave, simp)
qed

lemma u16_bytes: "unat (w :: u16) = unat (ucast w :: u8) + 256 * unat (ucast (drop_bit 8 w) :: u8)"
proof -
  have "unat w < 65536" using unsigned_less [of w, where 'a = nat] by simp
  then have "unat w div 256 < 256" by (simp add: div_less_iff_less_mult)
  then show ?thesis
    by (simp add: unat_ucast_mod unat_drop_bit_eq drop_bit_eq_div unat_div)
qed

lemma pit_count_mid:
  assumes "19 \<le> f" "f \<le> PIT_HZ"
  shows "pit_count pr f = Inr (of_nat ((1193180 + unat f div 2) div unat f))"
    and "(1193180 + unat f div 2) div unat f < 65536"
    and "0 < (1193180 + unat f div 2) div unat f"
proof -
  have f: "19 \<le> unat f" "unat f \<le> 1193180"
    using assms by (simp_all add: word_le_nat_alt PIT_HZ_def)
  let ?q = "(1193180 + unat f div 2) div unat f"
  have n: "unat (PIT_HZ + f div 2) = 1193180 + unat f div 2"
    using f by (subst unat_plus_bounded) (simp_all add: PIT_HZ_def unat_div)
  have "1193180 + unat f div 2 < 65536 * unat f"
    using f by (simp add: div_less_iff_less_mult)
  then show small: "?q < 65536"
    using f by (simp add: div_less_iff_less_mult)
  show "0 < ?q"
    using f by (simp add: div_greater_zero_iff)
  have "unat ((PIT_HZ + f div 2) div f) = ?q"
    by (simp add: unat_div n)
  then have "ucast ((PIT_HZ + f div 2) div f) = (of_nat ?q :: u16)"
    by (metis of_nat_unat)
  moreover have "f \<noteq> 0" using f by auto
  ultimately show "pit_count pr f = Inr (of_nat ?q)"
    using assms f by (simp add: pit_count_def arith_ok PIT_HZ_def unat_div not_less)
qed

lemma pit_count_total: "\<exists>c. pit_count pr f = Inr c"
proof (cases "f < 19 \<or> PIT_HZ < f")
  case True
  then show ?thesis by (auto simp: pit_count_def)
next
  case False
  then show ?thesis using pit_count_mid(1) by (auto simp: not_less)
qed

text \<open>
  For a frequency between 19 Hz and the timer's clock the divisor is the clock divided by
  the frequency, rounded to the nearest integer: it fits the 16-bit counter, is not 0 (which the
  timer would read as 65536), and the clock is within half a period of a multiple of it.
\<close>

theorem pit_count_rounds:
  assumes "19 \<le> f" and "f \<le> PIT_HZ"
  shows "\<exists>c. pit_count pr f = Inr c \<and> 0 < unat c
    \<and> 2 * (unat c * unat f) \<le> 2 * unat PIT_HZ + unat f
    \<and> 2 * unat PIT_HZ < 2 * (unat c * unat f) + unat f + 1"
proof -
  let ?n = "1193180 + unat f div 2" and ?q = "(1193180 + unat f div 2) div unat f"
  have c: "unat (of_nat ?q :: u16) = ?q"
    using pit_count_mid(2) [OF assms] by (simp add: unat_of_nat_bounded)
  have "0 < unat f" using assms by (simp add: word_le_nat_alt)
  then have "?q * unat f \<le> ?n" and "?n < ?q * unat f + unat f"
    using div_mult_mod_eq [of ?n "unat f"] mod_less_divisor [of "unat f" ?n] by linarith+
  then have "2 * (?q * unat f) \<le> 2 * 1193180 + unat f"
    and "2 * 1193180 < 2 * (?q * unat f) + unat f + 1"
    by linarith+
  then show ?thesis
    using c pit_count_mid(1) [OF assms, of pr] pit_count_mid(3) [OF assms]
    by (intro exI [of _ "of_nat ?q"] conjI) (simp_all add: PIT_HZ_def)
qed

theorem pit_count_rounds_witness:
  "\<exists>c. pit_count Debug 200 = Inr c \<and> 0 < unat c
    \<and> 2 * (unat c * unat (200 :: u32)) \<le> 2 * unat PIT_HZ + unat (200 :: u32)
    \<and> 2 * unat PIT_HZ < 2 * (unat c * unat (200 :: u32)) + unat (200 :: u32) + 1"
  by (rule pit_count_rounds) (simp_all add: PIT_HZ_def)

text \<open>
  For a timer channel and mode the kernel may use, \<open>pit_configure_channel\<close> writes the
  control word first and then the two bytes of the divisor to the channel's counter port, low
  byte before high byte; put back together they are the divisor. Any other channel or mode fails
  its assertion before a port is touched.
\<close>

theorem pit_configure_writes:
  "if (channel = 0 \<or> channel = 2) \<and> (mode = 2 \<or> mode = 3)
   then \<exists>c lo hi. pit_count pr f = Inr c
      \<and> pit_configure_channel pr channel mode f m = Some (Done () (emit
          [(0x43, ucast (push_bit 6 channel OR 0x30 OR push_bit 1 mode)),
           (0x40 + channel, lo), (0x40 + channel, hi)] m))
      \<and> unat c = unat lo + 256 * unat hi
   else pit_configure_channel pr channel mode f m = Some (Panicked AssertFailed m)"
proof (cases "(channel = 0 \<or> channel = 2) \<and> (mode = 2 \<or> mode = 3)")
  case True
  obtain c where c: "pit_count pr f = Inr c"
    using pit_count_total by blast
  have ch: "unat (0x40 :: u16) + unat channel < 2 ^ 16"
    using True by auto
  have "unat c = unat (ucast c :: u8) + 256 * unat (ucast (drop_bit 8 c) :: u8)"
    by (rule u16_bytes)
  then show ?thesis
    using True c ch
    by (auto simp: pit_configure_channel_def PIT_PORT_CONTROL_def
        PIT_PORT_COUNTER_OFFSET_TO_CHANNEL_def arith_ok outb_run)
next
  case False
  then show ?thesis by (auto simp: pit_configure_channel_def run_basic check_def)
qed

text \<open>
  In the upper third of the accepted frequencies the divisor the code computes is 1, the
  value its own comment calls illegal in mode 2: only frequencies above the clock are forced to 2.
\<close>

theorem pit_count_illegal_one:
  assumes "795454 \<le> f" and "f \<le> PIT_HZ"
  shows "pit_count pr f = Inr 1"
proof -
  have f: "795454 \<le> unat f" "unat f \<le> 1193180"
    using assms by (simp_all add: word_le_nat_alt PIT_HZ_def)
  then have "(1193180 + unat f div 2) div unat f = 1"
    by (intro div_nat_eqI) auto
  moreover have "19 \<le> f" using f by (simp add: word_le_nat_alt)
  ultimately show ?thesis using pit_count_mid(1) assms by simp
qed

theorem pit_count_illegal_one_witness: "pit_count Release 1000000 = Inr 1"
  by (rule pit_count_illegal_one) (simp_all add: PIT_HZ_def)

end
