(* ===== verification/RondIntr.thy ===== *)
theory RondIntr
  imports RondMachine
begin

text \<open>
  Interrupt gates and the interrupt descriptor table, \<open>src/kernel/src/arch/x86/intr.rs\<close>: the
  option word of a gate, the gate entry with its split handler address, the table as the record
  of its 25 named members, the two indexing operations, and loading the table register. The
  specification side lays the table out in memory as \<open>repr(C)\<close> does and decodes a gate the way
  the processor does.
\<close>

section \<open>The option word\<close>

datatype InterruptOption = InterruptOption (opt_bits: u16)

definition is_trap :: "profile \<Rightarrow> InterruptOption \<Rightarrow> panic + bool" where
  "is_trap pr self = get_bit pr (opt_bits self) 8"

definition set_trap :: "profile \<Rightarrow> InterruptOption \<Rightarrow> bool \<Rightarrow> panic + InterruptOption" where
  "set_trap pr self val = chain (set_bit pr (opt_bits self) 8 val) (\<lambda>b. Inr (InterruptOption b))"

definition privilege_level :: "profile \<Rightarrow> InterruptOption \<Rightarrow> panic + u16" where
  "privilege_level pr self = get_bits pr (opt_bits self) (Included 13, Included 14)"

definition set_privilege_level :: "profile \<Rightarrow> InterruptOption \<Rightarrow> u16 \<Rightarrow> panic + InterruptOption" where
  "set_privilege_level pr self val =
     chain (set_bits pr (opt_bits self) (Included 13, Included 14) val) (\<lambda>b. Inr (InterruptOption b))"

definition is_present :: "profile \<Rightarrow> InterruptOption \<Rightarrow> panic + bool" where
  "is_present pr self = get_bit pr (opt_bits self) 15"

definition set_present :: "profile \<Rightarrow> InterruptOption \<Rightarrow> bool \<Rightarrow> panic + InterruptOption" where
  "set_present pr self val = chain (set_bit pr (opt_bits self) 15 val) (\<lambda>b. Inr (InterruptOption b))"

definition option_new :: "profile \<Rightarrow> bool \<Rightarrow> PrivilegeLevel \<Rightarrow> bool \<Rightarrow> panic + InterruptOption" where
  "option_new pr trap privilege present =
     chain (set_trap pr (InterruptOption 0b0000111000000000) trap) (\<lambda>o1.
     chain (set_privilege_level pr o1 (ring_u16 privilege)) (\<lambda>o2.
     set_present pr o2 present))"

definition option_default :: "profile \<Rightarrow> panic + InterruptOption" where
  "option_default pr = option_new pr False Ring0 False"

lemma dpl_field: "field_of pr 16 (Included 13, Included 14) (13, 15)"
  by (simp add: field_of_def to_regular_range_def arith_ok)

text \<open>The closed form of the option word.\<close>

definition option_word :: "bool \<Rightarrow> PrivilegeLevel \<Rightarrow> bool \<Rightarrow> u16" where
  "option_word trap l present =
     0x0E00 OR (if trap then 0x100 else 0) OR push_bit 13 (ring_u16 l) OR (if present then 0x8000 else 0)"

lemma option_new_eq: "option_new pr t l p = Inr (InterruptOption (option_word t l p))"
proof -
  have b: "set_bit pr (x :: u16) 8 v = Inr (if v then x OR 0x100 else x AND NOT 0x100)"
    "set_bit pr (x :: u16) 15 v = Inr (if v then x OR 0x8000 else x AND NOT 0x8000)" for x v
    by (simp_all add: set_bit_eq push_bit_eq_mult)
  show ?thesis
    by (cases t; cases p; cases l)
      (simp_all add: option_new_def set_trap_def set_privilege_level_def set_present_def b
        u16_set_bits [OF dpl_field] fits_in_def take_bit_eq_mod push_bit_eq_mult option_word_def
        mask_eq_exp_minus_1)
qed

section \<open>Gate entries\<close>

text \<open>
  The four handler types are function pointers; they differ in whether the processor pushes an
  error code and whether the handler may return. The entry carries its handler type as a phantom,
  so that a handler of the wrong type is a type error here as it is in the source.
\<close>

datatype HandlerFunc = HandlerFunc usize
datatype HandlerFuncErrCode = HandlerFuncErrCode usize
datatype DivergingHandlerFunc = DivergingHandlerFunc usize
datatype DivergingHandlerFuncErrCode = DivergingHandlerFuncErrCode usize

datatype 'h PhantomData = PhantomData

record 'h InterruptEntry =
  pointer_low :: u16
  gdt_selector :: SegmentSelector
  options :: InterruptOption
  pointer_middle :: u16
  phantom :: "'h PhantomData"

definition entry_pointer :: "'h InterruptEntry \<Rightarrow> usize" where
  "entry_pointer self = push_bit 16 (ucast (pointer_middle self)) OR ucast (pointer_low self)"

definition set_option :: "'h InterruptEntry \<Rightarrow> InterruptOption \<Rightarrow> 'h InterruptEntry" where
  "set_option self opt = self\<lparr>options := opt\<rparr>"

definition set_handle_addr ::
  "profile \<Rightarrow> 'h InterruptEntry \<Rightarrow> usize \<Rightarrow> ('h InterruptEntry, 'z machine_scheme) comp" where
  "set_handle_addr pr self pointer =
     bnd get_cs (\<lambda>cs.
     bnd (lift (option_new pr False Ring0 True)) (\<lambda>opt.
     ret (set_option
       (self\<lparr>pointer_low := ucast (pointer AND 0xffff),
             pointer_middle := ucast (drop_bit 16 pointer),
             gdt_selector := cs\<rparr>) opt)))"

fun set_handle_fn :: "profile \<Rightarrow> HandlerFunc InterruptEntry \<Rightarrow> HandlerFunc \<Rightarrow>
    (HandlerFunc InterruptEntry, 'z machine_scheme) comp" where
  "set_handle_fn pr self (HandlerFunc handler) = set_handle_addr pr self handler"

fun set_handle_fn_err :: "profile \<Rightarrow> HandlerFuncErrCode InterruptEntry \<Rightarrow> HandlerFuncErrCode \<Rightarrow>
    (HandlerFuncErrCode InterruptEntry, 'z machine_scheme) comp" where
  "set_handle_fn_err pr self (HandlerFuncErrCode handler) = set_handle_addr pr self handler"

fun set_handle_fn_div :: "profile \<Rightarrow> DivergingHandlerFunc InterruptEntry \<Rightarrow> DivergingHandlerFunc \<Rightarrow>
    (DivergingHandlerFunc InterruptEntry, 'z machine_scheme) comp" where
  "set_handle_fn_div pr self (DivergingHandlerFunc handler) = set_handle_addr pr self handler"

fun set_handle_fn_div_err ::
  "profile \<Rightarrow> DivergingHandlerFuncErrCode InterruptEntry \<Rightarrow> DivergingHandlerFuncErrCode \<Rightarrow>
    (DivergingHandlerFuncErrCode InterruptEntry, 'z machine_scheme) comp" where
  "set_handle_fn_div_err pr self (DivergingHandlerFuncErrCode handler) = set_handle_addr pr self handler"

definition entry_default :: "profile \<Rightarrow> panic + 'h InterruptEntry" where
  "entry_default pr =
     chain (option_default pr) (\<lambda>opt.
     Inr \<lparr>pointer_low = 0, gdt_selector = SegmentSelector 0, options = opt, pointer_middle = 0,
          phantom = PhantomData\<rparr>)"

text \<open>Closed forms: the default entry and an installed handler.\<close>

definition blank_entry :: "'h InterruptEntry" where
  "blank_entry = \<lparr>pointer_low = 0, gdt_selector = SegmentSelector 0,
     options = InterruptOption 0x0E00, pointer_middle = 0, phantom = PhantomData\<rparr>"

definition handler_entry :: "u16 \<Rightarrow> usize \<Rightarrow> 'h InterruptEntry" where
  "handler_entry cs p = \<lparr>pointer_low = ucast (p AND 0xffff), gdt_selector = SegmentSelector cs,
     options = InterruptOption 0x8E00, pointer_middle = ucast (drop_bit 16 p), phantom = PhantomData\<rparr>"

lemma entry_default_eq: "entry_default pr = Inr blank_entry"
  by (simp add: entry_default_def option_default_def option_new_eq option_word_def blank_entry_def
      push_bit_eq_mult)

lemma phantom_unique: "p = PhantomData"
  by (cases p)

lemma set_handle_addr_run [comp_simps]:
  "set_handle_addr pr e p m = Some (Done (handler_entry (cs_reg m) p) m)"
  by (cases e, cases "phantom e") (simp add: set_handle_addr_def get_cs_def option_new_eq option_word_def run_basic
      set_option_def handler_entry_def push_bit_eq_mult)

section \<open>The table\<close>

record InterruptDescriptorTable =
  divide_error :: "HandlerFunc InterruptEntry"
  debug :: "HandlerFunc InterruptEntry"
  non_maskable_interrupt :: "HandlerFunc InterruptEntry"
  breakpoint :: "HandlerFunc InterruptEntry"
  overflow_trap :: "HandlerFunc InterruptEntry"
  bound_range_exceeded :: "HandlerFunc InterruptEntry"
  invalid_opcode :: "HandlerFunc InterruptEntry"
  device_not_available :: "HandlerFunc InterruptEntry"
  double_fault :: "DivergingHandlerFuncErrCode InterruptEntry"
  coprocessor_segment_overrun :: "HandlerFunc InterruptEntry"
  invalid_tss :: "HandlerFuncErrCode InterruptEntry"
  segment_not_present :: "HandlerFuncErrCode InterruptEntry"
  stack_segment_fault :: "HandlerFuncErrCode InterruptEntry"
  general_protection_fault :: "HandlerFuncErrCode InterruptEntry"
  page_fault :: "HandlerFuncErrCode InterruptEntry"
  reserved_1 :: "HandlerFunc InterruptEntry"
  x87_floating_point :: "HandlerFunc InterruptEntry"
  alignment_check :: "HandlerFuncErrCode InterruptEntry"
  machine_check :: "DivergingHandlerFunc InterruptEntry"
  simd_floating_point :: "HandlerFunc InterruptEntry"
  virtualization :: "HandlerFunc InterruptEntry"
  reserved_2 :: "HandlerFunc InterruptEntry list"
  security_exception :: "HandlerFuncErrCode InterruptEntry"
  reserved_3 :: "HandlerFunc InterruptEntry"
  interrupts :: "HandlerFunc InterruptEntry list"

definition idt_new :: "profile \<Rightarrow> panic + InterruptDescriptorTable" where
  "idt_new pr =
     chain (entry_default pr) (\<lambda>f :: HandlerFunc InterruptEntry.
     chain (entry_default pr) (\<lambda>e :: HandlerFuncErrCode InterruptEntry.
     chain (entry_default pr) (\<lambda>d :: DivergingHandlerFunc InterruptEntry.
     chain (entry_default pr) (\<lambda>de :: DivergingHandlerFuncErrCode InterruptEntry.
     Inr \<lparr>divide_error = f, debug = f, non_maskable_interrupt = f, breakpoint = f,
          overflow_trap = f, bound_range_exceeded = f, invalid_opcode = f, device_not_available = f,
          double_fault = de, coprocessor_segment_overrun = f, invalid_tss = e,
          segment_not_present = e, stack_segment_fault = e, general_protection_fault = e,
          page_fault = e, reserved_1 = f, x87_floating_point = f, alignment_check = e,
          machine_check = d, simd_floating_point = f, virtualization = f,
          reserved_2 = replicate 9 f, security_exception = e, reserved_3 = f,
          interrupts = replicate (256 - 32) f\<rparr>))))"

text \<open>\<open>size_of::<InterruptDescriptorTable>()\<close>: 23 single entries and the two arrays, 8 bytes each.\<close>

definition size_of_idt :: usize where
  "size_of_idt = (23 + 9 + (256 - 32)) * 8"

text \<open>\<open>update\<close>: the address of the table is where the linker put \<open>INTR_TABLE\<close>.\<close>

definition idt_update :: "profile \<Rightarrow> u32 \<Rightarrow> (unit, 'z machine_scheme) comp" where
  "idt_update pr self_addr =
     bnd (lift (usub pr size_of_idt 1)) (\<lambda>l.
     lidt \<lparr>limit = ucast l, base = self_addr\<rparr>)"

definition nth_checked :: "'a list \<Rightarrow> usize \<Rightarrow> panic + 'a" where
  "nth_checked xs i = (if unat i < length xs then Inr (xs ! unat i) else Inl IndexOutOfBounds)"

text \<open>The panics of the two indexing operations, in the order of the match arms.\<close>

definition index_panic :: "usize \<Rightarrow> panic" where
  "index_panic i =
     (if i = 15 \<or> i = 31 \<or> (21 \<le> i \<and> i \<le> 29) then PanicMsg (''entry '' @ show_dec i @ '' is reserved'')
      else if i = 8 \<or> (10 \<le> i \<and> i \<le> 14) \<or> i = 17 \<or> i = 30
        then PanicMsg (''entry '' @ show_dec i @ '' is an exception with error code'')
      else if i = 18
        then PanicMsg (''entry '' @ show_dec i @ '' is an diverging exception (must not return)'')
      else PanicMsg (''no entry with index '' @ show_dec i))"

definition idt_index :: "InterruptDescriptorTable \<Rightarrow> usize \<Rightarrow> panic + HandlerFunc InterruptEntry" where
  "idt_index self index =
     (if index = 0 then Inr (divide_error self)
      else if index = 1 then Inr (debug self)
      else if index = 2 then Inr (non_maskable_interrupt self)
      else if index = 3 then Inr (breakpoint self)
      else if index = 4 then Inr (overflow_trap self)
      else if index = 5 then Inr (bound_range_exceeded self)
      else if index = 6 then Inr (invalid_opcode self)
      else if index = 7 then Inr (device_not_available self)
      else if index = 9 then Inr (coprocessor_segment_overrun self)
      else if index = 16 then Inr (x87_floating_point self)
      else if index = 19 then Inr (simd_floating_point self)
      else if index = 20 then Inr (virtualization self)
      else if 32 \<le> index \<and> index \<le> 255 then nth_checked (interrupts self) (index - 32)
      else Inl (index_panic index))"

text \<open>
  \<open>index_mut\<close> hands out a mutable place: the entry and the table that results from writing a new
  entry there.
\<close>

definition idt_index_mut :: "InterruptDescriptorTable \<Rightarrow> usize \<Rightarrow>
    panic + HandlerFunc InterruptEntry \<times> (HandlerFunc InterruptEntry \<Rightarrow> InterruptDescriptorTable)" where
  "idt_index_mut self index =
     (if index = 0 then Inr (divide_error self, \<lambda>e. self\<lparr>divide_error := e\<rparr>)
      else if index = 1 then Inr (debug self, \<lambda>e. self\<lparr>debug := e\<rparr>)
      else if index = 2 then Inr (non_maskable_interrupt self, \<lambda>e. self\<lparr>non_maskable_interrupt := e\<rparr>)
      else if index = 3 then Inr (breakpoint self, \<lambda>e. self\<lparr>breakpoint := e\<rparr>)
      else if index = 4 then Inr (overflow_trap self, \<lambda>e. self\<lparr>overflow_trap := e\<rparr>)
      else if index = 5 then Inr (bound_range_exceeded self, \<lambda>e. self\<lparr>bound_range_exceeded := e\<rparr>)
      else if index = 6 then Inr (invalid_opcode self, \<lambda>e. self\<lparr>invalid_opcode := e\<rparr>)
      else if index = 7 then Inr (device_not_available self, \<lambda>e. self\<lparr>device_not_available := e\<rparr>)
      else if index = 9
        then Inr (coprocessor_segment_overrun self, \<lambda>e. self\<lparr>coprocessor_segment_overrun := e\<rparr>)
      else if index = 16 then Inr (x87_floating_point self, \<lambda>e. self\<lparr>x87_floating_point := e\<rparr>)
      else if index = 19 then Inr (simd_floating_point self, \<lambda>e. self\<lparr>simd_floating_point := e\<rparr>)
      else if index = 20 then Inr (virtualization self, \<lambda>e. self\<lparr>virtualization := e\<rparr>)
      else if 32 \<le> index \<and> index \<le> 255
        then chain (nth_checked (interrupts self) (index - 32)) (\<lambda>e.
          Inr (e, \<lambda>e'. self\<lparr>interrupts := (interrupts self)[unat (index - 32) := e']\<rparr>))
      else Inl (index_panic index))"

section \<open>Memory layout and the processor's view\<close>

definition erase :: "'h InterruptEntry \<Rightarrow> unit InterruptEntry" where
  "erase e = \<lparr>pointer_low = pointer_low e, gdt_selector = gdt_selector e, options = options e,
     pointer_middle = pointer_middle e, phantom = PhantomData\<rparr>"

text \<open>The members in declaration order, which is the memory order of a \<open>repr(C)\<close> structure.\<close>

definition idt_exceptions :: "InterruptDescriptorTable \<Rightarrow> unit InterruptEntry list" where
  "idt_exceptions t =
     [erase (divide_error t), erase (debug t), erase (non_maskable_interrupt t), erase (breakpoint t),
      erase (overflow_trap t), erase (bound_range_exceeded t), erase (invalid_opcode t),
      erase (device_not_available t), erase (double_fault t), erase (coprocessor_segment_overrun t),
      erase (invalid_tss t), erase (segment_not_present t), erase (stack_segment_fault t),
      erase (general_protection_fault t), erase (page_fault t), erase (reserved_1 t),
      erase (x87_floating_point t), erase (alignment_check t), erase (machine_check t),
      erase (simd_floating_point t), erase (virtualization t)]
     @ map erase (reserved_2 t)
     @ [erase (security_exception t), erase (reserved_3 t)]"

definition idt_entries :: "InterruptDescriptorTable \<Rightarrow> unit InterruptEntry list" where
  "idt_entries t = idt_exceptions t @ map erase (interrupts t)"

definition u16_le :: "u16 \<Rightarrow> u8 list" where
  "u16_le w = [ucast w, ucast (drop_bit 8 w)]"

definition entry_bytes :: "'h InterruptEntry \<Rightarrow> u8 list" where
  "entry_bytes e = u16_le (pointer_low e) @ u16_le (sel_bits (gdt_selector e))
     @ u16_le (opt_bits (options e)) @ u16_le (pointer_middle e)"

definition idt_bytes :: "InterruptDescriptorTable \<Rightarrow> u8 list" where
  "idt_bytes t = concat (map entry_bytes (idt_entries t))"

definition wf_idt :: "InterruptDescriptorTable \<Rightarrow> bool" where
  "wf_idt t \<longleftrightarrow> length (reserved_2 t) = 9 \<and> length (interrupts t) = 224"

text \<open>
  A 32-bit gate as the processor reads it: offset, code segment, type (14 interrupt gate, 15 trap
  gate), privilege level and present bit.
\<close>

record gate =
  gate_offset :: u32
  gate_segment :: u16
  gate_type :: u16
  gate_dpl :: u16
  gate_present :: bool

definition le_u16 :: "u8 \<Rightarrow> u8 \<Rightarrow> u16" where
  "le_u16 lo hi = ucast lo OR push_bit 8 (ucast hi)"

definition decode_gate :: "u8 list \<Rightarrow> gate" where
  "decode_gate bs =
     \<lparr>gate_offset = ucast (le_u16 (bs ! 0) (bs ! 1)) OR push_bit 16 (ucast (le_u16 (bs ! 6) (bs ! 7))),
      gate_segment = le_u16 (bs ! 2) (bs ! 3),
      gate_type = take_bit 4 (drop_bit 8 (le_u16 (bs ! 4) (bs ! 5))),
      gate_dpl = take_bit 2 (drop_bit 13 (le_u16 (bs ! 4) (bs ! 5))),
      gate_present = bit (le_u16 (bs ! 4) (bs ! 5)) 15\<rparr>"

definition gate_at :: "u8 list \<Rightarrow> nat \<Rightarrow> gate" where
  "gate_at bs v = decode_gate (take 8 (drop (8 * v) bs))"

lemma length_entry_bytes [simp]: "length (entry_bytes e) = 8"
  by (simp add: entry_bytes_def u16_le_def)

lemma entry_bytes_erase [simp]: "entry_bytes (erase e) = entry_bytes e"
  by (simp add: entry_bytes_def erase_def)

lemma length_idt_exceptions [simp]: "wf_idt t \<Longrightarrow> length (idt_exceptions t) = 32"
  by (simp add: idt_exceptions_def wf_idt_def)

lemma length_idt_entries [simp]: "wf_idt t \<Longrightarrow> length (idt_entries t) = 256"
  by (simp add: idt_entries_def) (simp add: wf_idt_def)

lemma idt_exceptions_interrupts [simp]: "idt_exceptions (t\<lparr>interrupts := xs\<rparr>) = idt_exceptions t"
  by (simp add: idt_exceptions_def)

lemma length_idt_bytes [simp]: "wf_idt t \<Longrightarrow> length (idt_bytes t) = 2048"
  by (simp add: idt_bytes_def length_concat_const [where n = 8])

lemma gate_at_entries:
  "wf_idt t \<Longrightarrow> v < 256 \<Longrightarrow> gate_at (idt_bytes t) v = decode_gate (entry_bytes (idt_entries t ! v))"
  by (simp add: gate_at_def idt_bytes_def concat_slice)

lemma le_u16_le [simp]: "le_u16 (ucast w) (ucast (drop_bit 8 w)) = w"
  unfolding le_u16_def by (rule bit_word_eqI) (auto simp: bit_simps)

lemma decode_entry:
  "decode_gate (entry_bytes e) =
     \<lparr>gate_offset = ucast (pointer_low e) OR push_bit 16 (ucast (pointer_middle e)),
      gate_segment = sel_bits (gdt_selector e),
      gate_type = take_bit 4 (drop_bit 8 (opt_bits (options e))),
      gate_dpl = take_bit 2 (drop_bit 13 (opt_bits (options e))),
      gate_present = bit (opt_bits (options e)) 15\<rparr>"
  by (simp add: decode_gate_def entry_bytes_def u16_le_def)

lemma split_pointer: "ucast (ucast (p AND 0xffff) :: u16) OR push_bit 16 (ucast (ucast (drop_bit 16 p) :: u16)) = (p :: u32)"
proof -
  have m: "(0xffff :: u32) = mask 16" by (simp add: mask_eq_exp_minus_1)
  show ?thesis unfolding m by (rule bit_word_eqI) (auto simp: bit_simps)
qed

lemma decode_handler_entry:
  "decode_gate (entry_bytes (handler_entry cs p)) =
     \<lparr>gate_offset = p, gate_segment = cs, gate_type = 14, gate_dpl = 0, gate_present = True\<rparr>"
  using split_pointer [of p]
  by (simp add: decode_entry handler_entry_def drop_bit_eq_div [of _ "_ :: u16"] take_bit_eq_mod)

lemma decode_blank_entry: "\<not> gate_present (decode_gate (entry_bytes (blank_entry :: 'h InterruptEntry)))"
  by (simp add: decode_entry blank_entry_def)

lemma idt_new_eq:
  "\<exists>t. idt_new pr = Inr t \<and> wf_idt t \<and> (\<forall>v < 256. \<not> gate_present (gate_at (idt_bytes t) v))"
proof -
  have "\<forall>e \<in> set (idt_entries t). e = erase (blank_entry :: HandlerFunc InterruptEntry)"
    if "idt_new pr = Inr t" for t
    using that by (auto simp: idt_new_def entry_default_eq idt_entries_def idt_exceptions_def blank_entry_def erase_def)
  moreover obtain t where t: "idt_new pr = Inr t" and wf: "wf_idt t"
    by (auto simp: idt_new_def entry_default_eq wf_idt_def)
  ultimately have "idt_entries t ! v = erase (blank_entry :: HandlerFunc InterruptEntry)" if "v < 256" for v
    using that by (simp add: wf)
  then show ?thesis
    using t wf by (auto simp: gate_at_entries decode_blank_entry)
qed

section \<open>Indexing\<close>

text \<open>The vectors the two indexing operations give access to.\<close>

definition indexable :: "usize \<Rightarrow> bool" where
  "indexable i \<longleftrightarrow> unat i \<in> {0..7} \<union> {9, 16, 19, 20} \<union> {32..255}"

lemma indexable_cases:
  assumes "indexable i"
  obtains "i = 0" | "i = 1" | "i = 2" | "i = 3" | "i = 4" | "i = 5" | "i = 6" | "i = 7" | "i = 9"
    | "i = 16" | "i = 19" | "i = 20" | "32 \<le> i" "i \<le> 255"
proof (cases "32 \<le> i")
  case True
  then show thesis using assms that(13)
    by (auto simp: indexable_def word_le_nat_alt)
next
  case False
  then have "unat i \<in> {0, 1, 2, 3, 4, 5, 6, 7, 9, 16, 19, 20}"
    using assms by (auto simp: indexable_def word_le_nat_alt)
  then have "i \<in> {0, 1, 2, 3, 4, 5, 6, 7, 9, 16, 19, 20}"
    by (auto simp: word_eq_nat_iff)
  then show thesis using that(1-12) by auto
qed

lemma idt_index_not_indexable: "\<not> indexable i \<Longrightarrow> idt_index t i = Inl (index_panic i)"
  by (auto simp: idt_index_def indexable_def word_le_nat_alt word_eq_nat_iff)

lemma idt_index_mut_not_indexable: "\<not> indexable i \<Longrightarrow> idt_index_mut t i = Inl (index_panic i)"
  by (auto simp: idt_index_mut_def indexable_def word_le_nat_alt word_eq_nat_iff)

lemma unat_minus_32: "32 \<le> i \<Longrightarrow> unat (i - 32 :: usize) = unat i - 32"
  by (simp add: unat_minus_bounded)

lemma idt_index_entry:
  assumes "wf_idt t" and "indexable i"
  shows "\<exists>e. idt_index t i = Inr e \<and> idt_entries t ! unat i = erase e"
  using assms(2)
proof (cases rule: indexable_cases)
  case 13
  then have "i \<notin> {0, 1, 2, 3, 4, 5, 6, 7, 9, 16, 19, 20}" and i: "32 \<le> unat i" "unat i \<le> 255"
    by (auto simp: word_le_nat_alt)
  then show ?thesis
    using 13 assms(1)
    by (auto simp: idt_index_def nth_checked_def idt_entries_def unat_minus_32 nth_append)
      (auto simp: wf_idt_def)
qed (simp_all add: idt_index_def idt_entries_def idt_exceptions_def)

lemma idt_index_mut_entry:
  assumes "wf_idt t" and "indexable i"
  shows "\<exists>e w. idt_index_mut t i = Inr (e, w) \<and> idt_index t i = Inr e
    \<and> (\<forall>e'. wf_idt (w e') \<and> idt_entries (w e') = (idt_entries t)[unat i := erase e'])"
  using assms(2)
proof (cases rule: indexable_cases)
  case 13
  then have "i \<notin> {0, 1, 2, 3, 4, 5, 6, 7, 9, 16, 19, 20}" and i: "32 \<le> unat i" "unat i \<le> 255"
    by (auto simp: word_le_nat_alt)
  then show ?thesis
    using 13 assms(1)
    by (auto simp: idt_index_mut_def idt_index_def nth_checked_def idt_entries_def
        unat_minus_32 list_update_append map_update)
      (auto simp: wf_idt_def)
qed (use assms(1) in \<open>simp_all add: idt_index_mut_def idt_index_def idt_entries_def
    idt_exceptions_def wf_idt_def\<close>)

lemma erase_inj: "erase e = erase e' \<longleftrightarrow> e = (e' :: 'h InterruptEntry)"
proof
  assume "erase e = erase e'"
  moreover have "phantom e = phantom e'"
    by (cases "phantom e"; cases "phantom e'") simp
  ultimately show "e = e'"
    by (auto simp: erase_def intro: InterruptEntry.equality)
qed simp

lemma indexable_less: "indexable i \<Longrightarrow> unat i < 256"
  by (auto simp: indexable_def)

text \<open>
  The contract of \<open>Index\<close> and \<open>IndexMut\<close>: the place handed out for an index is the entry the
  index reads, writing to it changes what that index reads and nothing any other index reads.
\<close>

locale indexed_places =
  fixes wf :: "'t \<Rightarrow> bool"
    and valid :: "usize \<Rightarrow> bool"
    and idx :: "'t \<Rightarrow> usize \<Rightarrow> panic + 'e"
    and idx_mut :: "'t \<Rightarrow> usize \<Rightarrow> panic + 'e \<times> ('e \<Rightarrow> 't)"
  assumes place: "wf t \<Longrightarrow> valid i \<Longrightarrow> \<exists>e w. idx_mut t i = Inr (e, w) \<and> idx t i = Inr e"
    and place_wf: "wf t \<Longrightarrow> idx_mut t i = Inr (e, w) \<Longrightarrow> wf (w e')"
    and place_same: "wf t \<Longrightarrow> idx_mut t i = Inr (e, w) \<Longrightarrow> idx (w e') i = Inr e'"
    and place_other: "wf t \<Longrightarrow> idx_mut t i = Inr (e, w) \<Longrightarrow> j \<noteq> i \<Longrightarrow> idx (w e') j = idx t j"
begin

lemma write_read_back:
  "wf t \<Longrightarrow> idx_mut t i = Inr (e, w) \<Longrightarrow> idx (w e') j = (if j = i then Inr e' else idx t j)"
  using place_same place_other by simp

text \<open>Two writes through different indices: both stay in force, whatever their order.\<close>

lemma write_twice:
  assumes "wf t" and "valid i" and "valid j" and "i \<noteq> j"
    and "idx_mut t i = Inr (e, w)"
  obtains e1 w1 where "idx_mut (w a) j = Inr (e1, w1)" and "wf (w1 b)"
    and "idx (w1 b) i = Inr a" and "idx (w1 b) j = Inr b"
    and "\<And>k. k \<noteq> i \<Longrightarrow> k \<noteq> j \<Longrightarrow> idx (w1 b) k = idx t k"
proof -
  have wf': "wf (w a)" using assms(1,5) by (rule place_wf)
  obtain e1 w1 where w1: "idx_mut (w a) j = Inr (e1, w1)"
    using place [OF wf' assms(3)] by blast
  show ?thesis
    using that [OF w1] place_wf [OF wf' w1] assms(4)
      write_read_back [OF wf' w1] write_read_back [OF assms(1,5)]
    by simp
qed

end

interpretation idt: indexed_places wf_idt indexable idt_index idt_index_mut
proof
  fix t :: InterruptDescriptorTable and i j :: usize and e e' :: "HandlerFunc InterruptEntry" and w
  show "\<exists>e w. idt_index_mut t i = Inr (e, w) \<and> idt_index t i = Inr e" if "wf_idt t" "indexable i"
    using idt_index_mut_entry [OF that] by blast
next
  fix t :: InterruptDescriptorTable and i j :: usize and e e' :: "HandlerFunc InterruptEntry" and w
  assume t: "wf_idt t" and m: "idt_index_mut t i = Inr (e, w)"
  then have i: "indexable i"
    using idt_index_mut_not_indexable by fastforce
  with t m have w: "wf_idt (w e')" and ents: "idt_entries (w e') = (idt_entries t)[unat i := erase e']"
    using idt_index_mut_entry [OF t i] by auto
  show "wf_idt (w e')" by (rule w)
  have len: "unat i < length (idt_entries t)"
    using t i by (simp add: indexable_less)
  obtain e2 where e2: "idt_index (w e') i = Inr e2" and "idt_entries (w e') ! unat i = erase e2"
    using idt_index_entry [OF w i] by blast
  then have "erase e2 = erase e'" using ents len by simp
  then show "idt_index (w e') i = Inr e'" using e2 by (simp add: erase_inj)
  show "idt_index (w e') j = idt_index t j" if "j \<noteq> i"
  proof (cases "indexable j")
    case True
    obtain a where a: "idt_index (w e') j = Inr a" and a': "idt_entries (w e') ! unat j = erase a"
      using idt_index_entry [OF w True] by blast
    obtain b where b: "idt_index t j = Inr b" and b': "idt_entries t ! unat j = erase b"
      using idt_index_entry [OF t True] by blast
    have "unat j \<noteq> unat i" using that by (simp add: word_eq_nat_iff)
    then have "erase a = erase b" using a' b' ents by simp
    then show ?thesis using a b by (simp add: erase_inj)
  next
    case False
    then show ?thesis by (simp add: idt_index_not_indexable)
  qed
qed

lemma index_mut_write_back: "idt_index_mut t i = Inr (e, place) \<Longrightarrow> place e = t"
  by (auto simp: idt_index_mut_def nth_checked_def split: if_splits)

section \<open>Properties\<close>

text \<open>
  C29: The table keeps its shape and its entries are independent places. \<open>new\<close> builds a table of
  2048 bytes without a panic; every place \<open>index_mut\<close> hands out, written, gives again such a table, in
  which that index reads the new entry and every other index what it read before; writing back
  what was there changes nothing.
\<close>

theorem idt_places:
  "(\<exists>t. idt_new pr = Inr t \<and> wf_idt t \<and> length (idt_bytes t) = 2048)
    \<and> (wf_idt t \<and> idt_index_mut t i = Inr (e, place) \<longrightarrow>
        wf_idt (place e') \<and> length (idt_bytes (place e')) = 2048 \<and> idt_index (place e') i = Inr e'
        \<and> (\<forall>j. j \<noteq> i \<longrightarrow> idt_index (place e') j = idt_index t j) \<and> place e = t)"
proof (intro conjI impI)
  obtain t0 where "idt_new pr = Inr t0" "wf_idt t0" using idt_new_eq by blast
  then show "\<exists>t. idt_new pr = Inr t \<and> wf_idt t \<and> length (idt_bytes t) = 2048"
    using length_idt_bytes by blast
  assume a: "wf_idt t \<and> idt_index_mut t i = Inr (e, place)"
  then have t: "wf_idt t" and m: "idt_index_mut t i = Inr (e, place)" by simp_all
  show "wf_idt (place e')" "idt_index (place e') i = Inr e'" "\<forall>j. j \<noteq> i \<longrightarrow> idt_index (place e') j = idt_index t j"
    using idt.place_wf [OF t m] idt.place_same [OF t m] idt.place_other [OF t m] by auto
  then show "length (idt_bytes (place e')) = 2048" using length_idt_bytes by blast
  show "place e = t" by (rule index_mut_write_back [OF m])
qed

theorem idt_places_witness:
  "\<exists>t e place. idt_new Debug = Inr t \<and> idt_index_mut t 0x20 = Inr (e, place) \<and> wf_idt (place (handler_entry 8 0xc0021400))
    \<and> idt_index (place (handler_entry 8 0xc0021400)) 0x20 = Inr (handler_entry 8 0xc0021400)"
proof -
  obtain t where t: "idt_new Debug = Inr t" "wf_idt t" using idt_new_eq by blast
  have "indexable 0x20" by (simp add: indexable_def)
  then obtain e place where m: "idt_index_mut t 0x20 = Inr (e, place)" using idt.place [OF t(2)] by blast
  then show ?thesis using idt_places [of Debug t "0x20" e place "handler_entry 8 0xc0021400"] t by blast
qed

text \<open>
  \<open>InterruptOption::new\<close> never panics and puts every argument where the processor looks
  for it: trap flag, privilege level and present bit read back as given, and the remaining bits are
  those of a 32-bit gate.
\<close>

theorem option_new_reads_back:
  "\<exists>o'. option_new pr trap l present = Inr o' \<and> is_trap pr o' = Inr trap
    \<and> privilege_level pr o' = Inr (ring_u16 l) \<and> is_present pr o' = Inr present
    \<and> (\<forall>k. unat k < 16 \<and> k \<notin> {8, 13, 14, 15} \<longrightarrow> get_bit pr (opt_bits o') k = get_bit pr (0x0E00 :: u16) k)"
proof -
  have fit: "fits_in (15 - 13) (ring_u16 l)" using ring_u16_fits by simp
  obtain y where y: "chain (set_bit pr (0x0E00 :: u16) 8 trap) (\<lambda>x1.
      chain (set_bits pr x1 (Included 13, Included 14) (ring_u16 l)) (\<lambda>x2. set_bit pr x2 15 present)) = Inr y"
    and r: "get_bit pr y 8 = Inr trap"
      "get_bits pr y (Included 13, Included 14) = Inr (ring_u16 l)" "get_bit pr y 15 = Inr present"
    and other: "\<forall>k. unat k < 16 \<and> k \<noteq> 8 \<and> k \<noteq> 15 \<and> (unat k < 13 \<or> 15 \<le> unat k)
      \<longrightarrow> get_bit pr y k = get_bit pr (0x0E00 :: u16) k"
    using u16.flag_field_flag [OF dpl_field fit, of 8 15 pr "0x0E00" trap present] by auto
  have "option_new pr trap l present = Inr (InterruptOption y)"
    using y by (auto simp: option_new_def set_trap_def set_privilege_level_def set_present_def
        chain_eq_Inr)
  moreover have "get_bit pr y k = get_bit pr (0x0E00 :: u16) k" if "unat k < 16" "k \<notin> {8, 13, 14, 15}" for k
    using other that by (auto simp: word_eq_nat_iff)
  ultimately show ?thesis
    using r by (auto simp: is_trap_def privilege_level_def is_present_def)
qed

theorem option_new_reads_back_witness:
  "\<exists>o'. option_new Debug False Ring0 True = Inr o' \<and> is_present Debug o' = Inr True
    \<and> get_bit Debug (opt_bits o') 9 = get_bit Debug (0x0E00 :: u16) 9"
  using option_new_reads_back [of Debug False Ring0 True] by fastforce

text \<open>
  C28: the table is 2048 bytes long, and indexing agrees with the memory layout: an entry
  reached through \<open>index(i)\<close> is the one that lies at byte offset \<open>8 * i\<close>, so the vector number in
  the source is the vector number of the processor.
\<close>

theorem idt_index_is_vector:
  assumes "wf_idt t" and "idt_index t i = Inr e"
  shows "length (idt_bytes t) = unat size_of_idt \<and> unat i < 256
    \<and> take 8 (drop (8 * unat i) (idt_bytes t)) = entry_bytes e"
proof -
  have i: "indexable i"
    using assms(2) idt_index_not_indexable by fastforce
  then have "idt_entries t ! unat i = erase e"
    using idt_index_entry [OF assms(1) i] assms(2) by auto
  then show ?thesis
    using assms(1) indexable_less [OF i]
    by (simp add: size_of_idt_def idt_bytes_def concat_slice length_concat_const [where n = 8])
qed

theorem idt_index_is_vector_witness:
  "\<exists>t e. idt_new Debug = Inr t \<and> idt_index t 0x21 = Inr e
    \<and> length (idt_bytes t) = unat size_of_idt \<and> unat (0x21 :: usize) < 256
    \<and> take 8 (drop (8 * unat (0x21 :: usize)) (idt_bytes t)) = entry_bytes e"
proof -
  obtain t where t: "idt_new Debug = Inr t" "wf_idt t"
    using idt_new_eq by blast
  moreover have "indexable 0x21" by (simp add: indexable_def)
  ultimately obtain e where "idt_index t 0x21 = Inr e"
    using idt_index_entry by blast
  then show ?thesis
    using t idt_index_is_vector [OF t(2), of "0x21" e] by blast
qed

text \<open>
  \<open>index\<close> and \<open>index_mut\<close> accept exactly the vectors without an error code that may
  return: 0 to 7, 9, 16, 19, 20 and 32 to 255. Every other index panics, with the message of its
  class: reserved, pushes an error code, diverging, or beyond the table.
\<close>

theorem idt_index_domain:
  assumes "wf_idt t"
  shows "if unat i \<in> {0..7} \<union> {9, 16, 19, 20} \<union> {32..255}
    then \<exists>e w. idt_index t i = Inr e \<and> idt_index_mut t i = Inr (e, w)
    else idt_index t i = Inl (index_panic i) \<and> idt_index_mut t i = Inl (index_panic i)"
  using idt.place [OF assms, of i] idt_index_not_indexable [of i t] idt_index_mut_not_indexable [of i t]
  unfolding indexable_def by auto

theorem idt_index_domain_witness:
  "\<exists>t. idt_new Release = Inr t \<and> idt_index_mut t 14 =
     Inl (PanicMsg (''entry '' @ show_dec (14 :: usize) @ '' is an exception with error code''))"
proof -
  obtain t where t: "idt_new Release = Inr t" "wf_idt t"
    using idt_new_eq by blast
  then show ?thesis
    using idt_index_domain [OF t(2), of 14] by (simp add: index_panic_def)
qed

text \<open>
  C27: installing a handler through \<open>index_mut\<close> and \<open>set_handle_fn\<close>: the processor then finds
  at that vector a present 32-bit interrupt gate of privilege level 0 that leads to the handler's
  address in the current code segment, and the gates of all other vectors are unchanged.
\<close>

theorem install_handler_gate:
  assumes "wf_idt t" and "idt_index_mut t i = Inr (e, place)"
  shows "\<exists>e'. set_handle_fn pr e (HandlerFunc h) m = Some (Done e' m) \<and> entry_pointer e' = h
    \<and> wf_idt (place e')
    \<and> gate_at (idt_bytes (place e')) (unat i) = \<lparr>gate_offset = h, gate_segment = cs_reg m,
        gate_type = 14, gate_dpl = 0, gate_present = True\<rparr>
    \<and> (\<forall>v < 256. v \<noteq> unat i \<longrightarrow> gate_at (idt_bytes (place e')) v = gate_at (idt_bytes t) v)"
proof -
  have i: "indexable i"
    using assms(2) idt_index_mut_not_indexable by fastforce
  let ?e = "handler_entry (cs_reg m) h :: HandlerFunc InterruptEntry"
  have wf: "wf_idt (place ?e)" and ents: "idt_entries (place ?e) = (idt_entries t)[unat i := erase ?e]"
    using idt_index_mut_entry [OF assms(1) i] assms(2) by auto
  have "gate_at (idt_bytes (place ?e)) (unat i) = \<lparr>gate_offset = h, gate_segment = cs_reg m,
        gate_type = 14, gate_dpl = 0, gate_present = True\<rparr>"
    using wf ents assms(1) indexable_less [OF i] by (simp add: gate_at_entries decode_handler_entry)
  moreover have "gate_at (idt_bytes (place ?e)) v = gate_at (idt_bytes t) v" if "v < 256" "v \<noteq> unat i" for v
    using wf ents assms(1) that by (simp add: gate_at_entries)
  moreover have "entry_pointer ?e = h"
    using split_pointer [of h] by (simp add: entry_pointer_def handler_entry_def or.commute)
  ultimately show ?thesis
    using wf by (intro exI [of _ ?e]) (simp add: set_handle_addr_run)
qed

theorem install_handler_gate_witness:
  "\<exists>t e place e'. idt_new Debug = Inr t \<and> idt_index_mut t 0x20 = Inr (e, place)
    \<and> set_handle_fn Debug e (HandlerFunc 0xc0023456)
        \<lparr>ram = \<lambda>_. 0, dev = \<lambda>_ _. 0, io = [], cs_reg = 8, esp_reg = 0, cr3_reg = 0,
         idtr = \<lparr>limit = 0, base = 0\<rparr>, intr_flag = False\<rparr> = Some (Done e'
        \<lparr>ram = \<lambda>_. 0, dev = \<lambda>_ _. 0, io = [], cs_reg = 8, esp_reg = 0, cr3_reg = 0,
         idtr = \<lparr>limit = 0, base = 0\<rparr>, intr_flag = False\<rparr>)
    \<and> gate_offset (gate_at (idt_bytes (place e')) (unat (0x20 :: usize))) = 0xc0023456"
proof -
  let ?m = "\<lparr>ram = \<lambda>_. 0, dev = \<lambda>_ _. 0, io = [], cs_reg = 8, esp_reg = 0, cr3_reg = 0,
         idtr = \<lparr>limit = 0, base = 0\<rparr>, intr_flag = False\<rparr> :: machine"
  obtain t where t: "idt_new Debug = Inr t" "wf_idt t"
    using idt_new_eq by blast
  moreover have "indexable 0x20" by (simp add: indexable_def)
  ultimately obtain e w where w: "idt_index_mut t 0x20 = Inr (e, w)"
    using idt.place by blast
  show ?thesis
    using t w install_handler_gate [OF t(2) w, of Debug "0xc0023456" ?m]
    by (metis gate.select_convs(1))
qed

text \<open>
  \<open>update\<close> loads a table register whose limit is the offset of the table's last byte:
  the processor accepts exactly the vectors 0 to 255.
\<close>

theorem idt_update_covers_table:
  assumes "wf_idt t"
  shows "\<exists>m'. idt_update pr addr m = Some (Done () m')
    \<and> m' = m\<lparr>idtr := \<lparr>limit = 2047, base = addr\<rparr>\<rparr>
    \<and> unat (limit (idtr m')) + 1 = length (idt_bytes t)
    \<and> (\<forall>v. 8 * v + 7 \<le> unat (limit (idtr m')) \<longleftrightarrow> v < 256)"
  using assms by (auto simp: idt_update_def size_of_idt_def arith_ok lidt_def run_basic)

theorem idt_update_covers_table_witness:
  "\<exists>t m'. idt_new Debug = Inr t \<and> idt_update Debug 0xc0040000
     \<lparr>ram = \<lambda>_. 0, dev = \<lambda>_ _. 0, io = [], cs_reg = 8, esp_reg = 0, cr3_reg = 0,
      idtr = \<lparr>limit = 0, base = 0\<rparr>, intr_flag = False\<rparr> = Some (Done () m')
     \<and> unat (limit (idtr m')) + 1 = length (idt_bytes t)"
proof -
  obtain t where t: "idt_new Debug = Inr t" "wf_idt t"
    using idt_new_eq by blast
  then show ?thesis
    using idt_update_covers_table [OF t(2)] by metis
qed

end
