(* ===== verification/RondSingleton.thy ===== *)
theory RondSingleton
  imports RondPrelude
begin

text \<open>
  Lazily initialised statics, \<open>src/kernel/src/utils/singleton.rs\<close>. The first part runs the code
  on one thread of control, with the cell as a part of the kernel state; the second part is the
  same code as an interleaving of the atomic accesses of any number of threads.
\<close>

section \<open>The cell\<close>

definition SINGLE_UNINIT :: u8 where "SINGLE_UNINIT = 0"
definition SINGLE_INITING :: u8 where "SINGLE_INITING = 1"
definition SINGLE_INITED :: u8 where "SINGLE_INITED = 2"

lemmas single_states = SINGLE_UNINIT_def SINGLE_INITING_def SINGLE_INITED_def

text \<open>\<open>MaybeUninit\<close> is an option: \<open>None\<close> for bytes that were never written.\<close>

record 'a Singleton =
  inited :: u8
  data :: "'a option"

definition UNINIT :: "'a Singleton" where
  "UNINIT = \<lparr>inited = SINGLE_UNINIT, data = None\<rparr>"

definition singleton_default :: "'a Singleton" where
  "singleton_default = \<lparr>inited = SINGLE_UNINIT, data = None\<rparr>"

text \<open>\<open>AtomicU8::compare_exchange\<close>: \<open>Inr\<close> is \<open>Ok\<close>, \<open>Inl\<close> is \<open>Err\<close>, both with the value found.\<close>

definition compare_exchange :: "u8 \<Rightarrow> u8 \<Rightarrow> u8 \<Rightarrow> (u8 + u8) \<times> u8" where
  "compare_exchange current new found = (if found = current then (Inr found, new) else (Inl found, found))"

section \<open>Access to a static\<close>

text \<open>
  A static is a part of the kernel state, given by its selector and its update function; \<open>dflt\<close> is
  the type's \<open>Default::default\<close>.
\<close>

type_synonym ('a, 's) static = "('s \<Rightarrow> 'a Singleton) \<times> (('a Singleton \<Rightarrow> 'a Singleton) \<Rightarrow> 's \<Rightarrow> 's)"

definition cas_inited :: "('a, 's) static \<Rightarrow> u8 \<Rightarrow> u8 \<Rightarrow> (u8 + u8, 's) comp" where
  "cas_inited S current new s =
     (case compare_exchange current new (inited (fst S s)) of (r, v) \<Rightarrow> Some (Done r (snd S (inited_update (\<lambda>_. v)) s)))"

definition load_inited :: "('a, 's) static \<Rightarrow> (u8, 's) comp" where
  "load_inited S = gets (\<lambda>s. inited (fst S s))"

definition store_inited :: "('a, 's) static \<Rightarrow> u8 \<Rightarrow> (unit, 's) comp" where
  "store_inited S v = modify (snd S (inited_update (\<lambda>_. v)))"

definition write_data :: "('a, 's) static \<Rightarrow> 'a \<Rightarrow> (unit, 's) comp" where
  "write_data S v = modify (snd S (data_update (\<lambda>_. Some v)))"

partial_function (option) init_loop :: "('a, 's) static \<Rightarrow> ('a, 's) comp \<Rightarrow> 's \<Rightarrow> (unit, 's) outcome option" where
  "init_loop S dflt s =
     bnd (cas_inited S SINGLE_UNINIT SINGLE_INITING) (\<lambda>stat s1.
       if stat = Inl SINGLE_INITED then ret () s1
       else if stat = Inl SINGLE_UNINIT then init_loop S dflt s1
       else if stat = Inl SINGLE_INITING then
         bnd (spin_until (bnd (load_inited S) (\<lambda>v. ret (v \<noteq> SINGLE_INITING)))) (\<lambda>_ s2. init_loop S dflt s2) s1
       else
         bnd dflt (\<lambda>v. bnd (write_data S v) (\<lambda>_. bnd (store_inited S SINGLE_INITED) (\<lambda>_ s3. init_loop S dflt s3))) s1) s"

definition init :: "('a, 's) static \<Rightarrow> ('a, 's) comp \<Rightarrow> (unit, 's) comp" where
  "init S dflt = andthen (init_loop S dflt) (bnd (load_inited S) (\<lambda>v. check (v = SINGLE_INITED)))"

text \<open>The reference \<open>get\<close> returns, read: undefined behaviour when the data was never written.\<close>

definition read_data :: "('a, 's) static \<Rightarrow> ('a, 's) comp" where
  "read_data S = bnd (gets (\<lambda>s. data (fst S s))) (\<lambda>d. case d of None \<Rightarrow> undef | Some v \<Rightarrow> ret v)"

definition singleton_get :: "('a, 's) static \<Rightarrow> ('a, 's) comp \<Rightarrow> ('a, 's) comp" where
  "singleton_get S dflt = andthen (init S dflt) (read_data S)"

definition deref :: "('a, 's) static \<Rightarrow> ('a, 's) comp \<Rightarrow> ('a, 's) comp" where
  "deref S dflt = singleton_get S dflt"

text \<open>
  A method call through \<open>get_mut\<close>: the method receives the data and returns it updated, and the
  update goes back to the cell.
\<close>

definition get_mut :: "('a, 's) static \<Rightarrow> ('a, 's) comp \<Rightarrow> ('a \<Rightarrow> ('b \<times> 'a, 's) comp) \<Rightarrow> ('b, 's) comp" where
  "get_mut S dflt method =
     andthen (init S dflt) (bnd (read_data S) (\<lambda>v. bnd (method v) (\<lambda>(r, v'). andthen (write_data S v') (ret r))))"

text \<open>\<open>drop\<close>: the condition as written; dropping data that was never written is undefined behaviour.\<close>

definition singleton_drop :: "('a \<Rightarrow> (unit, 's) comp) \<Rightarrow> 'a Singleton \<Rightarrow> (unit, 's) comp" where
  "singleton_drop drop_t self =
     (if inited self \<noteq> SINGLE_INITED
      then (case data self of None \<Rightarrow> undef | Some v \<Rightarrow> drop_t v)
      else ret ())"

section \<open>One thread of control\<close>

text \<open>
  The laws of a static: selector and update address one part of the state.
\<close>

locale static_cell =
  fixes cell :: "'s \<Rightarrow> 'a Singleton"
    and upd :: "('a Singleton \<Rightarrow> 'a Singleton) \<Rightarrow> 's \<Rightarrow> 's"
    and dflt :: "('a, 's) comp"
  assumes cell_upd [simp]: "cell (upd f s) = f (cell s)"
    and upd_upd [simp]: "upd f (upd g s) = upd (f \<circ> g) s"
    and upd_id: "upd (\<lambda>c. c) s = s"
    and upd_local: "f (cell s) = g (cell s) \<Longrightarrow> upd f s = upd g s"
begin

abbreviation S :: "('a, 's) static" where "S \<equiv> (cell, upd)"

lemma upd_same: "f (cell s) = cell s \<Longrightarrow> upd f s = s"
  using upd_local [of f s "\<lambda>c. c"] by (simp add: upd_id)

lemma init_loop_inited:
  assumes "inited (cell s) = SINGLE_INITED"
  shows "init_loop S dflt s = Some (Done () s)"
  using assms
  by (subst init_loop.simps)
    (simp add: bnd_def cas_inited_def compare_exchange_def single_states upd_same run_basic)

lemma init_inited:
  assumes "inited (cell s) = SINGLE_INITED"
  shows "init S dflt s = Some (Done () s)"
  using assms by (simp add: init_def andthen_run init_loop_inited load_inited_def run_basic)

text \<open>First use: mark, construct, publish; \<open>default\<close> runs exactly once.\<close>

definition started :: "'s \<Rightarrow> 's" where
  "started = upd (inited_update (\<lambda>_. SINGLE_INITING))"

definition published :: "'a \<Rightarrow> 's \<Rightarrow> 's" where
  "published v = upd (\<lambda>c. c\<lparr>inited := SINGLE_INITED, data := Some v\<rparr>)"

lemma init_loop_uninit:
  assumes "inited (cell s) = SINGLE_UNINIT" and "dflt (started s) = Some (Done v s')"
  shows "init_loop S dflt s = Some (Done () (published v s'))"
proof -
  have p: "upd (inited_update (\<lambda>_. SINGLE_INITED)) (upd (data_update (\<lambda>_. Some v)) s') = published v s'"
    unfolding published_def upd_upd by (rule upd_local) simp
  have "inited (cell (published v s')) = SINGLE_INITED" by (simp add: published_def)
  then have "init_loop S dflt (published v s') = Some (Done () (published v s'))"
    by (rule init_loop_inited)
  moreover have "init_loop S dflt s = init_loop S dflt (published v s')"
    using assms
    by (subst init_loop.simps)
      (simp add: bnd_def cas_inited_def compare_exchange_def run_basic write_data_def store_inited_def p started_def
        del: upd_upd)
  ultimately show ?thesis by simp
qed

lemma init_uninit:
  assumes "inited (cell s) = SINGLE_UNINIT" and "dflt (started s) = Some (Done v s')"
  shows "init S dflt s = Some (Done () (published v s'))"
  by (simp add: init_def andthen_run init_loop_uninit [OF assms] load_inited_def run_basic published_def)

lemma init_uninit_fails:
  assumes "inited (cell s) = SINGLE_UNINIT" and "dflt (started s) = Some (Panicked p s')"
  shows "init S dflt s = Some (Panicked p s')"
proof -
  have "init_loop S dflt s = Some (Panicked p s')"
    using assms
    by (subst init_loop.simps)
      (simp add: bnd_def cas_inited_def compare_exchange_def run_basic started_def)
  then show ?thesis by (simp add: init_def andthen_run)
qed

text \<open>A use while the default is being constructed never returns.\<close>

lemma init_initing:
  assumes "inited (cell s) = SINGLE_INITING"
  shows "init S dflt s = None"
proof -
  have "spin_until (bnd (load_inited S) (\<lambda>v. ret (v \<noteq> SINGLE_INITING))) s = None"
    by (rule spin_until_diverges [where I = "\<lambda>s. inited (cell s) = SINGLE_INITING"])
      (use assms in \<open>simp_all add: load_inited_def run_basic\<close>)
  then have "init_loop S dflt s = None"
    using assms
    by (subst init_loop.simps)
      (simp add: bnd_def cas_inited_def compare_exchange_def single_states upd_same run_basic)
  then show ?thesis by (simp add: init_def andthen_run)
qed

definition live :: "'a \<Rightarrow> 's \<Rightarrow> bool" where
  "live v s \<longleftrightarrow> cell s = \<lparr>inited = SINGLE_INITED, data = Some v\<rparr>"

lemma live_published: "live v (published v s) \<longleftrightarrow> True"
  by (simp add: live_def published_def)

text \<open>A method call on an initialised static runs the method on the data and stores its result.\<close>

lemma get_mut_live:
  assumes "live v s"
  shows "get_mut S dflt f s = bnd (f v) (\<lambda>(r, v'). andthen (write_data S v') (ret r)) s"
  using assms
  by (simp add: get_mut_def andthen_run init_inited live_def read_data_def bnd_assoc)

lemma get_mut_first:
  assumes "inited (cell s) = SINGLE_UNINIT" and "dflt (started s) = Some (Done v s')"
  shows "get_mut S dflt f s = get_mut S dflt f (published v s')"
    and "live v (published v s')"
  by (simp_all add: get_mut_def andthen_run init_uninit [OF assms] init_inited live_published)
    (simp_all add: published_def init_inited andthen_run)

lemma get_mut_done:
  assumes "live v s" and "f v s = Some (Done (r, v') s')"
  shows "get_mut S dflt f s = Some (Done r (upd (data_update (\<lambda>_. Some v')) s'))"
  using assms by (simp add: get_mut_live bnd_run write_data_def run_basic)

lemma get_live:
  assumes "live v s"
  shows "singleton_get S dflt s = Some (Done v s)"
  using assms by (simp add: singleton_get_def andthen_run init_inited live_def read_data_def run_basic)

end

section \<open>Dropping\<close>

text \<open>
  The destructor of a singleton tests its flag the wrong way round: an uninitialised cell is
  dropped (undefined behaviour), an initialised one is not and its value is never destroyed.
\<close>

theorem singleton_drop_inverted:
  "singleton_drop drop_t UNINIT s = Some Undefined
   \<and> singleton_drop drop_t \<lparr>inited = SINGLE_INITED, data = Some v\<rparr> s = Some (Done () s)"
  by (simp_all add: singleton_drop_def UNINIT_def single_states run_basic)

section \<open>Any number of threads\<close>

text \<open>
  The program counter of a thread inside \<open>init\<close>, one value per shared access of the source:
  the compare-and-exchange, the polling load, the construction and write of the default, the
  releasing store, the load of the assertion, and after it. The accesses are ordered by the
  acquire and release annotations, so an interleaving of them is what the threads can observe.
\<close>

datatype pc = AtCas | Polling | Constructing | Storing | Asserting | Returned | Failed

record 'a shared =
  cell :: "'a Singleton"
  pcs :: "nat \<Rightarrow> pc"
  made :: "'a list"

definition goto :: "nat \<Rightarrow> pc \<Rightarrow> 'a shared \<Rightarrow> 'a shared" where
  "goto t p s = s\<lparr>pcs := (pcs s)(t := p)\<rparr>"

definition after_cas :: "u8 + u8 \<Rightarrow> pc" where
  "after_cas r =
     (if r = Inl SINGLE_INITED then Asserting
      else if r = Inl SINGLE_UNINIT then AtCas
      else if r = Inl SINGLE_INITING then Polling
      else Constructing)"

text \<open>\<open>makes v\<close>: \<open>T::default()\<close> may return \<open>v\<close>.\<close>

inductive thread_step :: "('a \<Rightarrow> bool) \<Rightarrow> nat \<Rightarrow> 'a shared \<Rightarrow> 'a shared \<Rightarrow> bool"
  for makes :: "'a \<Rightarrow> bool" and t :: nat where
  cas: "pcs s t = AtCas \<Longrightarrow> compare_exchange SINGLE_UNINIT SINGLE_INITING (inited (cell s)) = (r, v) \<Longrightarrow>
    thread_step makes t s (goto t (after_cas r) (s\<lparr>cell := (cell s)\<lparr>inited := v\<rparr>\<rparr>))"
| poll: "pcs s t = Polling \<Longrightarrow>
    thread_step makes t s (goto t (if inited (cell s) = SINGLE_INITING then Polling else AtCas) s)"
| construct: "pcs s t = Constructing \<Longrightarrow> makes v \<Longrightarrow>
    thread_step makes t s (goto t Storing (s\<lparr>cell := (cell s)\<lparr>data := Some v\<rparr>, made := v # made s\<rparr>))"
| store: "pcs s t = Storing \<Longrightarrow>
    thread_step makes t s (goto t AtCas (s\<lparr>cell := (cell s)\<lparr>inited := SINGLE_INITED\<rparr>\<rparr>))"
| assertion: "pcs s t = Asserting \<Longrightarrow>
    thread_step makes t s (goto t (if inited (cell s) = SINGLE_INITED then Returned else Failed) s)"

inductive_cases thread_stepE: "thread_step makes t s s'"

definition threads_init :: "'a shared \<Rightarrow> bool" where
  "threads_init s \<longleftrightarrow> cell s = UNINIT \<and> pcs s = (\<lambda>_. AtCas) \<and> made s = []"

definition threads_step :: "('a \<Rightarrow> bool) \<Rightarrow> 'a shared \<Rightarrow> 'a shared \<Rightarrow> bool" where
  "threads_step makes s s' \<longleftrightarrow> (\<exists>t. thread_step makes t s s')"

text \<open>
  The three phases of the cell: nobody has started; one thread is constructing or about to
  publish; published.
\<close>

definition outside :: "pc \<Rightarrow> bool" where
  "outside p \<longleftrightarrow> p = AtCas \<or> p = Polling"

definition fresh_phase :: "'a shared \<Rightarrow> bool" where
  "fresh_phase s \<longleftrightarrow> cell s = UNINIT \<and> made s = [] \<and> (\<forall>t. outside (pcs s t))"

definition busy_phase :: "'a shared \<Rightarrow> bool" where
  "busy_phase s \<longleftrightarrow> inited (cell s) = SINGLE_INITING \<and>
     (\<exists>t. (\<forall>t'. t' \<noteq> t \<longrightarrow> outside (pcs s t')) \<and>
       (pcs s t = Constructing \<and> data (cell s) = None \<and> made s = []
        \<or> pcs s t = Storing \<and> (\<exists>v. data (cell s) = Some v \<and> made s = [v])))"

definition done_phase :: "'a shared \<Rightarrow> bool" where
  "done_phase s \<longleftrightarrow> inited (cell s) = SINGLE_INITED \<and> (\<exists>v. data (cell s) = Some v \<and> made s = [v])
     \<and> (\<forall>t. outside (pcs s t) \<or> pcs s t = Asserting \<or> pcs s t = Returned)"

definition phase_inv :: "'a shared \<Rightarrow> bool" where
  "phase_inv s \<longleftrightarrow> fresh_phase s \<or> busy_phase s \<or> done_phase s"

lemmas phase_defs = fresh_phase_def busy_phase_def done_phase_def outside_def

lemma goto_simps [simp]:
  "pcs (goto t p s) = (pcs s)(t := p)" "cell (goto t p s) = cell s" "made (goto t p s) = made s"
  by (simp_all add: goto_def)

lemma fresh_step:
  assumes "fresh_phase s" "thread_step makes t s s'"
  shows "fresh_phase s' \<or> busy_phase s'"
  using assms(2)
proof (cases rule: thread_step.cases)
  case (cas r v)
  have "busy_phase s'"
    using assms(1) cas unfolding busy_phase_def
    by (intro conjI exI [of _ t])
      (auto simp: fresh_phase_def UNINIT_def compare_exchange_def after_cas_def single_states)
  then show ?thesis ..
qed (use assms(1) in \<open>auto simp: phase_defs UNINIT_def single_states split: if_splits dest: spec [of _ t]\<close>)

lemma busy_step:
  assumes "busy_phase s" "thread_step makes t s s'"
  shows "busy_phase s' \<or> done_phase s'"
proof -
  obtain w where w: "\<And>t'. t' \<noteq> w \<Longrightarrow> outside (pcs s t')" "inited (cell s) = SINGLE_INITING"
      "pcs s w = Constructing \<and> data (cell s) = None \<and> made s = []
        \<or> pcs s w = Storing \<and> (\<exists>v. data (cell s) = Some v \<and> made s = [v])"
    using assms(1) by (auto simp: busy_phase_def)
  show ?thesis
    using assms(2)
  proof (cases rule: thread_step.cases)
    case (cas r v)
    have "t \<noteq> w" using cas(2) w(3) by auto
    moreover have "v = SINGLE_INITING" "after_cas r = Polling"
      using cas(3) w(2) by (auto simp: compare_exchange_def after_cas_def single_states split: if_splits)
    ultimately have "busy_phase s'"
      unfolding busy_phase_def cas(1) using w by (intro conjI exI [of _ w]) (auto simp: outside_def)
    then show ?thesis ..
  next
    case poll
    have "t \<noteq> w" using poll(2) w(3) by auto
    then have "busy_phase s'"
      unfolding busy_phase_def poll(1) using w by (intro conjI exI [of _ w]) (auto simp: outside_def)
    then show ?thesis ..
  next
    case (construct v)
    have "t = w" using construct(2) w(1) [of t] by (auto simp: outside_def)
    then have "busy_phase s'"
      unfolding busy_phase_def construct(1) using w construct(2)
      by (intro conjI exI [of _ w]) auto
    then show ?thesis ..
  next
    case store
    have "t = w" using store(2) w(1) [of t] by (auto simp: outside_def)
    then have "done_phase s'"
      using w store by (auto simp: done_phase_def outside_def)
    then show ?thesis ..
  next
    case assertion
    then show ?thesis using w(1) [of t] w(3) by (cases "t = w") (auto simp: outside_def)
  qed
qed

lemma done_step:
  assumes "done_phase s" "thread_step makes t s s'"
  shows "done_phase s'"
  using assms(2)
proof (cases rule: thread_step.cases)
  case (cas r v)
  have "v = SINGLE_INITED" "after_cas r = Asserting"
    using cas(3) assms(1)
    by (auto simp: done_phase_def compare_exchange_def after_cas_def single_states split: if_splits)
  then show ?thesis using assms(1) cas by (auto simp: done_phase_def)
next
  case (construct v)
  then show ?thesis using assms(1) by (auto simp: phase_defs dest: spec [of _ t])
next
  case store
  then show ?thesis using assms(1) by (auto simp: phase_defs dest: spec [of _ t])
qed (use assms(1) in \<open>auto simp: phase_defs single_states\<close>)

interpretation threads: invariant_system threads_init "threads_step makes" phase_inv for makes
proof
  show "phase_inv s" if "threads_init s" for s :: "'a shared"
    using that by (simp add: threads_init_def phase_inv_def fresh_phase_def outside_def)
  show "phase_inv s'" if "phase_inv s" "threads_step makes s s'" for s s' :: "'a shared"
    using that fresh_step busy_step done_step unfolding phase_inv_def threads_step_def by metis
qed

text \<open>
  C10: However many threads enter \<open>init\<close> and however their accesses interleave, the default is
  constructed at most once, the closing assertion never fails, and a thread that has returned
  finds the one value that was constructed.
\<close>

theorem init_constructs_once:
  assumes "reach threads_init (threads_step makes) s"
  shows "length (made s) \<le> 1 \<and> pcs s t \<noteq> Failed
    \<and> (pcs s t = Returned \<longrightarrow> (\<exists>v. made s = [v] \<and> cell s = \<lparr>inited = SINGLE_INITED, data = Some v\<rparr>))"
proof -
  have "phase_inv s" using threads.reach_inv [OF assms] .
  then consider "fresh_phase s" | "busy_phase s" | "done_phase s" by (auto simp: phase_inv_def)
  then have "length (made s) \<le> 1 \<and> pcs s t \<noteq> Failed \<and> (pcs s t = Returned \<longrightarrow> done_phase s)"
  proof cases
    case 2
    then obtain w where "\<forall>t'. t' \<noteq> w \<longrightarrow> outside (pcs s t')" "pcs s w = Constructing \<or> pcs s w = Storing"
      and l: "length (made s) \<le> 1"
      by (auto simp: busy_phase_def)
    then have "pcs s t \<noteq> Failed \<and> pcs s t \<noteq> Returned"
      by (cases "t = w") (auto simp: outside_def)
    then show ?thesis using l by simp
  qed (auto simp: phase_defs dest: spec [of _ t])
  then show ?thesis
    by (auto simp: done_phase_def intro: Singleton.equality)
qed

text \<open>Two threads: the second finds the flag taken and waits while the first constructs.\<close>

definition sample_start :: "nat shared" where
  "sample_start = \<lparr>cell = UNINIT, pcs = (\<lambda>_. AtCas), made = []\<rparr>"

definition sample_end :: "nat shared" where
  "sample_end = \<lparr>cell = \<lparr>inited = SINGLE_INITED, data = Some 7\<rparr>, pcs = (\<lambda>_. AtCas)(1 := Polling, 0 := Returned), made = [7]\<rparr>"

lemma threads_stepI:
  "thread_step makes t s s' \<Longrightarrow> s' = u \<Longrightarrow> threads_step makes s u"
  by (auto simp: threads_step_def)

lemma sample_reachable: "reach threads_init (threads_step (\<lambda>v. v = 7)) sample_end"
proof -
  let ?st = "threads_step (\<lambda>v. v = (7::nat))"
  let ?s = "\<lambda>i d p0 p1 vs. \<lparr>cell = \<lparr>inited = i, data = d\<rparr>, pcs = (\<lambda>_. AtCas)(1 := p1, 0 := p0), made = vs\<rparr>"
  note sd = single_states goto_def after_cas_def compare_exchange_def fun_upd_twist
  have r: "reach threads_init ?st sample_start"
    by (rule reach_init) (simp add: threads_init_def sample_start_def)
  have s1: "?st sample_start (?s 1 None Constructing AtCas [])"
    by (rule threads_stepI [OF thread_step.cas [where t = 0 and r = "Inr 0" and v = 1]])
      (auto simp: sample_start_def UNINIT_def sd)
  have s2: "?st (?s 1 None Constructing AtCas []) (?s 1 None Constructing Polling [])"
    by (rule threads_stepI [OF thread_step.cas [where t = 1 and r = "Inl 1" and v = 1]]) (simp_all add: sd)
  have s3: "?st (?s 1 None Constructing Polling []) (?s 1 (Some 7) Storing Polling [7])"
    by (rule threads_stepI [OF thread_step.construct [where t = 0 and v = 7]]) (simp_all add: sd)
  have s4: "?st (?s 1 (Some 7) Storing Polling [7]) (?s 2 (Some 7) AtCas Polling [7])"
    by (rule threads_stepI [OF thread_step.store [where t = 0]]) (simp_all add: sd)
  have s5: "?st (?s 2 (Some 7) AtCas Polling [7]) (?s 2 (Some 7) Asserting Polling [7])"
    by (rule threads_stepI [OF thread_step.cas [where t = 0 and r = "Inl 2" and v = 2]]) (simp_all add: sd)
  have s6: "?st (?s 2 (Some 7) Asserting Polling [7]) sample_end"
    by (rule threads_stepI [OF thread_step.assertion [where t = 0]]) (simp_all add: sample_end_def sd)
  show ?thesis
    by (rule reach_step [OF reach_step [OF reach_step [OF reach_step [OF reach_step [OF reach_step
      [OF r s1] s2] s3] s4] s5] s6])
qed

theorem init_constructs_once_witness:
  "reach threads_init (threads_step (\<lambda>v. v = 7)) sample_end \<and> pcs sample_end 0 = Returned
    \<and> (\<exists>v. made sample_end = [v] \<and> cell sample_end = \<lparr>inited = SINGLE_INITED, data = Some v\<rparr>)"
  using init_constructs_once [OF sample_reachable, of 0] sample_reachable by (simp add: sample_end_def)

subsection \<open>Progress\<close>

definition runs_to :: "('a \<Rightarrow> bool) \<Rightarrow> 'a shared \<Rightarrow> 'a shared \<Rightarrow> bool" where
  "runs_to makes = (threads_step makes)\<^sup>*\<^sup>*"

lemma runs_to_step: "thread_step makes t s s' \<Longrightarrow> runs_to makes s' u \<Longrightarrow> runs_to makes s u"
  unfolding runs_to_def threads_step_def by (rule converse_rtranclp_into_rtranclp) blast+

lemma runs_to_refl: "runs_to makes s s"
  by (simp add: runs_to_def)

lemma done_returns:
  assumes "done_phase s"
  shows "\<exists>u. runs_to makes s u \<and> pcs u t = Returned"
proof -
  have asserting: "\<exists>u. runs_to makes s u \<and> pcs u t = Returned" if "done_phase s" "pcs s t = Asserting" for s
    using runs_to_step [OF thread_step.assertion runs_to_refl, of s t makes] that
    by (intro exI [of _ "goto t Returned s"]) (simp add: done_phase_def)
  have trying: "\<exists>u. runs_to makes s u \<and> pcs u t = Returned" if "done_phase s" "pcs s t = AtCas" for s
  proof -
    have "thread_step makes t s (goto t Asserting (s\<lparr>cell := (cell s)\<lparr>inited := SINGLE_INITED\<rparr>\<rparr>))"
      using thread_step.cas [of s t "Inl SINGLE_INITED" SINGLE_INITED makes] that
      by (simp add: done_phase_def compare_exchange_def after_cas_def single_states)
    then show ?thesis using asserting that(1) done_step runs_to_step by (metis goto_simps(1) fun_upd_same)
  qed
  have polling: "\<exists>u. runs_to makes s u \<and> pcs u t = Returned" if "done_phase s" "pcs s t = Polling" for s
  proof -
    have "thread_step makes t s (goto t AtCas s)"
      using thread_step.poll [of s t makes] that by (simp add: done_phase_def single_states)
    then show ?thesis using trying that(1) done_step runs_to_step by (metis goto_simps(1) fun_upd_same)
  qed
  show ?thesis
    using assms asserting trying polling runs_to_refl by (fastforce simp: done_phase_def outside_def)
qed

lemma busy_finishes:
  assumes "busy_phase s" "makes v"
  shows "\<exists>u. runs_to makes s u \<and> done_phase u"
proof -
  have storing: "\<exists>u. runs_to makes s u \<and> done_phase u" if "busy_phase s" "pcs s w = Storing" for s w
  proof -
    have st: "thread_step makes w s (goto w AtCas (s\<lparr>cell := (cell s)\<lparr>inited := SINGLE_INITED\<rparr>\<rparr>))"
      using that(2) by (rule thread_step.store)
    moreover have "\<not> busy_phase (goto w AtCas (s\<lparr>cell := (cell s)\<lparr>inited := SINGLE_INITED\<rparr>\<rparr>))"
      by (simp add: busy_phase_def single_states)
    ultimately show ?thesis using busy_step [OF that(1)] runs_to_step runs_to_refl by metis
  qed
  obtain w where "pcs s w = Constructing \<or> pcs s w = Storing" using assms(1) by (auto simp: busy_phase_def)
  then show ?thesis
  proof
    assume w: "pcs s w = Constructing"
    let ?s = "goto w Storing (s\<lparr>cell := (cell s)\<lparr>data := Some v\<rparr>, made := v # made s\<rparr>)"
    have st: "thread_step makes w s ?s" using w assms(2) by (rule thread_step.construct)
    moreover have "busy_phase ?s" using busy_step [OF assms(1) st] assms(1)
      by (auto simp: done_phase_def busy_phase_def single_states)
    ultimately show ?thesis using storing [of ?s w] runs_to_step by fastforce
  qed (use assms(1) storing in blast)
qed

text \<open>
  C34: \<open>init\<close> never gets stuck: from every reachable state, and for every thread, the remaining
  accesses can be scheduled so that the thread returns, provided the default can be constructed.
\<close>

theorem init_can_return:
  assumes "reach threads_init (threads_step makes) s" and "makes v"
  shows "\<exists>u. (threads_step makes)\<^sup>*\<^sup>* s u \<and> pcs u t = Returned"
proof -
  have trans: "runs_to makes s u \<Longrightarrow> runs_to makes u w \<Longrightarrow> runs_to makes s w" for s u w
    by (simp add: runs_to_def)
  have busy: "\<exists>u. runs_to makes s u \<and> pcs u t = Returned" if "busy_phase s" for s
    using busy_finishes [where makes = makes, OF that, of v] assms(2) done_returns trans by metis
  have trying: "\<exists>u. runs_to makes s u \<and> pcs u t = Returned" if "fresh_phase s" "pcs s t = AtCas" for s
  proof -
    have st: "thread_step makes t s (goto t Constructing (s\<lparr>cell := (cell s)\<lparr>inited := SINGLE_INITING\<rparr>\<rparr>))"
      using thread_step.cas [of s t "Inr SINGLE_UNINIT" SINGLE_INITING makes] that
      by (simp add: fresh_phase_def UNINIT_def compare_exchange_def after_cas_def)
    moreover have "\<not> fresh_phase (goto t Constructing (s\<lparr>cell := (cell s)\<lparr>inited := SINGLE_INITING\<rparr>\<rparr>))"
      by (auto simp: fresh_phase_def outside_def dest: spec [of _ t])
    ultimately show ?thesis using busy fresh_step [OF that(1)] runs_to_step by metis
  qed
  have polling: "\<exists>u. runs_to makes s u \<and> pcs u t = Returned" if "fresh_phase s" "pcs s t = Polling" for s
  proof -
    have "thread_step makes t s (goto t AtCas s)"
      using thread_step.poll [of s t makes] that by (simp add: fresh_phase_def UNINIT_def single_states)
    moreover have "fresh_phase (goto t AtCas s)" using that(1) by (auto simp: fresh_phase_def outside_def)
    ultimately show ?thesis using trying runs_to_step by (metis goto_simps(1) fun_upd_same)
  qed
  have "phase_inv s" using threads.reach_inv [OF assms(1)] .
  then have "\<exists>u. runs_to makes s u \<and> pcs u t = Returned"
    using busy done_returns trying polling unfolding phase_inv_def fresh_phase_def outside_def by metis
  then show ?thesis by (simp add: runs_to_def)
qed

theorem init_can_return_witness:
  "\<exists>u. (threads_step (\<lambda>v. v = 7))\<^sup>*\<^sup>* sample_end u \<and> pcs u 1 = Returned"
  by (rule init_can_return [OF sample_reachable, of 7]) simp

subsection \<open>The sequential model runs as a thread\<close>

text \<open>
  A run of \<open>init\<close> in the sequential model that returns is a run of one thread of the step relation
  that starts with the same cell: it ends after the assertion, with the cell the sequential model
  has, and no other thread has moved.
\<close>

definition runs_as_thread :: "('a, 's) static \<Rightarrow> ('a, 's) comp \<Rightarrow> bool" where
  "runs_as_thread S dflt \<longleftrightarrow> (\<forall>s s' x t. init S dflt s = Some (Done () s') \<longrightarrow> cell x = fst S s \<longrightarrow> pcs x t = AtCas \<longrightarrow>
     (\<exists>u. (thread_step (\<lambda>v. \<exists>s1 s2. dflt s1 = Some (Done v s2)) t)\<^sup>*\<^sup>* x u \<and> pcs u t = Returned \<and> cell u = fst S s'
       \<and> (\<forall>t'. t' \<noteq> t \<longrightarrow> pcs u t' = pcs x t')))"

text \<open>The last two accesses, on a published cell.\<close>

lemma thread_returns:
  assumes "pcs x t = AtCas" "inited (cell x) = SINGLE_INITED"
  shows "\<exists>u. (thread_step makes t)\<^sup>*\<^sup>* x u \<and> pcs u t = Returned \<and> cell u = cell x \<and> (\<forall>t'. t' \<noteq> t \<longrightarrow> pcs u t' = pcs x t')"
proof -
  let ?y = "goto t Asserting (x\<lparr>cell := (cell x)\<lparr>inited := SINGLE_INITED\<rparr>\<rparr>)"
  have "compare_exchange SINGLE_UNINIT SINGLE_INITING (inited (cell x)) = (Inl SINGLE_INITED, SINGLE_INITED)"
    using assms(2) by (simp add: compare_exchange_def single_states)
  from thread_step.cas [OF assms(1) this, of makes] have 1: "thread_step makes t x ?y"
    by (simp add: after_cas_def)
  have "pcs ?y t = Asserting" by (simp add: goto_def)
  from thread_step.assertion [OF this, of makes] have 2: "thread_step makes t ?y (goto t Returned ?y)"
    by (simp add: goto_def)
  have "cell (goto t Returned ?y) = cell x" using assms(2) by (simp add: goto_def)
  moreover have "\<forall>t'. t' \<noteq> t \<longrightarrow> pcs (goto t Returned ?y) t' = pcs x t'" "pcs (goto t Returned ?y) t = Returned"
    by (simp_all add: goto_def)
  ultimately show ?thesis using 1 2 by (intro exI [of _ "goto t Returned ?y"]) auto
qed

text \<open>The accesses before them, when the thread constructs.\<close>

lemma thread_constructs:
  assumes "pcs x t = AtCas" "inited (cell x) \<noteq> SINGLE_INITED" "inited (cell x) \<noteq> SINGLE_INITING" "makes v"
  shows "\<exists>u. (thread_step makes t)\<^sup>*\<^sup>* x u \<and> pcs u t = AtCas \<and> cell u = \<lparr>inited = SINGLE_INITED, data = Some v\<rparr>
    \<and> (\<forall>t'. t' \<noteq> t \<longrightarrow> pcs u t' = pcs x t')"
proof -
  obtain r i where cas: "compare_exchange SINGLE_UNINIT SINGLE_INITING (inited (cell x)) = (r, i)" by fastforce
  then have ac: "after_cas r = Constructing"
    using assms(2,3) by (auto simp: compare_exchange_def after_cas_def split: if_splits)
  let ?y = "goto t Constructing (x\<lparr>cell := (cell x)\<lparr>inited := i\<rparr>\<rparr>)"
  let ?z = "goto t Storing (?y\<lparr>cell := (cell ?y)\<lparr>data := Some v\<rparr>, made := v # made ?y\<rparr>)"
  let ?w = "goto t AtCas (?z\<lparr>cell := (cell ?z)\<lparr>inited := SINGLE_INITED\<rparr>\<rparr>)"
  have 1: "thread_step makes t x ?y" using thread_step.cas [OF assms(1) cas, of makes] ac by simp
  have 2: "thread_step makes t ?y ?z" by (rule thread_step.construct) (simp_all add: goto_def assms(4))
  have 3: "thread_step makes t ?z ?w" by (rule thread_step.store) (simp add: goto_def)
  have "(thread_step makes t)\<^sup>*\<^sup>* x ?w" using 1 2 3 by (meson rtranclp.rtrancl_into_rtrancl rtranclp.rtrancl_refl)
  moreover have "pcs ?w t = AtCas" "cell ?w = \<lparr>inited = SINGLE_INITED, data = Some v\<rparr>" "\<forall>t'. t' \<noteq> t \<longrightarrow> pcs ?w t' = pcs x t'"
    by (simp_all add: goto_def)
  ultimately show ?thesis by blast
qed

context static_cell
begin

lemma init_started:
  assumes "init S dflt s = Some (Done () s')" "inited (cell s) \<noteq> SINGLE_INITED" "inited (cell s) \<noteq> SINGLE_INITING"
  shows "\<exists>v s0 s1. dflt s0 = Some (Done v s1) \<and> s' = published v s1"
proof -
  let ?s0 = "upd (inited_update (\<lambda>_. if inited (cell s) = SINGLE_UNINIT then SINGLE_INITING else inited (cell s))) s"
  have loop: "init_loop S dflt s = bnd dflt (\<lambda>v. bnd (write_data S v) (\<lambda>_. bnd (store_inited S SINGLE_INITED) (\<lambda>_ s3. init_loop S dflt s3))) ?s0"
    using assms(2,3)
    by (subst init_loop.simps) (auto simp: bnd_def cas_inited_def compare_exchange_def)
  obtain s2 where "init_loop S dflt s = Some (Done () s2)"
    using assms(1) unfolding init_def by (auto elim: andthen_Done)
  then obtain v s1 where d: "dflt ?s0 = Some (Done v s1)" unfolding loop by (rule bnd_Done)
  have p: "upd (inited_update (\<lambda>_. SINGLE_INITED)) (upd (data_update (\<lambda>_. Some v)) s1) = published v s1"
    unfolding published_def upd_upd by (rule upd_local) simp
  have "init_loop S dflt s = Some (Done () (published v s1))"
    unfolding loop using d
    by (simp add: bnd_run write_data_def store_inited_def run_basic p init_loop_inited published_def del: upd_upd)
  then have "s' = published v s1"
    using assms(1) by (simp add: init_def andthen_run load_inited_def run_basic published_def)
  then show ?thesis using d by blast
qed

lemma init_runs_as_thread: "runs_as_thread S dflt"
  unfolding runs_as_thread_def fst_conv
proof (intro allI impI)
  fix s s' and x :: "'a shared" and t
  assume i: "init S dflt s = Some (Done () s')" and x: "shared.cell x = cell s" and pc: "pcs x t = AtCas"
  let ?st = "thread_step (\<lambda>v. \<exists>s1 s2. dflt s1 = Some (Done v s2)) t"
  have "inited (cell s) \<noteq> SINGLE_INITING" using i init_initing by auto
  then consider "inited (cell s) = SINGLE_INITED"
    | "inited (cell s) \<noteq> SINGLE_INITED" "inited (cell s) \<noteq> SINGLE_INITING" by blast
  then show "\<exists>u. ?st\<^sup>*\<^sup>* x u \<and> pcs u t = Returned \<and> shared.cell u = cell s' \<and> (\<forall>t'. t' \<noteq> t \<longrightarrow> pcs u t' = pcs x t')"
  proof cases
    case 1
    then have "s' = s" using i init_inited by simp
    then show ?thesis using thread_returns [OF pc] 1 x by auto
  next
    case 2
    obtain v s0 s1 where v: "dflt s0 = Some (Done v s1)" "s' = published v s1" using init_started [OF i 2] by blast
    then have mk: "\<exists>s1 s2. dflt s1 = Some (Done v s2)" by blast
    have "inited (shared.cell x) \<noteq> SINGLE_INITED" "inited (shared.cell x) \<noteq> SINGLE_INITING" using 2 x by simp_all
    from thread_constructs [OF pc this, of "\<lambda>v. \<exists>s1 s2. dflt s1 = Some (Done v s2)", OF mk]
    obtain y where y: "?st\<^sup>*\<^sup>* x y" "pcs y t = AtCas" "shared.cell y = \<lparr>inited = SINGLE_INITED, data = Some v\<rparr>"
        "\<forall>t'. t' \<noteq> t \<longrightarrow> pcs y t' = pcs x t'"
      by (elim exE conjE)
    then obtain u where u: "?st\<^sup>*\<^sup>* y u" "pcs u t = Returned" "shared.cell u = shared.cell y" "\<forall>t'. t' \<noteq> t \<longrightarrow> pcs u t' = pcs y t'"
      using thread_returns [OF y(2), of "\<lambda>v. \<exists>s1 s2. dflt s1 = Some (Done v s2)"] by auto
    have "shared.cell u = cell s'" using u(3) y(3) by (simp add: v(2) published_def)
    then show ?thesis using rtranclp_trans [OF y(1) u(1)] u(2,4) y(4) by auto
  qed
qed

end

end
