(* ===== verification/RondSerial.thy ===== *)
theory RondSerial
  imports RondMachine
begin

text \<open>
  The serial line, \<open>src/kernel/src/io/serial.rs\<close>: the 16550 register layout, its programming, and
  the polled transmission and reception of bytes. The device is an arbitrary function of the port
  history; what transmission needs of it is stated where it is used.
\<close>

section \<open>The source\<close>

definition RECEIVED :: u8 where "RECEIVED = 1"
definition SENT :: u8 where "SENT = push_bit 1 1"
definition ERRORED :: u8 where "ERRORED = push_bit 2 1"
definition STATUS_CHANGE :: u8 where "STATUS_CHANGE = push_bit 3 1"
definition INPUT_FULL :: u8 where "INPUT_FULL = 1"
definition OUTPUT_EMPTY :: u8 where "OUTPUT_EMPTY = push_bit 5 1"

datatype LineStsFlags = LineStsFlags (flags: u8)

datatype SerialPort = SerialPort (port_base: u16)

definition port_data :: "SerialPort \<Rightarrow> panic + u16" where
  "port_data self = Inr (port_base self)"

definition port_int_en :: "profile \<Rightarrow> SerialPort \<Rightarrow> panic + u16" where
  "port_int_en pr self = uadd pr (port_base self) 1"

definition port_fifo_ctrl :: "profile \<Rightarrow> SerialPort \<Rightarrow> panic + u16" where
  "port_fifo_ctrl pr self = uadd pr (port_base self) 2"

definition port_line_ctrl :: "profile \<Rightarrow> SerialPort \<Rightarrow> panic + u16" where
  "port_line_ctrl pr self = uadd pr (port_base self) 3"

definition port_modem_ctrl :: "profile \<Rightarrow> SerialPort \<Rightarrow> panic + u16" where
  "port_modem_ctrl pr self = uadd pr (port_base self) 4"

definition port_line_sts :: "profile \<Rightarrow> SerialPort \<Rightarrow> panic + u16" where
  "port_line_sts pr self = uadd pr (port_base self) 5"

lemmas port_defs = port_data_def port_int_en_def port_fifo_ctrl_def port_line_ctrl_def
  port_modem_ctrl_def port_line_sts_def

definition serial_new :: "u16 \<Rightarrow> SerialPort" where
  "serial_new b = SerialPort b"

definition out_to :: "panic + u16 \<Rightarrow> u8 \<Rightarrow> (unit, 'z machine_scheme) comp" where
  "out_to p v = bnd (lift p) (\<lambda>port. outb port v)"

definition serial_init :: "profile \<Rightarrow> SerialPort \<Rightarrow> (unit, 'z machine_scheme) comp" where
  "serial_init pr self = block
     [out_to (port_int_en pr self) 0x00,
      out_to (port_line_ctrl pr self) 0x80,
      out_to (port_data self) 0x03,
      out_to (port_int_en pr self) 0x00,
      out_to (port_line_ctrl pr self) 0x03,
      out_to (port_fifo_ctrl pr self) 0xc7,
      out_to (port_modem_ctrl pr self) 0x0b,
      out_to (port_int_en pr self) 0x01]"

definition line_sts :: "profile \<Rightarrow> SerialPort \<Rightarrow> (LineStsFlags, 'z machine_scheme) comp" where
  "line_sts pr self = bnd (lift (port_line_sts pr self)) (\<lambda>port. bnd (inb port) (\<lambda>v. ret (LineStsFlags v)))"

text \<open>\<open>wait_for!(self.line_sts().0 & flag == flag)\<close>\<close>

definition wait_for :: "profile \<Rightarrow> SerialPort \<Rightarrow> u8 \<Rightarrow> (unit, 'z machine_scheme) comp" where
  "wait_for pr self flag =
     spin_until (bnd (line_sts pr self) (\<lambda>l. ret (flags l AND flag = flag)))"

definition serial_send :: "profile \<Rightarrow> SerialPort \<Rightarrow> u8 \<Rightarrow> (unit, 'z machine_scheme) comp" where
  "serial_send pr self d =
     (if d = 8 \<or> d = 0x7F then
        block [wait_for pr self OUTPUT_EMPTY, out_to (port_data self) 8,
               wait_for pr self OUTPUT_EMPTY, out_to (port_data self) 0x20,
               wait_for pr self OUTPUT_EMPTY, out_to (port_data self) 8]
      else block [wait_for pr self OUTPUT_EMPTY, out_to (port_data self) d])"

definition send_raw :: "profile \<Rightarrow> SerialPort \<Rightarrow> u8 \<Rightarrow> (unit, 'z machine_scheme) comp" where
  "send_raw pr self d = andthen (wait_for pr self OUTPUT_EMPTY) (out_to (port_data self) d)"

definition receive :: "profile \<Rightarrow> SerialPort \<Rightarrow> (u8, 'z machine_scheme) comp" where
  "receive pr self = andthen (wait_for pr self INPUT_FULL) (bnd (lift (port_data self)) inb)"

definition serial_bytes :: "profile \<Rightarrow> u8 list \<Rightarrow> SerialPort \<Rightarrow> (SerialPort, 'z machine_scheme) comp" where
  "serial_bytes pr = fold_each (\<lambda>byte self. andthen (serial_send pr self byte) (ret self))"

definition serial_write_str :: "profile \<Rightarrow> u8 list \<Rightarrow> SerialPort \<Rightarrow> (fmt_result \<times> SerialPort, 'z machine_scheme) comp" where
  "serial_write_str pr s self = bnd (serial_bytes pr s self) (\<lambda>self'. ret (FmtOk, self'))"

definition serial_default :: "profile \<Rightarrow> (SerialPort, 'z machine_scheme) comp" where
  "serial_default pr = (let serial = serial_new 0x3f8 in andthen (serial_init pr serial) (ret serial))"

section \<open>Polling\<close>

text \<open>The history after reading a port \<open>n\<close> times.\<close>

primrec polls :: "(io_event list \<Rightarrow> u16 \<Rightarrow> u8) \<Rightarrow> u16 \<Rightarrow> nat \<Rightarrow> io_event list \<Rightarrow> io_event list" where
  "polls d p 0 h = h"
| "polls d p (Suc n) h = polls d p n (h @ [In p (d h p)])"

text \<open>A device that, read over and over, raises the flag some time.\<close>

definition eventually_ready :: "(io_event list \<Rightarrow> u16 \<Rightarrow> u8) \<Rightarrow> u16 \<Rightarrow> u8 \<Rightarrow> bool" where
  "eventually_ready d p flag \<longleftrightarrow> (\<forall>h. \<exists>n. d (polls d p n h) p AND flag = flag)"

definition never_ready :: "(io_event list \<Rightarrow> u16 \<Rightarrow> u8) \<Rightarrow> u16 \<Rightarrow> u8 \<Rightarrow> bool" where
  "never_ready d p flag \<longleftrightarrow> (\<forall>h. d h p AND flag \<noteq> flag)"

lemma line_sts_poll:
  assumes "unat (port_base self) + 5 < 2 ^ 16"
  shows "bnd (line_sts pr self) (\<lambda>l. ret (flags l AND flag = flag)) m =
    (let p = port_base self + 5; v = dev m (io m) p in
     Some (Done (v AND flag = flag) (m\<lparr>io := io m @ [In p v]\<rparr>)))"
  using assms by (simp add: line_sts_def port_line_sts_def uadd_ok bnd_assoc)
    (simp add: bnd_def inb_run run_basic Let_def)

text \<open>\<open>busy_polls p flag evs\<close>: reads of the status port that did not show the flag.\<close>

definition busy_polls :: "u16 \<Rightarrow> u8 \<Rightarrow> io_event list \<Rightarrow> bool" where
  "busy_polls p flag evs \<longleftrightarrow> (\<forall>e \<in> set evs. \<exists>v. e = In p v \<and> v AND flag \<noteq> flag)"

lemma wait_for_run:
  assumes "unat (port_base self) + 5 < 2 ^ 16"
    and "dev m (polls (dev m) (port_base self + 5) n (io m)) (port_base self + 5) AND flag = flag"
  shows "\<exists>evs v. wait_for pr self flag m = Some (Done () (m\<lparr>io := io m @ evs @ [In (port_base self + 5) v]\<rparr>))
    \<and> busy_polls (port_base self + 5) flag evs \<and> v AND flag = flag
    \<and> v = dev m (io m @ evs) (port_base self + 5)"
  using assms(2)
proof (induction n arbitrary: m)
  case 0
  then show ?case
    unfolding wait_for_def
    by (subst spin_until_stop [OF line_sts_poll [OF assms(1), unfolded Let_def, THEN trans]])
      (auto simp: busy_polls_def intro!: exI [of _ "[]"])
next
  case (Suc n)
  let ?p = "port_base self + 5" and ?v = "dev m (io m) (port_base self + 5)"
  let ?m = "m\<lparr>io := io m @ [In ?p ?v]\<rparr>"
  show ?case
  proof (cases "?v AND flag = flag")
    case True
    then show ?thesis
      unfolding wait_for_def
      by (subst spin_until_stop [OF line_sts_poll [OF assms(1), unfolded Let_def, THEN trans]])
        (auto simp: busy_polls_def intro!: exI [of _ "[]"])
  next
    case False
    obtain evs v where *: "wait_for pr self flag ?m = Some (Done () (?m\<lparr>io := io ?m @ evs @ [In ?p v]\<rparr>))"
      "busy_polls ?p flag evs" "v AND flag = flag" "v = dev ?m (io ?m @ evs) ?p"
      using Suc.IH [of ?m] Suc.prems by auto
    have "wait_for pr self flag m = wait_for pr self flag ?m"
      unfolding wait_for_def
      by (rule spin_until_again) (use False in \<open>simp add: line_sts_poll [OF assms(1)] Let_def\<close>)
    then show ?thesis
      using * False by (intro exI [of _ "In ?p ?v # evs"] exI [of _ v]) (simp add: busy_polls_def)
  qed
qed

lemma wait_for_never:
  assumes "unat (port_base self) + 5 < 2 ^ 16" and "never_ready (dev m) (port_base self + 5) flag"
  shows "wait_for pr self flag m = None"
  unfolding wait_for_def
proof (rule spin_until_diverges [where I = "\<lambda>s. dev s = dev m"])
  fix s :: "'a machine_scheme"
  assume "dev s = dev m"
  then show "\<exists>s'. bnd (line_sts pr self) (\<lambda>l. ret (flags l AND flag = flag)) s = Some (Done False s') \<and> dev s' = dev m"
    using assms(2) by (simp add: line_sts_poll [OF assms(1)] Let_def never_ready_def)
qed simp

text \<open>More generally the wait ends exactly when one of the reads shows the flag.\<close>

lemma polls_Suc: "polls d p (Suc n) h = polls d p n h @ [In p (d (polls d p n h) p)]"
  by (induction n arbitrary: h) (simp, metis polls.simps(2))

lemma wait_for_diverges:
  assumes "unat (port_base self) + 5 < 2 ^ 16"
    and "\<And>n. dev m (polls (dev m) (port_base self + 5) n (io m)) (port_base self + 5) AND flag \<noteq> flag"
  shows "wait_for pr self flag m = None"
  unfolding wait_for_def
proof (rule spin_until_diverges [where I = "\<lambda>s. dev s = dev m \<and> (\<exists>n. io s = polls (dev m) (port_base self + 5) n (io m))"])
  show "dev m = dev m \<and> (\<exists>n. io m = polls (dev m) (port_base self + 5) n (io m))" by (auto intro: exI [of _ 0])
  let ?p = "port_base self + 5"
  fix s :: "'a machine_scheme"
  assume "dev s = dev m \<and> (\<exists>n. io s = polls (dev m) ?p n (io m))"
  then obtain n where n: "dev s = dev m" "io s = polls (dev m) ?p n (io m)" by blast
  let ?s = "s\<lparr>io := io s @ [In ?p (dev s (io s) ?p)]\<rparr>"
  have "bnd (line_sts pr self) (\<lambda>l. ret (flags l AND flag = flag)) s = Some (Done False ?s)"
    using assms(2) [of n] n by (simp add: line_sts_poll [OF assms(1)] Let_def)
  moreover have "io ?s = polls (dev m) ?p (Suc n) (io m)" unfolding polls_Suc using n by simp
  ultimately show "\<exists>s'. bnd (line_sts pr self) (\<lambda>l. ret (flags l AND flag = flag)) s = Some (Done False s')
      \<and> dev s' = dev m \<and> (\<exists>n. io s' = polls (dev m) ?p n (io m))"
    using n(1) by (intro exI [of _ ?s] exI [of _ "Suc n"] conjI) simp_all
qed

section \<open>Transmission\<close>

text \<open>
  What a correct transmission of \<open>bs\<close> looks like on the ports: every byte is written to the data
  port right after a status read that showed an empty output register.
\<close>

inductive transmits :: "u16 \<Rightarrow> u8 list \<Rightarrow> io_event list \<Rightarrow> bool" for p :: u16 where
  transmits_nil: "transmits p [] []"
| transmits_cons: "busy_polls (p + 5) OUTPUT_EMPTY ws \<Longrightarrow> v AND OUTPUT_EMPTY = OUTPUT_EMPTY \<Longrightarrow>
    transmits p bs evs \<Longrightarrow> transmits p (b # bs) (ws @ In (p + 5) v # Out p b # evs)"

text \<open>The bytes that go over the wire for one byte of text: erasing is backspace, blank, backspace.\<close>

definition wire :: "u8 \<Rightarrow> u8 list" where
  "wire b = (if b = 8 \<or> b = 0x7F then [8, 0x20, 8] else [b])"

definition sent_on :: "u16 \<Rightarrow> io_event list \<Rightarrow> u8 list" where
  "sent_on p evs = concat (map (\<lambda>e. case e of Out q b \<Rightarrow> if q = p then [b] else [] | In _ _ \<Rightarrow> []) evs)"

lemma sent_on_simps [simp]:
  "sent_on p [] = []"
  "sent_on p (Out q b # evs) = (if q = p then b # sent_on p evs else sent_on p evs)"
  "sent_on p (In q b # evs) = sent_on p evs"
  "sent_on p (es @ evs) = sent_on p es @ sent_on p evs"
  by (simp_all add: sent_on_def)

lemma busy_polls_sent: "busy_polls q f ws \<Longrightarrow> sent_on p ws = []"
  by (induction ws) (auto simp: busy_polls_def)

lemma transmits_sent: "transmits p bs evs \<Longrightarrow> sent_on p evs = bs"
  by (induction rule: transmits.induct) (simp_all add: busy_polls_sent)

lemma transmits_append: "transmits p as es \<Longrightarrow> transmits p bs evs \<Longrightarrow> transmits p (as @ bs) (es @ evs)"
proof (induction rule: transmits.induct)
  case transmits_nil
  then show ?case by simp
next
  case (transmits_cons ws v as es b)
  then show ?case using transmits.transmits_cons [of p ws v "as @ bs" "es @ evs" b] by simp
qed

definition uart_at :: "SerialPort \<Rightarrow> 'z machine_scheme \<Rightarrow> bool" where
  "uart_at self m \<longleftrightarrow> unat (port_base self) + 5 < 2 ^ 16
     \<and> eventually_ready (dev m) (port_base self + 5) OUTPUT_EMPTY"

lemma uart_at_io [simp]: "uart_at self (m\<lparr>io := h\<rparr>) = uart_at self m"
  by (simp add: uart_at_def)

text \<open>Waiting and writing one byte, in front of any continuation.\<close>

lemma poll_and_out:
  assumes "uart_at self m"
  shows "\<exists>evs. andthen (wait_for pr self OUTPUT_EMPTY) (andthen (out_to (port_data self) b) k) m = k (m\<lparr>io := io m @ evs\<rparr>)
    \<and> transmits (port_base self) [b] evs"
proof -
  let ?p = "port_base self"
  obtain n where n: "dev m (polls (dev m) (?p + 5) n (io m)) (?p + 5) AND OUTPUT_EMPTY = OUTPUT_EMPTY"
    using assms by (auto simp: uart_at_def eventually_ready_def)
  obtain ws v where w: "wait_for pr self OUTPUT_EMPTY m = Some (Done () (m\<lparr>io := io m @ ws @ [In (?p + 5) v]\<rparr>))"
      "busy_polls (?p + 5) OUTPUT_EMPTY ws" "v AND OUTPUT_EMPTY = OUTPUT_EMPTY"
    using wait_for_run [OF _ n, where pr = pr] assms by (auto simp: uart_at_def)
  have "transmits ?p [b] (ws @ In (?p + 5) v # Out ?p b # [])"
    using w(2,3) by (intro transmits.intros)
  then show ?thesis
    using w(1)
    by (intro exI [of _ "ws @ [In (?p + 5) v, Out ?p b]"])
      (simp add: andthen_run out_to_def port_data_def)
qed

lemma serial_send_run:
  assumes "uart_at self m"
  shows "\<exists>evs. serial_send pr self d m = Some (Done () (m\<lparr>io := io m @ evs\<rparr>)) \<and> transmits (port_base self) (wire d) evs"
proof (cases "d = 8 \<or> d = 0x7F")
  case False
  then show ?thesis
    using poll_and_out [OF assms, of pr d "ret ()"] by (auto simp: serial_send_def wire_def run_basic)
next
  case True
  let ?w = "wait_for pr self OUTPUT_EMPTY" and ?o = "\<lambda>b. out_to (port_data self) b"
  let ?k3 = "andthen ?w (andthen (?o 8) (ret ()))"
  let ?k2 = "andthen ?w (andthen (?o 0x20) ?k3)"
  obtain e1 where e1: "andthen ?w (andthen (?o 8) ?k2) m = ?k2 (m\<lparr>io := io m @ e1\<rparr>)" "transmits (port_base self) [8] e1"
    using poll_and_out [OF assms, of pr 8 ?k2] by blast
  obtain e2 where e2: "?k2 (m\<lparr>io := io m @ e1\<rparr>) = ?k3 (m\<lparr>io := io m @ e1 @ e2\<rparr>)" "transmits (port_base self) [0x20] e2"
    using poll_and_out [of self "m\<lparr>io := io m @ e1\<rparr>" pr "0x20" ?k3] assms by auto
  obtain e3 where e3: "?k3 (m\<lparr>io := io m @ e1 @ e2\<rparr>) = ret () (m\<lparr>io := io m @ e1 @ e2 @ e3\<rparr>)" "transmits (port_base self) [8] e3"
    using poll_and_out [of self "m\<lparr>io := io m @ e1 @ e2\<rparr>" pr 8 "ret ()"] assms by auto
  have "transmits (port_base self) ([8] @ [0x20] @ [8]) (e1 @ e2 @ e3)"
    using e1(2) e2(2) e3(2) by (intro transmits_append)
  moreover have "serial_send pr self d m = andthen ?w (andthen (?o 8) ?k2) m"
    using True by (simp add: serial_send_def)
  ultimately show ?thesis
    using True e1(1) e2(1) e3(1) by (auto simp: wire_def run_basic)
qed

lemma serial_bytes_run:
  assumes "uart_at self m"
  shows "\<exists>evs. serial_bytes pr s self m = Some (Done self (m\<lparr>io := io m @ evs\<rparr>))
    \<and> transmits (port_base self) (concat (map wire s)) evs"
  using assms
proof (induction s arbitrary: m)
  case Nil
  then show ?case
    by (intro exI [of _ "[]"]) (simp add: serial_bytes_def run_basic transmits.intros)
next
  case (Cons b s)
  obtain e1 where e1: "serial_send pr self b m = Some (Done () (m\<lparr>io := io m @ e1\<rparr>))"
      "transmits (port_base self) (wire b) e1"
    using serial_send_run [OF Cons.prems] by blast
  obtain e2 where e2: "serial_bytes pr s self (m\<lparr>io := io m @ e1\<rparr>) = Some (Done self (m\<lparr>io := io m @ e1 @ e2\<rparr>))"
      "transmits (port_base self) (concat (map wire s)) e2"
    using Cons.IH [of "m\<lparr>io := io m @ e1\<rparr>"] Cons.prems by auto
  have "serial_bytes pr (b # s) self m = serial_bytes pr s self (m\<lparr>io := io m @ e1\<rparr>)"
    using e1(1) by (simp add: serial_bytes_def andthen_def bnd_assoc) (simp add: bnd_run)
  then show ?case
    using e1(2) e2 transmits_append by (intro exI [of _ "e1 @ e2"]) simp
qed

interpretation serial: fmt_write "serial_write_str pr" "serial_bytes pr" for pr
  by unfold_locales (simp_all add: serial_write_str_def serial_bytes_def fold_each_append)

text \<open>
  C30: On a line whose output register becomes empty again and again, writing a text returns, and
  puts exactly the bytes of the text on the data port, in order (8 and 0x7f as backspace, blank,
  backspace), each right after a status read that showed the output register empty.
\<close>

theorem serial_write_str_transmits:
  assumes "uart_at self m"
  shows "\<exists>evs. serial_write_str pr s self m = Some (Done (FmtOk, self) (m\<lparr>io := io m @ evs\<rparr>))
    \<and> transmits (port_base self) (concat (map wire s)) evs \<and> sent_on (port_base self) evs = concat (map wire s)"
  using serial_bytes_run [OF assms, of pr s] transmits_sent
  by (auto simp: serial_write_str_def bnd_run run_basic)

lemma always_ready_uart: "uart_at (SerialPort 0x3f8) (m\<lparr>dev := \<lambda>_ _. 0x20\<rparr>)"
  by (simp add: uart_at_def eventually_ready_def OUTPUT_EMPTY_def)

definition sample_serial :: machine where
  "sample_serial = \<lparr>ram = \<lambda>_. 0, dev = \<lambda>_ _. 0x20, io = [], cs_reg = 8, esp_reg = 0, cr3_reg = 0,
     idtr = \<lparr>limit = 0, base = 0\<rparr>, intr_flag = False\<rparr>"

theorem serial_write_str_transmits_witness:
  "\<exists>evs. serial_write_str Debug [0x48, 8] (SerialPort 0x3f8) sample_serial
      = Some (Done (FmtOk, SerialPort 0x3f8) (sample_serial\<lparr>io := io sample_serial @ evs\<rparr>))
    \<and> transmits 0x3f8 [0x48, 8, 0x20, 8] evs \<and> sent_on 0x3f8 evs = [0x48, 8, 0x20, 8]"
  using serial_write_str_transmits [of "SerialPort 0x3f8" sample_serial Debug "[0x48, 8]"]
    always_ready_uart [of sample_serial]
  by (simp add: sample_serial_def wire_def)

text \<open>
  C31: Waiting for a status flag terminates exactly when the line shows the flag after some number of
  reads: then the wait has made the reads that failed and the first one that succeeded, and nothing
  else. Otherwise it never returns.
\<close>

theorem wait_for_terminates:
  assumes "unat (port_base self) + 5 < 2 ^ 16"
  shows "if \<exists>n. dev m (polls (dev m) (port_base self + 5) n (io m)) (port_base self + 5) AND flag = flag
    then \<exists>evs v. wait_for pr self flag m = Some (Done () (m\<lparr>io := io m @ evs @ [In (port_base self + 5) v]\<rparr>))
      \<and> busy_polls (port_base self + 5) flag evs \<and> v AND flag = flag
    else wait_for pr self flag m = None"
proof (cases "\<exists>n. dev m (polls (dev m) (port_base self + 5) n (io m)) (port_base self + 5) AND flag = flag")
  case True
  then obtain n where "dev m (polls (dev m) (port_base self + 5) n (io m)) (port_base self + 5) AND flag = flag" ..
  from wait_for_run [OF assms this, of pr] True show ?thesis by auto
next
  case False
  then show ?thesis using wait_for_diverges [OF assms, of m flag pr] by simp
qed

theorem wait_for_terminates_witness:
  "wait_for Debug (SerialPort 0x3f8) INPUT_FULL sample_serial = None"
  using wait_for_terminates [of "SerialPort 0x3f8" sample_serial INPUT_FULL Debug]
  by (simp add: sample_serial_def INPUT_FULL_def)

text \<open>
  On a line that never shows an empty output register, sending anything never returns; nothing
  limits the wait.
\<close>

theorem serial_write_str_hangs:
  assumes "unat (port_base self) + 5 < 2 ^ 16" and "never_ready (dev m) (port_base self + 5) OUTPUT_EMPTY"
  shows "serial_write_str pr (b # s) self m = None"
proof -
  have "wait_for pr self OUTPUT_EMPTY m = None" using assms by (rule wait_for_never)
  then have "serial_send pr self b m = None" by (simp add: serial_send_def andthen_run)
  then show ?thesis by (simp add: serial_write_str_def serial_bytes_def bnd_assoc) (simp add: andthen_run bnd_run)
qed

theorem serial_write_str_hangs_witness:
  "serial_write_str Debug [0x48] (SerialPort 0x3f8) (sample_serial\<lparr>dev := \<lambda>_ _. 0\<rparr>) = None"
  by (rule serial_write_str_hangs) (simp_all add: never_ready_def OUTPUT_EMPTY_def)

text \<open>
  Receiving waits until the line reports a byte and then returns the value read from the data
  port; the ports see the failing polls, the successful one and that one read.
\<close>

theorem receive_returns_data:
  assumes "unat (port_base self) + 5 < 2 ^ 16" and "eventually_ready (dev m) (port_base self + 5) INPUT_FULL"
  shows "\<exists>ws v b. receive pr self m
      = Some (Done b (m\<lparr>io := io m @ ws @ [In (port_base self + 5) v, In (port_base self) b]\<rparr>))
    \<and> busy_polls (port_base self + 5) INPUT_FULL ws \<and> v AND INPUT_FULL = INPUT_FULL
    \<and> b = dev m (io m @ ws @ [In (port_base self + 5) v]) (port_base self)"
proof -
  let ?p = "port_base self"
  obtain n where n: "dev m (polls (dev m) (?p + 5) n (io m)) (?p + 5) AND INPUT_FULL = INPUT_FULL"
    using assms(2) by (auto simp: eventually_ready_def)
  obtain ws v where "wait_for pr self INPUT_FULL m = Some (Done () (m\<lparr>io := io m @ ws @ [In (?p + 5) v]\<rparr>))"
      "busy_polls (?p + 5) INPUT_FULL ws" "v AND INPUT_FULL = INPUT_FULL"
    using wait_for_run [OF assms(1) n, where pr = pr] by auto
  then show ?thesis
    by (intro exI [of _ ws] exI [of _ v] exI [of _ "dev m (io m @ ws @ [In (?p + 5) v]) ?p"])
      (simp add: receive_def andthen_run port_data_def inb_run)
qed

theorem receive_returns_data_witness:
  "\<exists>ws v b. receive Debug (SerialPort 0x3f8) (sample_serial\<lparr>dev := \<lambda>_ p. if p = 0x3fd then 1 else 0x41\<rparr>)
      = Some (Done b (sample_serial\<lparr>dev := \<lambda>_ p. if p = 0x3fd then 1 else 0x41,
          io := ws @ [In 0x3fd v, In 0x3f8 b]\<rparr>)) \<and> b = 0x41"
  using receive_returns_data [of "SerialPort 0x3f8" "sample_serial\<lparr>dev := \<lambda>_ p. if p = 0x3fd then 1 else 0x41\<rparr>" Debug]
  by (simp add: eventually_ready_def INPUT_FULL_def sample_serial_def) blast

section \<open>Programming the UART\<close>

text \<open>
  The registers of a 16550 and what a write to each of its ports does (data sheet): ports 0 and 1
  are the divisor latch while bit 7 of the line control register is set.
\<close>

record uart16550 =
  ier :: u8
  lcr :: u8
  fcr :: u8
  mcr :: u8
  dll :: u8
  dlm :: u8

definition uart_write :: "u16 \<Rightarrow> u8 \<Rightarrow> uart16550 \<Rightarrow> uart16550" where
  "uart_write off v u =
     (if off = 0 then (if bit (lcr u) 7 then u\<lparr>dll := v\<rparr> else u)
      else if off = 1 then (if bit (lcr u) 7 then u\<lparr>dlm := v\<rparr> else u\<lparr>ier := v\<rparr>)
      else if off = 2 then u\<lparr>fcr := v\<rparr>
      else if off = 3 then u\<lparr>lcr := v\<rparr>
      else if off = 4 then u\<lparr>mcr := v\<rparr>
      else u)"

fun uart_after :: "u16 \<Rightarrow> io_event list \<Rightarrow> uart16550 \<Rightarrow> uart16550" where
  "uart_after p [] u = u"
| "uart_after p (Out q v # evs) u = uart_after p evs (uart_write (q - p) v u)"
| "uart_after p (In q v # evs) u = uart_after p evs u"

definition serial_setup :: "(u16 \<times> u8) list" where
  "serial_setup = [(0x3f9, 0), (0x3fb, 0x80), (0x3f8, 3), (0x3f9, 0), (0x3fb, 3), (0x3fa, 0xc7), (0x3fc, 0x0b), (0x3f9, 1)]"

lemma serial_default_run: "serial_default pr m = Some (Done (SerialPort 0x3f8) (emit serial_setup m))"
proof -
  have p: "uadd pr (0x3f8 :: u16) k = Inr (0x3f8 + k)" if "k < 8" for k
  proof (rule uadd_ok)
    have "unat k < 8" using that by (simp add: word_less_nat_alt)
    then show "unat (0x3f8 :: u16) + unat k < 2 ^ LENGTH(16)" by simp
  qed
  show ?thesis
    by (simp add: serial_default_def serial_new_def serial_init_def out_to_def port_defs p run_basic
        serial_setup_def andthen_assoc)
qed

text \<open>
  Constructing the default port programs the line at 0x3f8, from any earlier register contents,
  for divisor 3 (115200 / 3 = 38400 baud), eight data bits without parity and one stop bit, FIFO
  enabled and cleared, DTR, RTS and OUT2 raised and receive interrupts on.
\<close>

theorem serial_default_programs:
  "\<exists>evs. serial_default pr m = Some (Done (SerialPort 0x3f8) (m\<lparr>io := io m @ evs\<rparr>))
    \<and> uart_after 0x3f8 evs u = \<lparr>ier = 1, lcr = 3, fcr = 0xc7, mcr = 0x0b, dll = 3, dlm = 0\<rparr>"
  by (intro exI conjI, rule serial_default_run) (simp add: serial_setup_def uart_write_def)

end
