(* ===== verification/RondVga.thy ===== *)
theory RondVga
  imports RondMachine
begin

text \<open>
  The text screen, \<open>src/kernel/src/io/vga.rs\<close>: 25 rows of 80 two-byte cells in memory at
  0xc00b8000, written by a terminal that always prints in the last row and scrolls. The
  specification is a terminal on a list of rows; the source refines it.
\<close>

section \<open>The source\<close>

datatype Color =
    Black | Blue | Green | Cyan | Red | Magenta | Brown | LightGray
  | DarkGray | LightBlue | LightGreen | LightCyan | LightRed | Pink | Yellow | White

fun color_u8 :: "Color \<Rightarrow> u8" where
  "color_u8 Black = 0" | "color_u8 Blue = 1" | "color_u8 Green = 2" | "color_u8 Cyan = 3"
| "color_u8 Red = 4" | "color_u8 Magenta = 5" | "color_u8 Brown = 6" | "color_u8 LightGray = 7"
| "color_u8 DarkGray = 8" | "color_u8 LightBlue = 9" | "color_u8 LightGreen = 10" | "color_u8 LightCyan = 11"
| "color_u8 LightRed = 12" | "color_u8 Pink = 13" | "color_u8 Yellow = 14" | "color_u8 White = 15"

datatype ColorCode = ColorCode (code: u8)

definition color_code_new :: "Color \<Rightarrow> Color \<Rightarrow> ColorCode" where
  "color_code_new foreground background = ColorCode (push_bit 4 (color_u8 background) OR color_u8 foreground)"

datatype ScreenChar = ScreenChar (ascii_character: u8) (color_code: ColorCode)

definition screen_char_new :: "u8 \<Rightarrow> ColorCode \<Rightarrow> ScreenChar" where
  "screen_char_new ch color = ScreenChar ch color"

definition BUFFER_HEIGHT :: usize where "BUFFER_HEIGHT = 25"
definition BUFFER_WIDTH :: usize where "BUFFER_WIDTH = 80"
definition VGA_BUFFER_ADDR :: u32 where "VGA_BUFFER_ADDR = 0xc00b8000"

record VgaBuffer =
  col_pos :: usize
  cur_color :: ColorCode

text \<open>
  \<open>Buffer\<close> is overlaid on memory: \<open>chars[row][col]\<close> is the pair of bytes at offset
  \<open>160 * row + 2 * col\<close>; both indices are checked.
\<close>

definition cell_addr :: "usize \<Rightarrow> usize \<Rightarrow> u32" where
  "cell_addr row col = VGA_BUFFER_ADDR + 160 * row + 2 * col"

definition voliate_read :: "u32 \<Rightarrow> (ScreenChar, 'z machine_scheme) comp" where
  "voliate_read a = gets (\<lambda>m. ScreenChar (ram m a) (ColorCode (ram m (a + 1))))"

definition voliate_clone :: "u32 \<Rightarrow> (ScreenChar, 'z machine_scheme) comp" where
  "voliate_clone a = bnd (voliate_read a) ret"

definition voliate_write :: "u32 \<Rightarrow> ScreenChar \<Rightarrow> (unit, 'z machine_scheme) comp" where
  "voliate_write a v = modify (\<lambda>m. m\<lparr>ram := (ram m)(a := ascii_character v, a + 1 := code (color_code v))\<rparr>)"

definition chars_index :: "usize \<Rightarrow> usize \<Rightarrow> (u32, 's) comp" where
  "chars_index row col =
     (if row < BUFFER_HEIGHT \<and> col < BUFFER_WIDTH then ret (cell_addr row col) else panicking IndexOutOfBounds)"

definition write_cell :: "usize \<Rightarrow> usize \<Rightarrow> ScreenChar \<Rightarrow> (unit, 'z machine_scheme) comp" where
  "write_cell row col v = bnd (chars_index row col) (\<lambda>a. voliate_write a v)"

text \<open>
  \<open>slice::copy_within(s..e, d)\<close> on a slice of \<open>len\<close> elements of \<open>sz\<close> bytes at \<open>ptr\<close>: the range and
  the destination are checked, then the bytes are moved as by \<open>memmove\<close>.
\<close>

definition move_bytes :: "u32 \<Rightarrow> u32 \<Rightarrow> usize \<Rightarrow> 'z machine_scheme \<Rightarrow> 'z machine_scheme" where
  "move_bytes dst src n m = m\<lparr>ram := (\<lambda>a. if a - dst < n then ram m (a - dst + src) else ram m a)\<rparr>"

definition copy_within :: "u32 \<Rightarrow> usize \<Rightarrow> usize \<Rightarrow> usize \<Rightarrow> usize \<Rightarrow> usize \<Rightarrow> (unit, 'z machine_scheme) comp" where
  "copy_within ptr sz len s e d =
     (if e < s \<or> len < e then panicking IndexOutOfBounds
      else if len - (e - s) < d then panicking AssertFailed
      else modify (move_bytes (ptr + d * sz) (ptr + s * sz) ((e - s) * sz)))"

definition enable_cursor :: "u8 \<Rightarrow> u8 \<Rightarrow> (unit, 'z machine_scheme) comp" where
  "enable_cursor cursor_start cursor_end =
     andthen (outb 0x3D4 0x0A)
    (bnd (inb 0x3D5) (\<lambda>v.
     andthen (outb 0x3D5 ((v AND 0xC0) OR cursor_start))
    (andthen (outb 0x3D4 0x0B)
    (bnd (inb 0x3D5) (\<lambda>w.
     outb 0x3D5 ((w AND 0xE0) OR cursor_end))))))"

definition update_cursor :: "profile \<Rightarrow> usize \<Rightarrow> usize \<Rightarrow> (unit, 'z machine_scheme) comp" where
  "update_cursor pr height width =
     bnd (lift (umul pr height BUFFER_WIDTH)) (\<lambda>a.
     bnd (lift (uadd pr a width)) (\<lambda>pos.
     andthen (outb 0x3D4 0x0F)
    (andthen (outb 0x3D5 (ucast (pos AND 0xFF)))
    (andthen (outb 0x3D4 0x0E)
     (outb 0x3D5 (ucast (drop_bit 8 pos AND 0xFF)))))))"

definition disable_cursor :: "(unit, 'z machine_scheme) comp" where
  "disable_cursor = andthen (outb 0x3D4 0x0A) (outb 0x3D5 0x20)"

definition vga_new :: VgaBuffer where
  "vga_new = \<lparr>col_pos = 0, cur_color = color_code_new White Black\<rparr>"

definition clear_row :: "VgaBuffer \<Rightarrow> usize \<Rightarrow> (unit, 'z machine_scheme) comp" where
  "clear_row self row =
     (let blank = ScreenChar 0x20 (cur_color self) in
      for_range 0 BUFFER_WIDTH (\<lambda>col. write_cell row col blank))"

definition new_line :: "profile \<Rightarrow> VgaBuffer \<Rightarrow> (VgaBuffer, 'z machine_scheme) comp" where
  "new_line pr self =
     andthen (for_range 1 BUFFER_HEIGHT (\<lambda>row.
        bnd (lift (usub pr row 1)) (\<lambda>d. copy_within VGA_BUFFER_ADDR 160 BUFFER_HEIGHT row (row + 1) d)))
    (andthen (clear_row self (BUFFER_HEIGHT - 1))
     (let self' = self\<lparr>col_pos := 0\<rparr> in
      andthen (update_cursor pr (BUFFER_HEIGHT - 1) (col_pos self')) (ret self')))"

definition putc :: "profile \<Rightarrow> u8 \<Rightarrow> VgaBuffer \<Rightarrow> (VgaBuffer, 'z machine_scheme) comp" where
  "putc pr c self =
     (if c = 0x0A then new_line pr self
      else if c = 0x0D then
        (let self' = self\<lparr>col_pos := 0\<rparr> in
         andthen (update_cursor pr (BUFFER_HEIGHT - 1) (col_pos self')) (ret self'))
      else if c = 0x08 then
        (if 0 < col_pos self then
           bnd (lift (usub pr (col_pos self) 1)) (\<lambda>i.
           andthen (write_cell (BUFFER_HEIGHT - 1) i (screen_char_new 0x20 (cur_color self)))
          (bnd (lift (usub pr (col_pos self) 1)) (\<lambda>j.
           let self' = self\<lparr>col_pos := j\<rparr> in
           andthen (update_cursor pr (BUFFER_HEIGHT - 1) (col_pos self')) (ret self'))))
         else ret self)
      else if c = 0x7f then
        bnd (lift (uadd pr (col_pos self) 1)) (\<lambda>s.
        andthen (copy_within (cell_addr (BUFFER_HEIGHT - 1) 0) 2 BUFFER_WIDTH s BUFFER_WIDTH (col_pos self))
       (andthen (write_cell (BUFFER_HEIGHT - 1) (BUFFER_WIDTH - 1) (screen_char_new 0x20 (cur_color self)))
        (ret self)))
      else
        andthen (write_cell (BUFFER_HEIGHT - 1) (col_pos self) (screen_char_new c (cur_color self)))
        (if col_pos self = BUFFER_WIDTH - 1 then new_line pr self
         else
           bnd (lift (uadd pr (col_pos self) 1)) (\<lambda>j.
           let self' = self\<lparr>col_pos := j\<rparr> in
           andthen (update_cursor pr (BUFFER_HEIGHT - 1) (col_pos self')) (ret self'))))"

definition vga_write_bytes :: "profile \<Rightarrow> u8 list \<Rightarrow> VgaBuffer \<Rightarrow> (VgaBuffer, 'z machine_scheme) comp" where
  "vga_write_bytes pr = fold_each (putc pr)"

text \<open>\<open>fill\<close> clones the blank row into every row.\<close>

definition vga_clear :: "VgaBuffer \<Rightarrow> (unit, 'z machine_scheme) comp" where
  "vga_clear self =
     (let blank = screen_char_new 0x20 (cur_color self) in
      for_range 0 BUFFER_HEIGHT (\<lambda>row. for_range 0 BUFFER_WIDTH (\<lambda>col. voliate_write (cell_addr row col) blank)))"

definition vga_write_str :: "profile \<Rightarrow> u8 list \<Rightarrow> VgaBuffer \<Rightarrow> (fmt_result \<times> VgaBuffer, 'z machine_scheme) comp" where
  "vga_write_str pr s self = bnd (vga_write_bytes pr s self) (\<lambda>self'. ret (FmtOk, self'))"

definition vga_default :: "(VgaBuffer, 'z machine_scheme) comp" where
  "vga_default = ret vga_new"

section \<open>Screen memory\<close>

text \<open>Byte \<open>k\<close> of screen memory, and the screen as rows of cells.\<close>

definition vram :: "'z machine_scheme \<Rightarrow> nat \<Rightarrow> u8" where
  "vram m k = ram m (VGA_BUFFER_ADDR + of_nat k)"

definition cell_at :: "(nat \<Rightarrow> u8) \<Rightarrow> nat \<Rightarrow> nat \<Rightarrow> ScreenChar" where
  "cell_at f r c = ScreenChar (f (160 * r + 2 * c)) (ColorCode (f (160 * r + 2 * c + 1)))"

definition screen_of :: "(nat \<Rightarrow> u8) \<Rightarrow> ScreenChar list list" where
  "screen_of f = map (\<lambda>r. map (cell_at f r) [0..<80]) [0..<25]"

definition screen :: "'z machine_scheme \<Rightarrow> ScreenChar list list" where
  "screen m = screen_of (vram m)"

text \<open>
  \<open>m'\<close> differs from \<open>m\<close> at most in screen memory and in writes to the two ports of the display
  controller.
\<close>

definition vga_events :: "io_event list \<Rightarrow> bool" where
  "vga_events h \<longleftrightarrow> (\<forall>e \<in> set h. \<exists>d. e = Out 0x3D4 d \<or> e = Out 0x3D5 d)"

definition vga_frame :: "'z machine_scheme \<Rightarrow> 'z machine_scheme \<Rightarrow> bool" where
  "vga_frame m m' \<longleftrightarrow> (\<exists>r h. m' = m\<lparr>ram := r, io := io m @ h\<rparr> \<and> vga_events h
     \<and> (\<forall>a. 4000 \<le> unat (a - VGA_BUFFER_ADDR) \<longrightarrow> r a = ram m a))"

lemma vga_events_simps [simp]:
  "vga_events []" "vga_events (h @ h') \<longleftrightarrow> vga_events h \<and> vga_events h'"
  by (auto simp: vga_events_def)

lemma vga_frame_refl [simp]: "vga_frame m m"
  unfolding vga_frame_def by (intro exI [of _ "ram m"] exI [of _ "[]"]) simp

lemma vga_frame_trans: "vga_frame m m' \<Longrightarrow> vga_frame m' m'' \<Longrightarrow> vga_frame m m''"
proof -
  assume "vga_frame m m'" "vga_frame m' m''"
  then obtain r h r' h' where "m' = m\<lparr>ram := r, io := io m @ h\<rparr>" "m'' = m'\<lparr>ram := r', io := io m' @ h'\<rparr>"
    "vga_events h" "vga_events h'"
    "\<forall>a. 4000 \<le> unat (a - VGA_BUFFER_ADDR) \<longrightarrow> r a = ram m a"
    "\<forall>a. 4000 \<le> unat (a - VGA_BUFFER_ADDR) \<longrightarrow> r' a = ram m' a"
    unfolding vga_frame_def by blast
  then show ?thesis unfolding vga_frame_def by (intro exI [of _ r'] exI [of _ "h @ h'"]) simp
qed

lemma offset_inj: "j < 4000 \<Longrightarrow> k < 4000 \<Longrightarrow> (of_nat j :: u32) = of_nat k \<longleftrightarrow> j = k"
  by (simp add: word_eq_nat_iff unat_of_nat_bounded)

text \<open>A byte written at offset \<open>i\<close>, and a block of bytes moved.\<close>

lemma vram_write:
  assumes "i < 4000"
  shows "k < 4000 \<Longrightarrow> vram (m\<lparr>ram := (ram m)(VGA_BUFFER_ADDR + of_nat i := v)\<rparr>) k = (if k = i then v else vram m k)"
    and "vga_frame m (m\<lparr>ram := (ram m)(VGA_BUFFER_ADDR + of_nat i := v)\<rparr>)"
proof -
  show "vram (m\<lparr>ram := (ram m)(VGA_BUFFER_ADDR + of_nat i := v)\<rparr>) k = (if k = i then v else vram m k)" if "k < 4000"
    using assms that by (simp add: vram_def offset_inj)
  show "vga_frame m (m\<lparr>ram := (ram m)(VGA_BUFFER_ADDR + of_nat i := v)\<rparr>)"
    unfolding vga_frame_def
    by (intro exI [of _ "(ram m)(VGA_BUFFER_ADDR + of_nat i := v)"] exI [of _ "[]"])
      (use assms in \<open>auto simp: unat_of_nat_bounded\<close>)
qed

lemma vram_move:
  fixes m :: "'z machine_scheme"
  assumes "d + n \<le> 4000" "s + n \<le> 4000"
  defines "m' \<equiv> move_bytes (VGA_BUFFER_ADDR + of_nat d) (VGA_BUFFER_ADDR + of_nat s) (of_nat n) m"
  shows "k < 4000 \<Longrightarrow> vram m' k = (if d \<le> k \<and> k < d + n then vram m (k - d + s) else vram m k)"
    and "vga_frame m m'"
proof -
  have u: "unat (of_nat j :: u32) = j" if "j \<le> 4000" for j
    using that by (simp add: unat_of_nat_bounded)
  have iff: "(of_nat k - of_nat d :: u32) < of_nat n \<longleftrightarrow> d \<le> k \<and> k < d + n" if "k < 4000" for k
    using that assms(1) by (auto simp: word_less_nat_alt u unat_sub_if' split: if_splits)
  show "vram m' k = (if d \<le> k \<and> k < d + n then vram m (k - d + s) else vram m k)" if "k < 4000"
    using iff [OF that] by (auto simp: vram_def m'_def move_bytes_def of_nat_diff algebra_simps)
  have "\<not> a - (VGA_BUFFER_ADDR + of_nat d) < of_nat n" if "4000 \<le> unat (a - VGA_BUFFER_ADDR)" for a
  proof -
    have "a - (VGA_BUFFER_ADDR + of_nat d) = (a - VGA_BUFFER_ADDR) - of_nat d" by simp
    moreover have "unat ((a - VGA_BUFFER_ADDR) - of_nat d) = unat (a - VGA_BUFFER_ADDR) - d"
      using that assms(1) by (simp add: unat_sub_if' u)
    ultimately show ?thesis using that assms(1) by (auto simp only: word_less_nat_alt u)
  qed
  then show "vga_frame m m'"
    unfolding vga_frame_def m'_def move_bytes_def
    by (intro exI [of _ "\<lambda>a. if a - (VGA_BUFFER_ADDR + of_nat d) < of_nat n
        then ram m (a - (VGA_BUFFER_ADDR + of_nat d) + (VGA_BUFFER_ADDR + of_nat s)) else ram m a"] exI [of _ "[]"]) simp
qed

subsection \<open>Rows of cells\<close>

lemma length_screen [simp]: "length (screen m) = 25"
  by (simp add: screen_def screen_of_def)

lemma length_screen_row [simp]: "r < 25 \<Longrightarrow> length (screen m ! r) = 80"
  by (simp add: screen_def screen_of_def)

lemma screen_nth: "r < 25 \<Longrightarrow> c < 80 \<Longrightarrow> screen m ! r ! c = cell_at (vram m) r c"
  by (simp add: screen_def screen_of_def)

lemma screen_eqI:
  assumes "length X = 25" "\<And>r. r < 25 \<Longrightarrow> length (X ! r) = 80"
    and "\<And>r c. r < 25 \<Longrightarrow> c < 80 \<Longrightarrow> cell_at (vram m) r c = X ! r ! c"
  shows "screen m = X"
proof (rule nth_equalityI)
  fix r assume "r < length (screen m)"
  then have r: "r < 25" by simp
  show "screen m ! r = X ! r"
  proof (rule nth_equalityI)
    fix c assume "c < length (screen m ! r)"
    then show "screen m ! r ! c = X ! r ! c" using r assms(3) by (simp add: screen_nth)
  qed (use r assms(2) in simp)
qed (use assms(1) in simp)

lemma cell_offset: "r < 25 \<Longrightarrow> c < 80 \<Longrightarrow> 160 * r + 2 * c + 1 < (4000 :: nat)"
  by simp

lemma cell_addr_offset: "cell_addr row col = VGA_BUFFER_ADDR + of_nat (160 * unat row + 2 * unat col)"
  by (simp add: cell_addr_def)

lemma cell_offset_eq:
  assumes "c < 80" "c' < (80 :: nat)"
  shows "160 * r' + 2 * c' = 160 * r + 2 * c \<longleftrightarrow> r' = r \<and> c' = c"
    and "160 * r' + 2 * c' \<noteq> 160 * r + 2 * c + 1" and "160 * r' + 2 * c' + 1 \<noteq> 160 * r + 2 * c"
proof -
  have par: "even (160 * r' + 2 * c')" "even (160 * r + 2 * c)" by simp_all
  show "160 * r' + 2 * c' = 160 * r + 2 * c \<longleftrightarrow> r' = r \<and> c' = c"
    using assms by (cases r' r rule: linorder_cases) auto
  show "160 * r' + 2 * c' \<noteq> 160 * r + 2 * c + 1" using par by (metis even_add odd_one)
  show "160 * r' + 2 * c' + 1 \<noteq> 160 * r + 2 * c" using par by (metis even_add odd_one)
qed

lemma voliate_write_wp:
  assumes "unat row < 25" "unat col < 80"
  shows "wp (voliate_write (cell_addr row col) v) (\<lambda>_ m'. vga_frame m m' \<and> io m' = io m
    \<and> screen m' = (screen m)[unat row := (screen m ! unat row)[unat col := v]]) m"
proof -
  let ?i = "160 * unat row + 2 * unat col"
  let ?m1 = "m\<lparr>ram := (ram m)(VGA_BUFFER_ADDR + of_nat ?i := ascii_character v)\<rparr>"
  let ?m2 = "?m1\<lparr>ram := (ram ?m1)(VGA_BUFFER_ADDR + of_nat (?i + 1) := code (color_code v))\<rparr>"
  have i: "?i < 4000" "?i + 1 < 4000" using assms by simp_all
  have vram: "vram ?m2 k = (if k = ?i + 1 then code (color_code v) else if k = ?i then ascii_character v else vram m k)"
    if "k < 4000" for k
    using vram_write(1) [OF i(2) that, of ?m1] vram_write(1) [OF i(1) that, of m] by simp
  have "vga_frame m ?m2"
    using vram_write(2) [OF i(1)] vram_write(2) [OF i(2), of ?m1] vga_frame_trans by blast
  moreover have "screen ?m2 = (screen m)[unat row := (screen m ! unat row)[unat col := v]]"
  proof (rule screen_eqI)
    fix r c :: nat assume rc: "r < 25" "c < 80"
    have k: "160 * r + 2 * c < 4000" "160 * r + 2 * c + 1 < 4000" using rc by simp_all
    show "cell_at (vram ?m2) r c = (screen m)[unat row := (screen m ! unat row)[unat col := v]] ! r ! c"
    proof (cases "r = unat row \<and> c = unat col")
      case True
      then show ?thesis
        using rc unfolding cell_at_def vram [OF k(1)] vram [OF k(2)] by simp
    next
      case False
      have "160 * r + 2 * c \<noteq> ?i" "160 * r + 2 * c \<noteq> ?i + 1" "160 * r + 2 * c + 1 \<noteq> ?i"
        using False cell_offset_eq [OF assms(2) rc(2), of r "unat row"] by auto
      then have "cell_at (vram ?m2) r c = cell_at (vram m) r c"
        unfolding cell_at_def vram [OF k(1)] vram [OF k(2)] by simp
      then show ?thesis
        using False rc assms by (cases "r = unat row") (auto simp: screen_nth nth_list_update)
    qed
  qed (use assms in \<open>auto simp: nth_list_update\<close>)
  moreover have "m\<lparr>ram := (ram m)(cell_addr row col := ascii_character v, cell_addr row col + 1 := code (color_code v))\<rparr> = ?m2"
    unfolding cell_addr_offset by (simp add: algebra_simps)
  ultimately show ?thesis by (simp add: voliate_write_def wp_simps)
qed

lemma write_cell_wp:
  assumes "unat row < 25" "unat col < 80"
  shows "wp (write_cell row col v) (\<lambda>_ m'. vga_frame m m' \<and> io m' = io m
    \<and> screen m' = (screen m)[unat row := (screen m ! unat row)[unat col := v]]) m"
  using voliate_write_wp [OF assms] assms
  by (simp add: write_cell_def chars_index_def wp_simps BUFFER_HEIGHT_def BUFFER_WIDTH_def word_less_nat_alt)

text \<open>The columns of one row set one after the other.\<close>

lemma fill_prefix:
  "k < length xs \<Longrightarrow> (replicate k b @ drop k xs)[k := b] = replicate (Suc k) b @ drop (Suc k) xs"
  by (simp add: list_update_append Cons_nth_drop_Suc [symmetric] replicate_append_same [symmetric])

lemma fill_row_wp:
  assumes "unat row < 25"
    and body: "\<And>col s. unat col < 80 \<Longrightarrow> wp (body col) (\<lambda>_ s'. vga_frame s s' \<and> io s' = io s
      \<and> screen s' = (screen s)[unat row := (screen s ! unat row)[unat col := b]]) s"
  shows "wp (for_range 0 BUFFER_WIDTH body) (\<lambda>_ m'. vga_frame m m' \<and> io m' = io m
    \<and> screen m' = (screen m)[unat row := replicate 80 b]) m"
proof -
  let ?r = "unat row"
  let ?I = "\<lambda>k s. vga_frame m s \<and> io s = io m
    \<and> screen s = (screen m)[?r := replicate k b @ drop k (screen m ! ?r)]"
  have "wp (for_count body 80 0) (\<lambda>_. ?I 80) m"
  proof (rule wp_for_count)
    show "?I 0 m" by simp
    fix k s assume k: "k < 80" and I: "?I k s"
    have u: "unat (0 + of_nat k :: usize) = k" using k by (simp add: unat_of_nat_bounded)
    show "wp (body (0 + of_nat k)) (\<lambda>_. ?I (Suc k)) s"
    proof (rule wp_mono [OF body])
      show "unat (0 + of_nat k :: usize) < 80" using u k by simp
      fix s' assume s': "vga_frame s s' \<and> io s' = io s
        \<and> screen s' = (screen s)[?r := (screen s ! ?r)[unat (0 + of_nat k :: usize) := b]]"
      have "(screen s ! ?r)[k := b] = replicate (Suc k) b @ drop (Suc k) (screen m ! ?r)"
        using I k assms(1) fill_prefix [of k "screen m ! ?r" b] by simp
      then have c: "screen s' = (screen m)[?r := replicate (Suc k) b @ drop (Suc k) (screen m ! ?r)]"
        using s' u I by simp
      have "vga_frame m s'" "io s' = io m" using s' I vga_frame_trans [of m s s'] by simp_all
      then show "?I (Suc k) s'" by (intro conjI c)
    qed
  qed
  moreover have "unat (80 :: usize) - unat (0 :: usize) = 80" by simp
  moreover have "replicate 80 b @ drop 80 (screen m ! ?r) = replicate 80 b" using assms(1) by simp
  ultimately show ?thesis by (simp only: for_range_def BUFFER_WIDTH_def)
qed

lemma clear_row_wp:
  assumes "unat row < 25"
  shows "wp (clear_row self row) (\<lambda>_ m'. vga_frame m m' \<and> io m' = io m
    \<and> screen m' = (screen m)[unat row := replicate 80 (ScreenChar 0x20 (cur_color self))]) m"
  unfolding clear_row_def Let_def by (rule fill_row_wp [OF assms write_cell_wp [OF assms]])

subsection \<open>The cursor\<close>

definition cursor_writes :: "nat \<Rightarrow> (u16 \<times> u8) list" where
  "cursor_writes c = [(0x3D4, 0x0F), (0x3D5, of_nat ((1920 + c) mod 256)), (0x3D4, 0x0E), (0x3D5, of_nat ((1920 + c) div 256))]"

lemma ucast_byte: "(ucast (w AND 0xFF :: u32) :: u8) = of_nat (unat w mod 256)"
proof -
  have "(0xFF :: u32) = mask 8" by (simp add: mask_eq_exp_minus_1)
  then have "w AND 0xFF = take_bit 8 w" by (simp add: take_bit_eq_mask)
  then have "unat (w AND 0xFF) = unat w mod 256" by (simp add: unat_mod take_bit_eq_mod)
  then show ?thesis by (simp add: word_eq_nat_iff unat_ucast_mod unat_of_nat_bounded)
qed

lemma update_cursor_run:
  assumes "unat col < 80"
  shows "update_cursor pr (BUFFER_HEIGHT - 1) col m = Some (Done () (emit (cursor_writes (unat col)) m))"
proof -
  have a: "umul pr (24 :: usize) 80 = Inr 1920" "unat (1920 + col) = 1920 + unat col"
    "uadd pr 1920 col = Inr (1920 + col)"
    using assms by (simp_all add: umul_def uadd_def unat_plus_bounded)
  have b: "(1920 + unat col) div 256 mod 256 = (1920 + unat col) div 256" using assms by simp
  have "unat (drop_bit 8 (1920 + col)) = (1920 + unat col) div 256"
    using a(2) by (simp add: drop_bit_eq_div unat_div)
  then show ?thesis
    using a b
    by (simp add: update_cursor_def BUFFER_HEIGHT_def BUFFER_WIDTH_def outb_run cursor_writes_def ucast_byte)
qed

section \<open>The terminal\<close>

text \<open>The specification: rows of cells, the last one being written, and a column.\<close>

record terminal =
  rows :: "ScreenChar list list"
  column :: nat

definition t_new_line :: "ColorCode \<Rightarrow> terminal \<Rightarrow> terminal" where
  "t_new_line attr t = t\<lparr>rows := tl (rows t) @ [replicate 80 (ScreenChar 0x20 attr)], column := 0\<rparr>"

definition t_edit :: "(ScreenChar list \<Rightarrow> ScreenChar list) \<Rightarrow> terminal \<Rightarrow> terminal" where
  "t_edit f t = t\<lparr>rows := butlast (rows t) @ [f (last (rows t))]\<rparr>"

definition t_putc :: "ColorCode \<Rightarrow> u8 \<Rightarrow> terminal \<Rightarrow> terminal" where
  "t_putc attr c t =
     (if c = 0x0A then t_new_line attr t
      else if c = 0x0D then t\<lparr>column := 0\<rparr>
      else if c = 0x08 then
        (if 0 < column t
         then (t_edit (\<lambda>row. row[column t - 1 := ScreenChar 0x20 attr]) t)\<lparr>column := column t - 1\<rparr> else t)
      else if c = 0x7f then t_edit (\<lambda>row. take (column t) row @ drop (Suc (column t)) row @ [ScreenChar 0x20 attr]) t
      else let t' = t_edit (\<lambda>row. row[column t := ScreenChar c attr]) t in
        if column t = 79 then t_new_line attr t' else t'\<lparr>column := Suc (column t)\<rparr>)"

definition terminal_of :: "VgaBuffer \<Rightarrow> 'z machine_scheme \<Rightarrow> terminal" where
  "terminal_of v m = \<lparr>rows = screen m, column = unat (col_pos v)\<rparr>"

definition vga_inv :: "VgaBuffer \<Rightarrow> bool" where
  "vga_inv v \<longleftrightarrow> unat (col_pos v) < 80"

subsection \<open>Scrolling\<close>

lemma screen_not_Nil [simp]: "screen m \<noteq> []"
  using length_screen [of m] by (metis list.size(3) zero_neq_numeral)

lemma last_screen: "last (screen m) = screen m ! 24"
  by (simp add: last_conv_nth)

lemma shift_wp:
  "wp (for_range 1 BUFFER_HEIGHT (\<lambda>row.
      bnd (lift (usub pr row 1)) (\<lambda>d. copy_within VGA_BUFFER_ADDR 160 BUFFER_HEIGHT row (row + 1) d)))
    (\<lambda>_ m'. vga_frame m m' \<and> io m' = io m \<and> screen m' = tl (screen m) @ [last (screen m)]) m"
  (is "wp (for_range _ _ ?body) ?Q m")
proof -
  let ?I = "\<lambda>k s. vga_frame m s \<and> io s = io m
    \<and> (\<forall>j < 4000. vram s j = (if j < 160 * k then vram m (j + 160) else vram m j))"
  have main: "wp (for_count ?body 24 1) (\<lambda>_. ?I 24) m"
  proof (rule wp_for_count)
    show "?I 0 m" by simp
    fix k s assume k: "k < 24" and I: "?I k s"
    let ?row = "1 + of_nat k :: usize"
    let ?s = "move_bytes (VGA_BUFFER_ADDR + of_nat (160 * k)) (VGA_BUFFER_ADDR + of_nat (160 * Suc k)) (of_nat 160) s"
    have u: "unat (of_nat k :: usize) = k" "unat ?row = Suc k" "unat (?row + 1) = Suc (Suc k)"
      using k by (simp_all add: unat_of_nat_bounded unat_plus_bounded)
    have run: "?body ?row s = Some (Done () ?s)"
    proof -
      have "usub pr ?row 1 = Inr (of_nat k)" using u by (simp add: usub_def word_le_nat_alt)
      moreover have "\<not> ?row + 1 < ?row" using u(2,3) unfolding word_less_nat_alt by simp
      moreover have "\<not> (25 :: usize) < ?row + 1" using u(3) k unfolding word_less_nat_alt by simp
      moreover have "\<not> (25 :: usize) - 1 < of_nat k" using u(1) k unfolding word_less_nat_alt by simp
      ultimately have "copy_within VGA_BUFFER_ADDR 160 BUFFER_HEIGHT ?row (?row + 1) (of_nat k) s = Some (Done () ?s)"
        by (simp add: copy_within_def BUFFER_HEIGHT_def run_basic algebra_simps)
      then show ?thesis using \<open>usub pr ?row 1 = Inr (of_nat k)\<close> by simp
    qed
    have b: "160 * k + 160 \<le> 4000" "160 * Suc k + 160 \<le> 4000" using k by simp_all
    have "vga_frame m ?s" using vram_move(2) [OF b, of s] I vga_frame_trans by blast
    moreover have "io ?s = io m" using I by (simp add: move_bytes_def)
    moreover have "vram ?s j = (if j < 160 * Suc k then vram m (j + 160) else vram m j)" if "j < 4000" for j
    proof -
      have "vram s (j - 160 * k + 160 * Suc k) = vram m (j + 160)" if "160 * k \<le> j" "j < 160 * k + 160"
        using that I k by (simp add: algebra_simps)
      then show ?thesis using vram_move(1) [OF b that, of s] I that by auto
    qed
    ultimately show "wp (?body ?row) (\<lambda>_. ?I (Suc k)) s" using run by (simp add: wp_def)
  qed
  have n: "unat (25 :: usize) - unat (1 :: usize) = 24" by simp
  have Q: "?Q a s" if "?I 24 s" for a s
  proof -
    have "screen s = tl (screen m) @ [last (screen m)]"
    proof (rule screen_eqI)
      fix r c :: nat assume rc: "r < 25" "c < 80"
      show "cell_at (vram s) r c = (tl (screen m) @ [last (screen m)]) ! r ! c"
      proof (cases "r < 24")
        case True
        then show ?thesis using rc that by (simp add: nth_append nth_tl screen_nth cell_at_def algebra_simps)
      next
        case False
        then have "r = 24" using rc by simp
        then show ?thesis using rc that by (simp add: nth_append screen_nth cell_at_def last_screen)
      qed
    qed (auto simp: nth_append nth_tl last_screen)
    then show ?thesis using that by simp
  qed
  show ?thesis
    unfolding for_range_def n [folded BUFFER_HEIGHT_def] by (rule wp_mono [OF main Q])
qed

subsection \<open>Refinement\<close>

text \<open>
  From machine \<open>m\<close> and terminal state \<open>v\<close> the code came to \<open>m'\<close> and \<open>v'\<close> that show the terminal \<open>t\<close>: it
  touched only screen memory and made the port writes \<open>ws\<close>.
\<close>

definition shows_terminal :: "'z machine_scheme \<Rightarrow> VgaBuffer \<Rightarrow> terminal \<Rightarrow> (u16 \<times> u8) list \<Rightarrow> VgaBuffer \<Rightarrow> 'z machine_scheme \<Rightarrow> bool" where
  "shows_terminal m v t ws v' m' \<longleftrightarrow> vga_frame m m' \<and> io m' = io m @ map (\<lambda>(p, d). Out p d) ws
     \<and> terminal_of v' m' = t \<and> cur_color v' = cur_color v \<and> vga_inv v'"

lemma screen_io [simp]: "screen (m\<lparr>io := h\<rparr>) = screen m"
  by (simp add: screen_def vram_def [abs_def])

lemma cursor_frame: "vga_frame m (emit (cursor_writes c) m)"
  unfolding vga_frame_def
  by (intro exI [of _ "ram m"] exI [of _ "map (\<lambda>(p, d). Out p d) (cursor_writes c)"])
    (simp add: vga_events_def cursor_writes_def)

text \<open>The common end of the branches: the column is set and the cursor follows.\<close>

lemma set_column_wp:
  assumes "unat c < 80" "vga_frame m s" "io s = io m"
  shows "wp (let self' = self\<lparr>col_pos := c\<rparr> in andthen (update_cursor pr (BUFFER_HEIGHT - 1) (col_pos self')) (ret self'))
    (shows_terminal m self \<lparr>rows = screen s, column = unat c\<rparr> (cursor_writes (unat c))) s"
  using assms vga_frame_trans [OF assms(2) cursor_frame [of s "unat c"]]
  by (simp add: wp_def update_cursor_run andthen_run run_basic shows_terminal_def terminal_of_def vga_inv_def Let_def)

lemma last_row: "xs \<noteq> [] \<Longrightarrow> n = length xs - 1 \<Longrightarrow> xs[n := f (xs ! n)] = butlast xs @ [f (last xs)]"
  by (metis append_butlast_last_id last_conv_nth length_butlast list_update_length)

lemma screen_last_row: "(screen m)[24 := f (screen m ! 24)] = butlast (screen m) @ [f (last (screen m))]"
  by (rule last_row) simp_all

lemma new_line_wp:
  assumes "vga_frame m s" "io s = io m"
  shows "wp (new_line pr self) (shows_terminal m self (t_new_line (cur_color self) \<lparr>rows = screen s, column = x\<rparr>) (cursor_writes 0)) s"
proof -
  let ?blank = "replicate 80 (ScreenChar 0x20 (cur_color self))"
  have row: "unat (BUFFER_HEIGHT - 1) = 24" by (simp add: BUFFER_HEIGHT_def)
  have upd: "(tl (screen s) @ [last (screen s)])[24 := ?blank] = tl (screen s) @ [?blank]"
    by (simp add: list_update_append)
  have "wp (clear_row self (BUFFER_HEIGHT - 1))
      (\<lambda>_. wp (let self' = self\<lparr>col_pos := 0\<rparr> in andthen (update_cursor pr (BUFFER_HEIGHT - 1) (col_pos self')) (ret self'))
        (shows_terminal m self (t_new_line (cur_color self) \<lparr>rows = screen s, column = x\<rparr>) (cursor_writes 0))) u"
    if u: "vga_frame s u \<and> io u = io s \<and> screen u = tl (screen s) @ [last (screen s)]" for u
  proof (rule wp_mono [OF clear_row_wp])
    show "unat (BUFFER_HEIGHT - 1) < 25" using row by simp
    fix w assume w: "vga_frame u w \<and> io w = io u \<and> screen w = (screen u)[unat (BUFFER_HEIGHT - 1) := ?blank]"
    have "vga_frame m w" using w u assms vga_frame_trans by metis
    moreover have "screen w = tl (screen s) @ [?blank]" using w u row upd by metis
    ultimately show "wp (let self' = self\<lparr>col_pos := 0\<rparr> in andthen (update_cursor pr (BUFFER_HEIGHT - 1) (col_pos self')) (ret self'))
        (shows_terminal m self (t_new_line (cur_color self) \<lparr>rows = screen s, column = x\<rparr>) (cursor_writes 0)) w"
      using set_column_wp [of 0 m w self pr] w u assms by (simp add: t_new_line_def)
  qed
  then show ?thesis
    unfolding new_line_def wp_andthen by (rule wp_mono [OF shift_wp])
qed

lemma write_last_row_wp:
  assumes "unat c < 80"
  shows "wp (write_cell (BUFFER_HEIGHT - 1) c b) (\<lambda>_ s. vga_frame m s \<and> io s = io m
    \<and> screen s = butlast (screen m) @ [(last (screen m))[unat c := b]]) m"
proof -
  have "unat (BUFFER_HEIGHT - 1) = 24" by (simp add: BUFFER_HEIGHT_def)
  then show ?thesis
    using write_cell_wp [of "BUFFER_HEIGHT - 1" c b m] assms
    by (simp add: screen_last_row [of m "\<lambda>row. row[unat c := b]"])
qed

text \<open>Deleting under the cursor: the rest of the row moves one cell to the left.\<close>

lemma delete_wp:
  assumes "unat c < 80"
  shows "wp (copy_within (cell_addr (BUFFER_HEIGHT - 1) 0) 2 BUFFER_WIDTH (c + 1) BUFFER_WIDTH c)
    (\<lambda>_ s. vga_frame m s \<and> io s = io m \<and> screen s = butlast (screen m)
      @ [take (unat c) (last (screen m)) @ drop (Suc (unat c)) (last (screen m)) @ [last (last (screen m))]]) m"
proof -
  let ?c = "unat c" and ?row = "last (screen m)"
  let ?d = "3840 + 2 * ?c" and ?n = "2 * (79 - ?c)"
  let ?s = "move_bytes (VGA_BUFFER_ADDR + of_nat ?d) (VGA_BUFFER_ADDR + of_nat (?d + 2)) (of_nat ?n) m"
  have c1: "unat (c + 1) = Suc ?c" using assms by (simp add: unat_plus_bounded)
  have len: "length ?row = 80" by (simp add: last_screen)
  have run: "copy_within (cell_addr (BUFFER_HEIGHT - 1) 0) 2 BUFFER_WIDTH (c + 1) BUFFER_WIDTH c m = Some (Done () ?s)"
  proof -
    have "\<not> (80 :: usize) < c + 1" using assms c1 unfolding word_less_nat_alt by simp
    moreover have "\<not> (80 :: usize) - (80 - (c + 1)) < c" using assms c1 by (simp add: word_less_nat_alt add.commute)
    moreover have "(80 - (c + 1)) * 2 = (of_nat ?n :: usize)"
      using assms c1 by (simp add: word_eq_nat_iff unat_word_ariths unat_sub_if' word_le_nat_alt unat_of_nat_bounded)
    moreover have "cell_addr (BUFFER_HEIGHT - 1) 0 + c * 2 = VGA_BUFFER_ADDR + of_nat ?d"
      "cell_addr (BUFFER_HEIGHT - 1) 0 + (c + 1) * 2 = VGA_BUFFER_ADDR + of_nat (?d + 2)"
      by (simp_all add: cell_addr_def BUFFER_HEIGHT_def algebra_simps)
    ultimately show ?thesis
      unfolding copy_within_def BUFFER_WIDTH_def
      by (simp only: less_irrefl if_False run_basic simp_thms)
  qed
  have b: "?d + ?n \<le> 4000" "?d + 2 + ?n \<le> 4000" using assms by simp_all
  have "screen ?s = butlast (screen m) @ [take ?c ?row @ drop (Suc ?c) ?row @ [last ?row]]"
  proof (rule screen_eqI)
    show "length (butlast (screen m) @ [take ?c ?row @ drop (Suc ?c) ?row @ [last ?row]]) = 25" by simp
    fix r :: nat assume r: "r < 25"
    then show "length ((butlast (screen m) @ [take ?c ?row @ drop (Suc ?c) ?row @ [last ?row]]) ! r) = 80"
      using assms len by (cases "r < 24") (auto simp: nth_append nth_butlast)
    fix k :: nat assume k: "k < 80"
    have o: "160 * r + 2 * k < 4000" "160 * r + 2 * k + 1 < 4000" using r k by simp_all
    show "cell_at (vram ?s) r k = (butlast (screen m) @ [take ?c ?row @ drop (Suc ?c) ?row @ [last ?row]]) ! r ! k"
    proof (cases "r < 24")
      case True
      then have "cell_at (vram ?s) r k = cell_at (vram m) r k"
        unfolding cell_at_def vram_move(1) [OF b o(1)] vram_move(1) [OF b o(2)] using k by simp
      then show ?thesis using True r k by (simp add: nth_append nth_butlast screen_nth)
    next
      case False
      then have r24: "r = 24" using r by simp
      have "cell_at (vram ?s) 24 k = cell_at (vram m) 24 (if ?c \<le> k \<and> k < 79 then Suc k else k)"
        unfolding cell_at_def vram_move(1) [OF b o(1) [unfolded r24]] vram_move(1) [OF b o(2) [unfolded r24]]
        using k by (auto simp: add.commute)
      also have "\<dots> = ?row ! (if ?c \<le> k \<and> k < 79 then Suc k else k)"
        using k by (simp add: last_screen screen_nth)
      also have "\<dots> = (take ?c ?row @ drop (Suc ?c) ?row @ [last ?row]) ! k"
      proof -
        have "last ?row = ?row ! 79" using len by (subst last_conv_nth) auto
        then show ?thesis using assms len k
          by (cases "k = 79") (auto simp: nth_append min_def nth_Cons split: nat.splits)
      qed
      finally show ?thesis using r24 by (simp add: nth_append)
    qed
  qed
  moreover have "io ?s = io m" by (simp add: move_bytes_def)
  ultimately show ?thesis using run vram_move(2) [OF b, of m] by (simp add: wp_def)
qed

lemma delete_row: "length row = 80 \<Longrightarrow> c < 80 \<Longrightarrow>
  (take c row @ drop (Suc c) row @ [x])[79 := b] = take c row @ drop (Suc c) row @ [b]"
  by (simp add: list_update_append min_def)

text \<open>The ports see the new cursor position, except where the source leaves the cursor alone.\<close>

definition t_ports :: "ColorCode \<Rightarrow> u8 \<Rightarrow> terminal \<Rightarrow> (u16 \<times> u8) list" where
  "t_ports attr c t = (if c = 0x7f \<or> c = 0x08 \<and> column t = 0 then [] else cursor_writes (column (t_putc attr c t)))"

lemma shows_terminal_refl:
  "vga_inv v \<Longrightarrow> shows_terminal m v (terminal_of v m) [] v m"
  by (simp add: shows_terminal_def)

lemma putc_backspace_wp:
  assumes "vga_inv v" "0 < col_pos v"
  shows "wp (putc pr 0x08 v) (shows_terminal m v (t_putc (cur_color v) 0x08 (terminal_of v m))
    (t_ports (cur_color v) 0x08 (terminal_of v m))) m"
proof -
  let ?j = "col_pos v - 1"
  have pos: "0 < unat (col_pos v)" using assms(2) by (simp add: word_less_nat_alt)
  have j: "usub pr (col_pos v) 1 = Inr ?j" "unat ?j = unat (col_pos v) - 1" "unat ?j < 80"
    using assms(1) pos by (simp_all add: usub_def word_le_nat_alt vga_inv_def unat_sub_if')
  have "wp (write_cell (BUFFER_HEIGHT - 1) ?j (screen_char_new 0x20 (cur_color v)))
      (\<lambda>_. wp (let self' = v\<lparr>col_pos := ?j\<rparr> in andthen (update_cursor pr (BUFFER_HEIGHT - 1) (col_pos self')) (ret self'))
        (shows_terminal m v (t_putc (cur_color v) 0x08 (terminal_of v m)) (t_ports (cur_color v) 0x08 (terminal_of v m)))) m"
  proof (rule wp_mono [OF write_last_row_wp [OF j(3)]])
    fix s
    assume s: "vga_frame m s \<and> io s = io m
      \<and> screen s = butlast (screen m) @ [(last (screen m))[unat ?j := screen_char_new 0x20 (cur_color v)]]"
    have "t_putc (cur_color v) 0x08 (terminal_of v m) = \<lparr>rows = screen s, column = unat ?j\<rparr>"
      "t_ports (cur_color v) 0x08 (terminal_of v m) = cursor_writes (unat ?j)"
      using s j(2) pos by (simp_all add: t_putc_def t_ports_def t_edit_def terminal_of_def screen_char_new_def)
    then show "wp (let self' = v\<lparr>col_pos := ?j\<rparr> in andthen (update_cursor pr (BUFFER_HEIGHT - 1) (col_pos self')) (ret self'))
        (shows_terminal m v (t_putc (cur_color v) 0x08 (terminal_of v m)) (t_ports (cur_color v) 0x08 (terminal_of v m))) s"
      using set_column_wp [OF j(3), of m s v pr] s by simp
  qed
  then show ?thesis
    using assms(2) by (simp add: putc_def wp_andthen wp_bnd j(1))
qed

lemma putc_delete_wp:
  assumes "vga_inv v"
  shows "wp (putc pr 0x7f v) (shows_terminal m v (t_putc (cur_color v) 0x7f (terminal_of v m)) []) m"
proof -
  let ?c = "col_pos v" and ?row = "last (screen m)"
  have c: "unat ?c < 80" using assms by (simp add: vga_inv_def)
  have a: "uadd pr ?c 1 = Inr (?c + 1)" using c by (simp add: uadd_def)
  have w79: "unat (BUFFER_WIDTH - 1) = 79" "unat (BUFFER_WIDTH - 1) < 80" by (simp_all add: BUFFER_WIDTH_def)
  have row: "(take (unat ?c) ?row @ drop (Suc (unat ?c)) ?row @ [last ?row])[79 := b]
      = take (unat ?c) ?row @ drop (Suc (unat ?c)) ?row @ [b]" for b
    using c by (intro delete_row) (simp_all add: last_screen)
  have "wp (write_cell (BUFFER_HEIGHT - 1) (BUFFER_WIDTH - 1) (screen_char_new 0x20 (cur_color v)))
      (\<lambda>_. shows_terminal m v (t_putc (cur_color v) 0x7f (terminal_of v m)) [] v) s"
    if s: "vga_frame m s \<and> io s = io m \<and> screen s = butlast (screen m)
      @ [take (unat ?c) ?row @ drop (Suc (unat ?c)) ?row @ [last ?row]]" for s
    by (rule wp_mono [OF write_last_row_wp [OF w79(2)]])
      (use s assms vga_frame_trans [of m s] in
        \<open>auto simp: shows_terminal_def t_putc_def t_edit_def terminal_of_def screen_char_new_def w79(1) row\<close>)
  then have "wp (copy_within (cell_addr (BUFFER_HEIGHT - 1) 0) 2 BUFFER_WIDTH (?c + 1) BUFFER_WIDTH ?c)
      (\<lambda>_. wp (write_cell (BUFFER_HEIGHT - 1) (BUFFER_WIDTH - 1) (screen_char_new 0x20 (cur_color v)))
        (\<lambda>_. shows_terminal m v (t_putc (cur_color v) 0x7f (terminal_of v m)) [] v)) m"
    by (rule wp_mono [OF delete_wp [OF c]])
  then show ?thesis
    by (simp add: putc_def wp_ext a)
qed

definition control :: "u8 \<Rightarrow> bool" where
  "control c \<longleftrightarrow> c = 0x0A \<or> c = 0x0D \<or> c = 0x08 \<or> c = 0x7f"

lemma putc_print_wp:
  assumes "vga_inv v" "\<not> control c"
  shows "wp (putc pr c v) (shows_terminal m v (t_putc (cur_color v) c (terminal_of v m))
    (t_ports (cur_color v) c (terminal_of v m))) m"
proof -
  let ?p = "col_pos v" and ?Q = "shows_terminal m v (t_putc (cur_color v) c (terminal_of v m)) (t_ports (cur_color v) c (terminal_of v m))"
  have p: "unat ?p < 80" using assms(1) by (simp add: vga_inv_def)
  have w: "unat (BUFFER_WIDTH - 1) = 79" by (simp add: BUFFER_WIDTH_def)
  have "wp (if ?p = BUFFER_WIDTH - 1 then new_line pr v
      else bnd (lift (uadd pr ?p 1)) (\<lambda>j. let self' = v\<lparr>col_pos := j\<rparr> in
        andthen (update_cursor pr (BUFFER_HEIGHT - 1) (col_pos self')) (ret self'))) ?Q s"
    if s: "vga_frame m s \<and> io s = io m \<and> screen s = butlast (screen m) @ [(last (screen m))[unat ?p := ScreenChar c (cur_color v)]]" for s
  proof (cases "unat ?p = 79")
    case True
    have "?p = BUFFER_WIDTH - 1" using True w by (simp add: word_eq_nat_iff)
    moreover have "t_ports (cur_color v) c (terminal_of v m) = cursor_writes 0"
      "t_putc (cur_color v) c (terminal_of v m) = t_new_line (cur_color v) \<lparr>rows = screen s, column = 79\<rparr>"
      using assms(2) True s by (simp_all add: t_ports_def t_putc_def t_edit_def terminal_of_def control_def t_new_line_def)
    ultimately show ?thesis using new_line_wp [of m s pr v 79] s by simp
  next
    case False
    then have "?p \<noteq> BUFFER_WIDTH - 1" using w by metis
    moreover have "uadd pr ?p 1 = Inr (?p + 1)" "unat (?p + 1) = Suc (unat ?p)" "unat (?p + 1) < 80"
      using p False by (simp_all add: uadd_def unat_plus_bounded)
    moreover have "t_ports (cur_color v) c (terminal_of v m) = cursor_writes (Suc (unat ?p))"
      "t_putc (cur_color v) c (terminal_of v m) = \<lparr>rows = screen s, column = Suc (unat ?p)\<rparr>"
      using assms(2) False s by (simp_all add: t_ports_def t_putc_def t_edit_def terminal_of_def control_def)
    ultimately show ?thesis using set_column_wp [of "?p + 1" m s v pr] s by simp
  qed
  then have "wp (write_cell (BUFFER_HEIGHT - 1) ?p (ScreenChar c (cur_color v))) (\<lambda>_. wp (if ?p = BUFFER_WIDTH - 1 then new_line pr v
      else bnd (lift (uadd pr ?p 1)) (\<lambda>j. let self' = v\<lparr>col_pos := j\<rparr> in
        andthen (update_cursor pr (BUFFER_HEIGHT - 1) (col_pos self')) (ret self'))) ?Q) m"
    by (rule wp_mono [OF write_last_row_wp [OF p]])
  then show ?thesis
    using assms(2) by (simp add: putc_def control_def wp_andthen screen_char_new_def)
qed

lemma putc_wp:
  assumes "vga_inv v"
  shows "wp (putc pr c v) (shows_terminal m v (t_putc (cur_color v) c (terminal_of v m))
    (t_ports (cur_color v) c (terminal_of v m))) m"
proof -
  consider "\<not> control c" | "c = 0x0A" | "c = 0x0D" | "c = 0x08" "0 < col_pos v" | "c = 0x08" "col_pos v = 0" | "c = 0x7f"
    using word_neq_0_conv by (auto simp: control_def)
  then show ?thesis
  proof cases
    case 1
    then show ?thesis using assms by (intro putc_print_wp)
  next
    case 2
    then show ?thesis
      using new_line_wp [of m m pr v "unat (col_pos v)"]
      by (simp add: putc_def t_putc_def t_ports_def terminal_of_def t_new_line_def)
  next
    case 3
    then show ?thesis
      using set_column_wp [of 0 m m v pr]
      by (simp add: putc_def t_putc_def t_ports_def terminal_of_def)
  next
    case 4
    then show ?thesis using putc_backspace_wp assms by simp
  next
    case 5
    then show ?thesis
      using assms by (simp add: putc_def t_putc_def t_ports_def wp_basic shows_terminal_def terminal_of_def)
  next
    case 6
    then show ?thesis using putc_delete_wp [OF assms] by (simp add: t_ports_def)
  qed
qed

section \<open>Printing\<close>

definition t_puts :: "ColorCode \<Rightarrow> u8 list \<Rightarrow> terminal \<Rightarrow> terminal" where
  "t_puts attr s t = foldl (\<lambda>t c. t_putc attr c t) t s"

lemma t_puts_simps [simp]:
  "t_puts attr [] t = t"
  "t_puts attr (s @ [c]) t = t_putc attr c (t_puts attr s t)"
  by (simp_all add: t_puts_def)

subsection \<open>The cursor register of the display controller\<close>

text \<open>Port 0x3d4 selects a register, port 0x3d5 writes it; 14 and 15 hold the cursor position.\<close>

record crtc =
  crtc_index :: u8
  crtc_reg :: "u8 \<Rightarrow> u8"

definition crtc_write :: "u16 \<Rightarrow> u8 \<Rightarrow> crtc \<Rightarrow> crtc" where
  "crtc_write p d c =
     (if p = 0x3D4 then c\<lparr>crtc_index := d\<rparr>
      else if p = 0x3D5 then c\<lparr>crtc_reg := (crtc_reg c)(crtc_index c := d)\<rparr> else c)"

fun crtc_after :: "io_event list \<Rightarrow> crtc \<Rightarrow> crtc" where
  "crtc_after [] c = c"
| "crtc_after (Out p d # evs) c = crtc_after evs (crtc_write p d c)"
| "crtc_after (In p d # evs) c = crtc_after evs c"

definition cursor :: "crtc \<Rightarrow> nat" where
  "cursor c = 256 * unat (crtc_reg c 0x0E) + unat (crtc_reg c 0x0F)"

lemma crtc_after_append [simp]: "crtc_after (es @ fs) c = crtc_after fs (crtc_after es c)"
  by (induction es c rule: crtc_after.induct) simp_all

lemma cursor_writes_set:
  assumes "col < 80"
  shows "cursor (crtc_after (map (\<lambda>(p, d). Out p d) (cursor_writes col)) c) = 24 * 80 + col"
proof -
  have "unat (of_nat ((1920 + col) mod 256) :: u8) = (1920 + col) mod 256"
    "unat (of_nat ((1920 + col) div 256) :: u8) = (1920 + col) div 256"
    using assms by (simp_all add: unat_of_nat_bounded)
  then show ?thesis
    by (simp add: cursor_def cursor_writes_def crtc_write_def)
qed

text \<open>The cursor stands where the next character will appear.\<close>

definition cursor_ok :: "crtc \<Rightarrow> VgaBuffer \<Rightarrow> 'z machine_scheme \<Rightarrow> bool" where
  "cursor_ok c v m \<longleftrightarrow> cursor (crtc_after (io m) c) = 24 * 80 + unat (col_pos v)"

lemma putc_cursor:
  assumes "shows_terminal m v (t_putc (cur_color v) b (terminal_of v m)) (t_ports (cur_color v) b (terminal_of v m)) v' m'"
    and "cursor_ok c v m"
  shows "cursor_ok c v' m'"
proof -
  let ?t = "t_putc (cur_color v) b (terminal_of v m)"
  have col: "column ?t = unat (col_pos v')" "unat (col_pos v') < 80"
    using assms(1) by (auto simp: shows_terminal_def vga_inv_def terminal_of_def dest: arg_cong [of _ _ column])
  show ?thesis
  proof (cases "b = 0x7f \<or> b = 0x08 \<and> unat (col_pos v) = 0")
    case True
    then have "io m' = io m" "column ?t = unat (col_pos v)"
      using assms(1) by (auto simp: shows_terminal_def t_ports_def t_putc_def t_edit_def terminal_of_def)
    then show ?thesis using assms(2) col by (simp add: cursor_ok_def)
  next
    case False
    then have "io m' = io m @ map (\<lambda>(p, d). Out p d) (cursor_writes (unat (col_pos v')))"
      using assms(1) col(1) by (auto simp: shows_terminal_def t_ports_def terminal_of_def)
    then show ?thesis using cursor_writes_set [OF col(2)] by (simp add: cursor_ok_def)
  qed
qed

lemma vga_write_bytes_wp:
  assumes "vga_inv v"
  shows "wp (vga_write_bytes pr s v) (\<lambda>v' m'. vga_frame m m' \<and> vga_inv v' \<and> cur_color v' = cur_color v
    \<and> terminal_of v' m' = t_puts (cur_color v) s (terminal_of v m) \<and> (\<forall>c. cursor_ok c v m \<longrightarrow> cursor_ok c v' m')) m"
  unfolding vga_write_bytes_def
proof (rule wp_fold_each [where I = "\<lambda>done v' m'. vga_frame m m' \<and> vga_inv v' \<and> cur_color v' = cur_color v
    \<and> terminal_of v' m' = t_puts (cur_color v) done (terminal_of v m) \<and> (\<forall>c. cursor_ok c v m \<longrightarrow> cursor_ok c v' m')"])
  fix "done" x v1 m1
  assume I: "vga_frame m m1 \<and> vga_inv v1 \<and> cur_color v1 = cur_color v
    \<and> terminal_of v1 m1 = t_puts (cur_color v) done (terminal_of v m) \<and> (\<forall>c. cursor_ok c v m \<longrightarrow> cursor_ok c v1 m1)"
  show "wp (putc pr x v1) (\<lambda>v' m'. vga_frame m m' \<and> vga_inv v' \<and> cur_color v' = cur_color v
    \<and> terminal_of v' m' = t_puts (cur_color v) (done @ [x]) (terminal_of v m) \<and> (\<forall>c. cursor_ok c v m \<longrightarrow> cursor_ok c v' m')) m1"
  proof (rule wp_mono [OF putc_wp])
    show "vga_inv v1" using I by simp
    fix v' m'
    assume s: "shows_terminal m1 v1 (t_putc (cur_color v1) x (terminal_of v1 m1)) (t_ports (cur_color v1) x (terminal_of v1 m1)) v' m'"
    then show "vga_frame m m' \<and> vga_inv v' \<and> cur_color v' = cur_color v
      \<and> terminal_of v' m' = t_puts (cur_color v) (done @ [x]) (terminal_of v m) \<and> (\<forall>c. cursor_ok c v m \<longrightarrow> cursor_ok c v' m')"
      using I putc_cursor [OF s] vga_frame_trans [of m m1 m'] by (simp add: shows_terminal_def)
  qed
qed (use assms in simp)

interpretation vga: fmt_write "vga_write_str pr" "vga_write_bytes pr" for pr
  by unfold_locales (simp_all add: vga_write_str_def vga_write_bytes_def fold_each_append)

text \<open>
  C11: Writing any text to the screen returns without a panic, under both profiles, and does to the
  80 by 25 cells in memory exactly what the terminal specification says: characters appear at the
  column in the current color, the last row scrolls up when it is full or at a line feed, carriage
  return, backspace and delete act on the last row. Nothing outside screen memory and the port
  history changes, and the column stays below 80.
\<close>

theorem vga_write_str_refines:
  assumes "vga_inv v"
  shows "\<exists>v' m'. vga_write_str pr s v m = Some (Done (FmtOk, v') m')
    \<and> terminal_of v' m' = t_puts (cur_color v) s (terminal_of v m)
    \<and> vga_inv v' \<and> cur_color v' = cur_color v \<and> vga_frame m m'"
  using vga_write_bytes_wp [OF assms, of pr s m]
  by (auto simp: wp_iff vga_write_str_def bnd_run run_basic)

lemma vga_new_inv: "vga_inv vga_new"
  by (simp add: vga_inv_def vga_new_def)

definition sample_screen :: machine where
  "sample_screen = \<lparr>ram = \<lambda>_. 0, dev = \<lambda>_ _. 0, io = [], cs_reg = 8, esp_reg = 0, cr3_reg = 0,
     idtr = \<lparr>limit = 0, base = 0\<rparr>, intr_flag = False\<rparr>"

theorem vga_write_str_refines_witness:
  "\<exists>v' m'. vga_write_str Debug [0x48, 0x0A] vga_new sample_screen = Some (Done (FmtOk, v') m')
    \<and> terminal_of v' m' = t_puts (cur_color vga_new) [0x48, 0x0A] (terminal_of vga_new sample_screen)
    \<and> vga_inv v' \<and> cur_color v' = cur_color vga_new \<and> vga_frame sample_screen m'"
  by (rule vga_write_str_refines [OF vga_new_inv])

text \<open>
  C36: While text is written, the hardware cursor stays on the cell the next character goes to: if
  the position registers of the display controller hold it before, they hold it afterwards.
\<close>

theorem vga_cursor_follows:
  assumes "vga_inv v" and "cursor (crtc_after (io m) c) = 24 * 80 + unat (col_pos v)"
  shows "\<exists>v' m'. vga_write_str pr s v m = Some (Done (FmtOk, v') m')
    \<and> cursor (crtc_after (io m') c) = 24 * 80 + unat (col_pos v')"
  using vga_write_bytes_wp [OF assms(1), of pr s m] assms(2)
  by (auto simp: wp_iff vga_write_str_def bnd_run run_basic cursor_ok_def)

theorem vga_cursor_follows_witness:
  "\<exists>v' m'. vga_write_str Debug [0x48, 0x49] vga_new (emit (cursor_writes 0) sample_screen) = Some (Done (FmtOk, v') m')
    \<and> cursor (crtc_after (io m') \<lparr>crtc_index = 0, crtc_reg = \<lambda>_. 0\<rparr>) = 24 * 80 + unat (col_pos v')"
proof (rule vga_cursor_follows [OF vga_new_inv])
  show "cursor (crtc_after (io (emit (cursor_writes 0) sample_screen)) \<lparr>crtc_index = 0, crtc_reg = \<lambda>_. 0\<rparr>)
      = 24 * 80 + unat (col_pos vga_new)"
    using cursor_writes_set [of 0 "\<lparr>crtc_index = 0, crtc_reg = \<lambda>_. 0\<rparr>"]
    by (simp add: sample_screen_def vga_new_def)
qed

subsection \<open>Lines of text\<close>

text \<open>Plain characters that fit in the rest of the row go there one after the other.\<close>

lemma t_puts_plain:
  assumes "\<forall>c \<in> set s. \<not> control c" "column t + length s < 80" "rows t \<noteq> []" "length (last (rows t)) = 80"
  shows "t_puts attr s t = \<lparr>rows = butlast (rows t) @ [take (column t) (last (rows t))
      @ map (\<lambda>c. ScreenChar c attr) s @ drop (column t + length s) (last (rows t))], column = column t + length s\<rparr>"
  using assms
proof (induction s rule: rev_induct)
  case Nil
  then show ?case by (cases t) simp
next
  case (snoc c s)
  let ?row = "last (rows t)" and ?k = "column t + length s"
  have IH: "t_puts attr s t = \<lparr>rows = butlast (rows t) @ [take (column t) ?row
      @ map (\<lambda>c. ScreenChar c attr) s @ drop ?k ?row], column = ?k\<rparr>"
    using snoc by simp
  have "drop ?k ?row = ?row ! ?k # drop (Suc ?k) ?row"
    using snoc.prems by (simp add: Cons_nth_drop_Suc)
  then show ?case
    using snoc.prems unfolding t_puts_simps(2) IH
    by (simp add: t_putc_def control_def t_edit_def list_update_append min_def)
qed

lemma scrolled_rows: "length xs = 24 \<Longrightarrow> (tl (xs @ [a]) @ [b]) ! 23 = a \<and> (tl (xs @ [a]) @ [b]) ! 24 = b"
  by (cases xs) (simp_all add: nth_append)

text \<open>
  A line of at most 79 plain characters printed from the first column, with its line feed,
  ends up as the last but one row: the characters in the current color, followed by what was on
  the row to the right of them; the row under it is blank and printing goes on in its first column.
\<close>

theorem println_shows_line:
  assumes "col_pos v = 0" and "\<forall>c \<in> set s. \<not> control c" and "length s < 80"
  shows "\<exists>v' m'. vga_write_str pr (s @ [0x0A]) v m = Some (Done (FmtOk, v') m')
    \<and> screen m' ! 23 = map (\<lambda>c. ScreenChar c (cur_color v)) s @ drop (length s) (screen m ! 24)
    \<and> screen m' ! 24 = replicate 80 (ScreenChar 0x20 (cur_color v)) \<and> col_pos v' = 0"
proof -
  let ?attr = "cur_color v" and ?t = "terminal_of v m"
  have inv: "vga_inv v" using assms(1) by (simp add: vga_inv_def)
  obtain v' m' where run: "vga_write_str pr (s @ [0x0A]) v m = Some (Done (FmtOk, v') m')"
    and t: "terminal_of v' m' = t_puts ?attr (s @ [0x0A]) ?t"
    using vga_write_bytes_wp [OF inv, of pr "s @ [0x0A]" m]
    by (auto simp: wp_iff vga_write_str_def bnd_run run_basic)
  have "t_puts ?attr s ?t = \<lparr>rows = butlast (screen m) @ [map (\<lambda>c. ScreenChar c ?attr) s @ drop (length s) (last (screen m))],
      column = length s\<rparr>"
    using t_puts_plain [of s ?t ?attr] assms by (simp add: terminal_of_def last_screen)
  then have "terminal_of v' m' = \<lparr>rows = tl (butlast (screen m)
      @ [map (\<lambda>c. ScreenChar c ?attr) s @ drop (length s) (last (screen m))]) @ [replicate 80 (ScreenChar 0x20 ?attr)], column = 0\<rparr>"
    unfolding t t_puts_simps(2) by (simp add: t_putc_def t_new_line_def)
  then have "screen m' = tl (butlast (screen m)
      @ [map (\<lambda>c. ScreenChar c ?attr) s @ drop (length s) (last (screen m))]) @ [replicate 80 (ScreenChar 0x20 ?attr)]"
    and col: "unat (col_pos v') = 0"
    by (simp_all add: terminal_of_def)
  then have "screen m' ! 23 = map (\<lambda>c. ScreenChar c ?attr) s @ drop (length s) (screen m ! 24)"
    and "screen m' ! 24 = replicate 80 (ScreenChar 0x20 ?attr)"
    using scrolled_rows [of "butlast (screen m)"] by (simp_all add: last_screen)
  then show ?thesis using run col by (auto simp: unsigned_eq_0_iff)
qed

theorem println_shows_line_witness:
  "\<exists>v' m'. vga_write_str Debug ([0x48, 0x49] @ [0x0A]) vga_new sample_screen = Some (Done (FmtOk, v') m')
    \<and> screen m' ! 23 = map (\<lambda>c. ScreenChar c (cur_color vga_new)) [0x48, 0x49] @ drop (length [0x48 :: u8, 0x49]) (screen sample_screen ! 24)
    \<and> screen m' ! 24 = replicate 80 (ScreenChar 0x20 (cur_color vga_new)) \<and> col_pos v' = 0"
  by (rule println_shows_line) (simp_all add: vga_new_def control_def)

lemma vga_clear_wp:
  "wp (vga_clear self) (\<lambda>_ m'. vga_frame m m' \<and> io m' = io m
    \<and> screen m' = replicate 25 (replicate 80 (ScreenChar 0x20 (cur_color self)))) m"
proof -
  let ?b = "ScreenChar 0x20 (cur_color self)"
  let ?body = "\<lambda>row. for_range 0 BUFFER_WIDTH (\<lambda>col. voliate_write (cell_addr row col) ?b)"
  let ?I = "\<lambda>k s. vga_frame m s \<and> io s = io m \<and> screen s = replicate k (replicate 80 ?b) @ drop k (screen m)"
  have main: "wp (for_count ?body 25 0) (\<lambda>_. ?I 25) m"
  proof (rule wp_for_count)
    show "?I 0 m" by simp
    fix k s assume k: "k < 25" and I: "?I k s"
    have u: "unat (0 + of_nat k :: usize) = k" using k by (simp add: unat_of_nat_bounded)
    have r: "unat (0 + of_nat k :: usize) < 25" using k u by simp
    show "wp (?body (0 + of_nat k)) (\<lambda>_. ?I (Suc k)) s"
    proof (rule wp_mono [OF fill_row_wp [OF r voliate_write_wp [OF r]]])
      fix s' assume s': "vga_frame s s' \<and> io s' = io s
        \<and> screen s' = (screen s)[unat (0 + of_nat k :: usize) := replicate 80 ?b]"
      have "screen s' = replicate (Suc k) (replicate 80 ?b) @ drop (Suc k) (screen m)"
        using s' I u k fill_prefix [of k "screen m" "replicate 80 ?b"] by simp
      moreover have "vga_frame m s'" "io s' = io m" using s' I vga_frame_trans [of m s s'] by simp_all
      ultimately show "?I (Suc k) s'" by (intro conjI)
    qed
  qed
  have n: "unat BUFFER_HEIGHT - unat (0 :: usize) = 25" by (simp add: BUFFER_HEIGHT_def)
  have "replicate 25 (replicate 80 ?b) @ drop 25 (screen m) = replicate 25 (replicate 80 ?b)" by simp
  then show ?thesis
    using main unfolding vga_clear_def Let_def screen_char_new_def for_range_def [of 0 BUFFER_HEIGHT] n by simp
qed

text \<open>
  Clearing blanks all 25 rows in the current color and touches no other memory and no port; in
  particular the column and the hardware cursor stay where they were.
\<close>

theorem vga_clear_blanks:
  "\<exists>m'. vga_clear self m = Some (Done () m') \<and> io m' = io m \<and> vga_frame m m'
    \<and> screen m' = replicate 25 (replicate 80 (ScreenChar 0x20 (cur_color self)))"
  using vga_clear_wp [of self m] by (auto simp: wp_iff)

end
