(* ===== verification/RondKernel.thy ===== *)
theory RondKernel
  imports RondPic RondIntr RondPage RondSingleton RondSerial RondVga
begin

text \<open>
  The kernel state: the machine together with the statics of the source, and the operations that
  go through a static: \<open>print!\<close>, \<open>println!\<close>, \<open>serial_print!\<close>, \<open>serial_println!\<close> and the global
  allocator. Each static is a cell in the sense of \<open>RondSingleton\<close>, kept as a field of its own: \<open>ram\<close> does not
  change when a static does, and is not read at the places of the statics.
\<close>

section \<open>State\<close>

record kernel = machine +
  VGA_BUFFER :: "VgaBuffer Singleton"
  SERIAL_IO :: "SerialPort Singleton"
  INTR_TABLE :: "InterruptDescriptorTable Singleton"
  PAGE_ALLOC :: "PageAllocator Singleton"
  TICKS :: u64

abbreviation vga_static :: "(VgaBuffer, kernel) static" where
  "vga_static \<equiv> (VGA_BUFFER, VGA_BUFFER_update)"

abbreviation serial_static :: "(SerialPort, kernel) static" where
  "serial_static \<equiv> (SERIAL_IO, SERIAL_IO_update)"

abbreviation intr_static :: "(InterruptDescriptorTable, kernel) static" where
  "intr_static \<equiv> (INTR_TABLE, INTR_TABLE_update)"

abbreviation page_static :: "(PageAllocator, kernel) static" where
  "page_static \<equiv> (PAGE_ALLOC, PAGE_ALLOC_update)"

definition idt_default :: "profile \<Rightarrow> (InterruptDescriptorTable, 's) comp" where
  "idt_default pr = lift (idt_new pr)"

text \<open>The thread descriptors of \<open>thread/mod.rs\<close>; nothing creates one yet.\<close>

datatype ThreadState = Running | Ready | Blocking | Dying

record Thread =
  stack :: u32
  pid :: u32
  state :: ThreadState

section \<open>Printing\<close>

text \<open>
  The argument of \<open>_vga_print\<close> and \<open>_serial_print\<close> is what \<open>format_args!\<close> makes: the pieces of the
  text in order. The \<open>println!\<close> forms add the line feed.
\<close>

definition vga_print :: "profile \<Rightarrow> string list \<Rightarrow> (unit, kernel) comp" where
  "vga_print pr args =
     get_mut vga_static vga_default (\<lambda>v. bnd (write_fmt (vga_write_str pr) (map bytes_of args) v) unwrap_fmt)"

definition println :: "profile \<Rightarrow> string list \<Rightarrow> (unit, kernel) comp" where
  "println pr args = vga_print pr (args @ [[CHR 0x0A]])"

definition serial_print :: "profile \<Rightarrow> string list \<Rightarrow> (unit, kernel) comp" where
  "serial_print pr args =
     get_mut serial_static (serial_default pr) (\<lambda>v. bnd (write_fmt (serial_write_str pr) (map bytes_of args) v) unwrap_fmt)"

definition serial_println :: "profile \<Rightarrow> string list \<Rightarrow> (unit, kernel) comp" where
  "serial_println pr args = serial_print pr (args @ [[CHR 0x0A]])"

section \<open>The global allocator\<close>

text \<open>\<open>GlobalAlloc for Allocator\<close>: the layout enters only with its size.\<close>

definition alloc :: "profile \<Rightarrow> usize \<Rightarrow> (usize, kernel) comp" where
  "alloc pr reqsize =
     get_mut page_static (page_allocator_default pr) (\<lambda>pa. bnd (alloc_pages pr pa reqsize) (\<lambda>p. ret (p, pa)))"

definition dealloc :: "profile \<Rightarrow> usize \<Rightarrow> usize \<Rightarrow> (unit, kernel) comp" where
  "dealloc pr ptr reqsize =
     get_mut page_static (page_allocator_default pr) (\<lambda>pa. bnd (dealloc_pages pr pa ptr reqsize) (\<lambda>_. ret ((), pa)))"

section \<open>The statics are cells\<close>

interpretation vga_cell: static_cell VGA_BUFFER VGA_BUFFER_update "vga_default :: (VgaBuffer, kernel) comp"
  by unfold_locales (simp_all add: comp_def)

interpretation serial_cell: static_cell SERIAL_IO SERIAL_IO_update "serial_default pr :: (SerialPort, kernel) comp" for pr
  by unfold_locales (simp_all add: comp_def)

interpretation intr_cell: static_cell INTR_TABLE INTR_TABLE_update "idt_default pr :: (InterruptDescriptorTable, kernel) comp" for pr
  by unfold_locales (simp_all add: comp_def)

interpretation page_cell: static_cell PAGE_ALLOC PAGE_ALLOC_update "page_allocator_default pr :: (PageAllocator, kernel) comp" for pr
  by unfold_locales (simp_all add: comp_def)

abbreviation ready :: "'a \<Rightarrow> 'a Singleton" where
  "ready v \<equiv> \<lparr>inited = SINGLE_INITED, data = Some v\<rparr>"

text \<open>
  The two models of \<open>init\<close> agree. For each of the four statics of the kernel, a run of \<open>init\<close> in
  the sequential model that returns is a run of one thread over the atomic accesses: it makes them
  in order without another thread moving, returns, and leaves the same flag and the same data.
\<close>

theorem init_is_thread_run:
  "runs_as_thread vga_static vga_default \<and> runs_as_thread serial_static (serial_default pr)
    \<and> runs_as_thread intr_static (idt_default pr) \<and> runs_as_thread page_static (page_allocator_default pr)"
  using vga_cell.init_runs_as_thread serial_cell.init_runs_as_thread intr_cell.init_runs_as_thread
    page_cell.init_runs_as_thread by blast

section \<open>What printing does to the kernel state\<close>

lemma vga_frame_kernel:
  assumes "vga_frame s (s' :: kernel)"
  shows "VGA_BUFFER s' = VGA_BUFFER s" "SERIAL_IO s' = SERIAL_IO s" "INTR_TABLE s' = INTR_TABLE s"
    "PAGE_ALLOC s' = PAGE_ALLOC s" "TICKS s' = TICKS s" "dev s' = dev s"
  using assms by (auto simp: vga_frame_def)

lemma vga_print_run:
  assumes "VGA_BUFFER s = ready v" "vga_inv v"
  shows "\<exists>v' s1. vga_print pr args s = Some (Done () (s1\<lparr>VGA_BUFFER := ready v'\<rparr>)) \<and> vga_frame s s1 \<and> vga_inv v'
    \<and> cur_color v' = cur_color v \<and> terminal_of v' s1 = t_puts (cur_color v) (concat (map bytes_of args)) (terminal_of v s)"
proof -
  obtain v' s1 where w: "vga_write_bytes pr (concat (map bytes_of args)) v s = Some (Done v' s1)" "vga_frame s s1" "vga_inv v'"
      "cur_color v' = cur_color v" "terminal_of v' s1 = t_puts (cur_color v) (concat (map bytes_of args)) (terminal_of v s)"
    using vga_write_bytes_wp [OF assms(2), of pr "concat (map bytes_of args)" s] by (auto simp: wp_iff)
  have "(\<lambda>v. bnd (write_fmt (vga_write_str pr) (map bytes_of args) v) unwrap_fmt) v s = Some (Done ((), v') s1)"
    using w(1) by (simp add: vga.print_is_put bnd_run run_basic)
  then have "vga_print pr args s = Some (Done () (VGA_BUFFER_update (data_update (\<lambda>_. Some v')) s1))"
    unfolding vga_print_def using assms(1) by (intro vga_cell.get_mut_done [of v]) (simp_all add: vga_cell.live_def)
  moreover have "VGA_BUFFER_update (data_update (\<lambda>_. Some v')) s1 = s1\<lparr>VGA_BUFFER := ready v'\<rparr>"
    by (rule vga_cell.upd_local) (simp add: vga_frame_kernel(1) [OF w(2)] assms(1))
  ultimately show ?thesis using w by auto
qed

lemma vga_print_first:
  assumes "VGA_BUFFER s = UNINIT"
  shows "vga_print pr args s = vga_print pr args (s\<lparr>VGA_BUFFER := ready vga_new\<rparr>)"
proof -
  let ?s = "vga_cell.started s"
  have "vga_default ?s = Some (Done vga_new ?s)" by (simp add: vga_default_def run_basic)
  then have "vga_print pr args s = vga_print pr args (vga_cell.published vga_new ?s)"
    unfolding vga_print_def using assms by (intro vga_cell.get_mut_first) (simp_all add: UNINIT_def)
  moreover have "vga_cell.published vga_new ?s = s\<lparr>VGA_BUFFER := ready vga_new\<rparr>"
    using assms by (simp add: vga_cell.published_def vga_cell.started_def UNINIT_def)
  ultimately show ?thesis by simp
qed

text \<open>
  \<open>print!\<close> (and \<open>println!\<close>, which is \<open>print!\<close> with one more piece): the first use of the screen constructs its state (column 0, white on
  black) and prints as on that state; later uses continue where the last one stopped and do to the
  screen what the terminal specification says, with all pieces of the formatted text in order. A
  use while the state is still being constructed waits forever.
\<close>

theorem vga_print_semantics:
  "(VGA_BUFFER s = UNINIT \<longrightarrow> vga_print pr args s = vga_print pr args (s\<lparr>VGA_BUFFER := ready vga_new\<rparr>))
    \<and> (\<forall>v. VGA_BUFFER s = ready v \<longrightarrow> vga_inv v \<longrightarrow> (\<exists>v' s1. vga_print pr args s = Some (Done () (s1\<lparr>VGA_BUFFER := ready v'\<rparr>))
        \<and> vga_frame s s1 \<and> vga_inv v' \<and> terminal_of v' s1 = t_puts (cur_color v) (concat (map bytes_of args)) (terminal_of v s)))
    \<and> (inited (VGA_BUFFER s) = SINGLE_INITING \<longrightarrow> vga_print pr args s = None)"
proof (intro conjI allI impI)
  show "vga_print pr args s = vga_print pr args (s\<lparr>VGA_BUFFER := ready vga_new\<rparr>)" if "VGA_BUFFER s = UNINIT"
    using that by (rule vga_print_first)
  show "\<exists>v' s1. vga_print pr args s = Some (Done () (s1\<lparr>VGA_BUFFER := ready v'\<rparr>)) \<and> vga_frame s s1 \<and> vga_inv v'
      \<and> terminal_of v' s1 = t_puts (cur_color v) (concat (map bytes_of args)) (terminal_of v s)"
    if "VGA_BUFFER s = ready v" "vga_inv v" for v
    using vga_print_run [OF that, of pr args] by blast
  show "vga_print pr args s = None" if "inited (VGA_BUFFER s) = SINGLE_INITING"
    using vga_cell.init_initing [OF that] by (simp add: vga_print_def get_mut_def andthen_run)
qed

text \<open>A kernel before anything has been used.\<close>

definition fresh_kernel :: kernel where
  "fresh_kernel = \<lparr>ram = \<lambda>_. 0, dev = \<lambda>_ _. 0x20, io = [], cs_reg = 8, esp_reg = 0xc000eff0, cr3_reg = 0,
     idtr = \<lparr>limit = 0, base = 0\<rparr>, intr_flag = False, VGA_BUFFER = UNINIT, SERIAL_IO = UNINIT, INTR_TABLE = UNINIT,
     PAGE_ALLOC = UNINIT, TICKS = 0\<rparr>"

theorem vga_print_semantics_witness:
  "vga_print Debug [''A''] fresh_kernel = vga_print Debug [''A''] (fresh_kernel\<lparr>VGA_BUFFER := ready vga_new\<rparr>)
    \<and> vga_print Debug [''A''] (fresh_kernel\<lparr>VGA_BUFFER := \<lparr>inited = SINGLE_INITING, data = None\<rparr>\<rparr>) = None"
  using vga_print_semantics [of fresh_kernel Debug "[''A'']"]
    vga_print_semantics [of "fresh_kernel\<lparr>VGA_BUFFER := \<lparr>inited = SINGLE_INITING, data = None\<rparr>\<rparr>" Debug "[''A'']"]
  by (simp add: fresh_kernel_def)

subsection \<open>The serial line\<close>

definition serial_events :: "io_event list \<Rightarrow> bool" where
  "serial_events h \<longleftrightarrow> (\<forall>e \<in> set h. \<exists>p d. (e = Out p d \<or> e = In p d) \<and> p \<in> {0x3f8, 0x3f9, 0x3fa, 0x3fb, 0x3fc, 0x3fd})"

lemma serial_events_simps [simp]:
  "serial_events []" "serial_events (h @ h') \<longleftrightarrow> serial_events h \<and> serial_events h'"
  by (auto simp: serial_events_def)

lemma transmits_events: "transmits 0x3f8 bs evs \<Longrightarrow> serial_events evs"
proof (induction rule: transmits.induct)
  case transmits_nil
  then show ?case by simp
next
  case (transmits_cons ws v bs evs b)
  then show ?case by (auto simp: serial_events_def busy_polls_def)
qed

lemma serial_print_run:
  assumes "SERIAL_IO s = ready (SerialPort 0x3f8)" "uart_at (SerialPort 0x3f8) s"
  shows "\<exists>evs. serial_print pr args s = Some (Done () (s\<lparr>io := io s @ evs\<rparr>))
    \<and> transmits 0x3f8 (concat (map wire (concat (map bytes_of args)))) evs"
proof -
  let ?v = "SerialPort 0x3f8"
  obtain evs where e: "serial_bytes pr (concat (map bytes_of args)) ?v s = Some (Done ?v (s\<lparr>io := io s @ evs\<rparr>))"
      "transmits 0x3f8 (concat (map wire (concat (map bytes_of args)))) evs"
    using serial_bytes_run [OF assms(2), of pr "concat (map bytes_of args)"] by auto
  have "(\<lambda>v. bnd (write_fmt (serial_write_str pr) (map bytes_of args) v) unwrap_fmt) ?v s
      = Some (Done ((), ?v) (s\<lparr>io := io s @ evs\<rparr>))"
    using e(1) by (simp add: serial.print_is_put bnd_run run_basic)
  then have "serial_print pr args s
      = Some (Done () (SERIAL_IO_update (data_update (\<lambda>_. Some ?v)) (s\<lparr>io := io s @ evs\<rparr>)))"
    unfolding serial_print_def using assms(1)
    by (intro serial_cell.get_mut_done [of ?v]) (simp_all add: serial_cell.live_def)
  moreover have "SERIAL_IO_update (data_update (\<lambda>_. Some ?v)) (s\<lparr>io := io s @ evs\<rparr>) = s\<lparr>io := io s @ evs\<rparr>"
    by (rule serial_cell.upd_same) (simp add: assms(1))
  ultimately show ?thesis using e(2) by auto
qed

end
