(* ===== verification/RondHeap.thy ===== *)
theory RondHeap
  imports RondKernel
begin

text \<open>
  The heap: the page allocator behind its static, as \<open>Box\<close> and the other users of \<open>alloc\<close> see it.
  First the size of the managed memory and the outcome of single requests, then the heap as a
  state machine in which clients allocate, free and write to their blocks.
\<close>

section \<open>Construction of the allocator\<close>

text \<open>Pages and bitmap pages for a given amount of memory, in ordinary arithmetic.\<close>

definition bitmap_pages :: "nat \<Rightarrow> nat" where
  "bitmap_pages n = ((n + 7) div 8 + 4095) div 4096"

definition managed_pages :: "nat \<Rightarrow> nat" where
  "managed_pages n = n - bitmap_pages n"

lemma bitmap_pages_le: "bitmap_pages n \<le> n"
  unfolding bitmap_pages_def by linarith

lemma bitmap_new_run:
  assumes "unat n + 7 < 2 ^ 32"
  shows "bitmap_new pr ptr n m = Some (Done \<lparr>data_ptr = ptr, bm_size = n\<rparr>
    (m\<lparr>ram := (\<lambda>a. if a - ptr < (n + 7) div 8 then 0 else ram m a)\<rparr>))"
  using assms by (simp add: bitmap_new_def uadd_def write_bytes_at_def run_basic)

lemma bitmap_new_empty:
  assumes "unat n + 7 < 2 ^ 32"
  shows "used \<lparr>data_ptr = ptr, bm_size = n\<rparr> (m\<lparr>ram := (\<lambda>a. if a - ptr < (n + 7) div 8 then 0 else ram m a)\<rparr>) = {}"
    and "bm_frame \<lparr>data_ptr = ptr, bm_size = n\<rparr> m (m\<lparr>ram := (\<lambda>a. if a - ptr < (n + 7) div 8 then 0 else ram m a)\<rparr>)"
proof -
  have n: "unat ((n + 7) div 8) = (unat n + 7) div 8" using assms by (simp add: unat_div unat_plus_bounded)
  have "(of_nat (i div 8) :: u32) < (n + 7) div 8" if "i < unat n" for i
    using that assms n by (simp add: word_less_nat_alt unat_of_nat_bounded)
  then show "used \<lparr>data_ptr = ptr, bm_size = n\<rparr> (m\<lparr>ram := (\<lambda>a. if a - ptr < (n + 7) div 8 then 0 else ram m a)\<rparr>) = {}"
    by (auto simp: used_def bm_bit_def)
  show "bm_frame \<lparr>data_ptr = ptr, bm_size = n\<rparr> m (m\<lparr>ram := (\<lambda>a. if a - ptr < (n + 7) div 8 then 0 else ram m a)\<rparr>)"
    unfolding bm_frame_def
    by (intro exI [of _ "\<lambda>a. if a - ptr < (n + 7) div 8 then 0 else ram m a"])
      (auto simp: bm_bytes_def word_less_nat_alt n)
qed

lemma page_allocator_default_run:
  assumes "available_mem_size pr m = Some (Done avail m)"
  defines "n \<equiv> unat (ucast avail :: usize) div 4096"
  shows "\<exists>pa m'. page_allocator_default pr m = Some (Done pa m')
    \<and> data_ptr (bitmap pa) = 0xc0100000 \<and> page_count pa = managed_pages n
    \<and> unat (base_addr pa) = 0xc0100000 + 4096 * bitmap_pages n
    \<and> allocated pa m' = {} \<and> bm_frame (bitmap pa) m m'"
proof -
  let ?ms = "ucast avail :: usize"
  let ?pc = "?ms div 4096" let ?bb = "(?pc + 7) div 8" let ?bp = "(?bb + 4095) div 4096" let ?av = "?pc - ?bp"
  have n: "unat ?pc = n" by (simp add: n_def unat_div)
  have b: "n < 2 ^ 20" using unsigned_less [of ?ms, where 'a = nat] by (simp add: n_def)
  have bb: "unat (?pc + 7) = n + 7" "unat ?bb = (n + 7) div 8"
    using b n by (simp_all add: unat_plus_bounded unat_div)
  have bp: "unat (?bb + 4095) = (n + 7) div 8 + 4095" "unat ?bp = bitmap_pages n"
    using b bb(2) by (simp_all add: unat_plus_bounded unat_div bitmap_pages_def)
  have small: "bitmap_pages n \<le> 32" unfolding bitmap_pages_def using b by simp
  have le: "?bp \<le> ?pc" using bitmap_pages_le [of n] bp n by (simp add: word_le_nat_alt)
  have av: "unat ?av = managed_pages n" using le bp(2) n by (simp add: unat_minus_bounded managed_pages_def)
  have mul: "unat (?bp * 4096) = 4096 * bitmap_pages n" using small bp(2) by (simp add: unat_mult_bounded)
  have q: "(n + 7) div 8 < 4294963201" using b by simp
  have arith: "uadd pr ?pc 7 = Inr (?pc + 7)" "uadd pr ?bb 4095 = Inr (?bb + 4095)"
    "usub pr ?pc ?bp = Inr ?av" "umul pr ?bp 4096 = Inr (?bp * 4096)"
    "uadd pr 0xc0100000 (?bp * 4096) = Inr (0xc0100000 + ?bp * 4096)"
    using b n bb(2) bp(2) small le mul q by (simp_all add: uadd_def usub_def umul_def)
  have base: "unat (0xc0100000 + ?bp * 4096) = 0xc0100000 + 4096 * bitmap_pages n"
    using small mul by (simp add: unat_plus_bounded)
  have len: "unat ?av + 7 < 2 ^ 32" using av b by (simp add: managed_pages_def)
  let ?bm = "\<lparr>data_ptr = 0xc0100000, bm_size = ?av\<rparr>"
  let ?m = "m\<lparr>ram := (\<lambda>a. if a - 0xc0100000 < (?av + 7) div 8 then 0 else ram m a)\<rparr>"
  have "page_allocator_default pr m = Some (Done \<lparr>bitmap = ?bm, base_addr = 0xc0100000 + ?bp * 4096\<rparr> ?m)"
    unfolding page_allocator_default_def
    by (simp add: bnd_run assms(1) Let_def arith bitmap_new_run [OF len] run_basic)
  then show ?thesis
    using bitmap_new_empty [OF len, of "0xc0100000" m] av base
    by (intro exI [of _ "\<lparr>bitmap = ?bm, base_addr = 0xc0100000 + ?bp * 4096\<rparr>"] exI [of _ ?m]) simp
qed

text \<open>The allocator is well formed exactly when its memory ends within the address space.\<close>

lemma fresh_allocator_wf:
  assumes "data_ptr (bitmap pa) = 0xc0100000" "page_count pa = managed_pages n"
    "unat (base_addr pa) = 0xc0100000 + 4096 * bitmap_pages n"
  shows "wf_pa pa \<longleftrightarrow> n \<le> 0x3ff00"
proof -
  have "bm_bytes (bitmap pa) \<le> (n + 7) div 8"
    unfolding bm_bytes_def assms(2) managed_pages_def by (intro div_le_mono) simp
  also have "\<dots> \<le> 4096 * bitmap_pages n" unfolding bitmap_pages_def by linarith
  finally have "unat (data_ptr (bitmap pa)) + bm_bytes (bitmap pa) \<le> unat (base_addr pa)"
    using assms(1,3) by simp
  moreover have "base_addr pa mod 4096 = 0"
    unfolding word_eq_nat_iff unat_mod assms(3) by simp
  moreover have "unat (base_addr pa) + 4096 * page_count pa = 0xc0100000 + 4096 * n"
    using bitmap_pages_le [of n] unfolding assms(2,3) managed_pages_def by simp
  ultimately show ?thesis unfolding wf_pa_def by auto
qed

text \<open>
  C22: Once the amount of memory is known, constructing the allocator never panics. It marks every page free, puts the bitmap at
  0xc0100000 in as many pages as it needs and the managed pages behind it, and writes to no other
  memory. It is well formed (page-aligned, bitmap below the pages, all pages addressable) exactly
  when the reported memory, cut to 32 bits, is less than 1 GiB minus 1 MiB plus a page.
\<close>

theorem page_allocator_default_layout:
  assumes "available_mem_size pr m = Some (Done avail m)"
  shows "\<exists>pa m'. page_allocator_default pr m = Some (Done pa m')
    \<and> data_ptr (bitmap pa) = 0xc0100000 \<and> allocated pa m' = {} \<and> bm_frame (bitmap pa) m m'
    \<and> page_count pa = managed_pages (unat avail mod 2 ^ 32 div 4096)
    \<and> unat (base_addr pa) = 0xc0100000 + 4096 * bitmap_pages (unat avail mod 2 ^ 32 div 4096)
    \<and> (wf_pa pa \<longleftrightarrow> unat avail mod 2 ^ 32 < 0x3ff00000 + 4096)"
proof -
  have n: "unat (ucast avail :: usize) = unat avail mod 2 ^ 32" by (simp add: unat_ucast_mod)
  have "unat avail mod 2 ^ 32 div 4096 \<le> 0x3ff00 \<longleftrightarrow> unat avail mod 2 ^ 32 < 0x3ff00000 + 4096"
    using div_less_iff_less_mult [of 4096 "unat avail mod 2 ^ 32" "0x3ff01"] by linarith
  then show ?thesis
    using page_allocator_default_run [OF assms] fresh_allocator_wf unfolding n by metis
qed

theorem page_allocator_default_layout_witness:
  "\<exists>pa m'. page_allocator_default Debug sample_machine = Some (Done pa m') \<and> allocated pa m' = {}
    \<and> bm_frame (bitmap pa) sample_machine m'"
proof -
  obtain n where "available_mem_size Debug sample_machine = Some (Done n sample_machine)"
    using available_mem_size_card [OF sample_get_memlayout sample_in_order] by blast
  then show ?thesis using page_allocator_default_layout by blast
qed

section \<open>Requests\<close>

definition pages_for :: "usize \<Rightarrow> nat" where
  "pages_for sz = (unat sz + 4095) div 4096"

text \<open>The contract of \<open>Layout\<close>: sizes do not exceed \<open>isize::MAX\<close>; allocations are not empty.\<close>

definition valid_size :: "usize \<Rightarrow> bool" where
  "valid_size sz \<longleftrightarrow> 0 < sz \<and> sz \<le> 0x7fffffff"

lemma valid_size_pages:
  assumes "valid_size sz"
  shows "uadd pr sz 4095 = Inr (sz + 4095)" "unat ((sz + 4095) div 4096) = pages_for sz"
    "0 < pages_for sz" "0 < (sz + 4095) div 4096" "unat sz \<le> 4096 * pages_for sz"
proof -
  have s: "0 < unat sz" "unat sz \<le> 0x7fffffff"
    using assms by (simp_all add: valid_size_def word_less_nat_alt word_le_nat_alt)
  then show "uadd pr sz 4095 = Inr (sz + 4095)" by (simp add: uadd_def)
  show u: "unat ((sz + 4095) div 4096) = pages_for sz"
    using s by (simp add: unat_div unat_plus_bounded pages_for_def)
  show p: "0 < pages_for sz" using s by (simp add: pages_for_def div_greater_zero_iff)
  show "0 < (sz + 4095) div 4096" using u p by (simp add: word_less_nat_alt)
  show "unat sz \<le> 4096 * pages_for sz" unfolding pages_for_def by linarith
qed

definition heap_of :: "PageAllocator \<Rightarrow> kernel \<Rightarrow> bool" where
  "heap_of pa s \<longleftrightarrow> PAGE_ALLOC s = \<lparr>inited = SINGLE_INITED, data = Some pa\<rparr>"

lemma heap_of_live: "heap_of pa s = page_cell.live pa s"
  by (simp add: heap_of_def page_cell.live_def)

lemma bm_frame_statics:
  assumes "bm_frame bm s s'"
  shows "PAGE_ALLOC (s' :: kernel) = PAGE_ALLOC s"
  using assms by (auto simp: bm_frame_def)

lemma heap_of_same: "heap_of pa s \<Longrightarrow> PAGE_ALLOC_update (data_update (\<lambda>_. Some pa)) s = s"
  by (rule page_cell.upd_same) (simp add: heap_of_def)

text \<open>A method call on the initialised allocator that leaves its fields alone.\<close>

lemma use_allocator:
  assumes "heap_of pa s" "f pa s = Some (Done (r, pa) s')" "heap_of pa s'"
  shows "get_mut page_static (page_allocator_default pr) f s = Some (Done r s')"
  using page_cell.get_mut_done [of pa s f r pa s' pr] assms heap_of_same [OF assms(3)] by (simp add: heap_of_live)

lemma use_allocator_panics:
  assumes "heap_of pa s" "f pa s = Some (Panicked p s')"
  shows "get_mut page_static (page_allocator_default pr) f s = Some (Panicked p s')"
  using page_cell.get_mut_live [of pa s pr f] assms by (simp add: heap_of_live bnd_run)

lemma alloc_run:
  assumes "heap_of pa s" "wf_pa pa" "valid_size sz"
    and "i < page_count pa" "free_run (page_count pa) (allocated pa s) (pages_for sz) i"
    and "\<And>l. l < i \<Longrightarrow> \<not> free_run (page_count pa) (allocated pa s) (pages_for sz) l"
  shows "\<exists>s'. alloc pr sz s = Some (Done (page_addr pa i) s') \<and> heap_of pa s' \<and> bm_frame (bitmap pa) s s'
    \<and> allocated pa s' = allocated pa s \<union> {i..<i + pages_for sz}"
proof -
  let ?n = "(sz + 4095) div 4096"
  note v = valid_size_pages [OF assms(3)]
  obtain s' where g: "get_page pr pa ?n s = Some (Done (Some (page_addr pa i)) s')"
    and s': "bm_frame (bitmap pa) s s'" "allocated pa s' = allocated pa s \<union> {i..<i + pages_for sz}"
    using get_page_take [OF assms(2,4), of s ?n pr] assms(5,6) by (auto simp: v(2))
  have h: "heap_of pa s'" using assms(1) bm_frame_statics [OF s'(1)] by (simp add: heap_of_def)
  have "bnd (alloc_pages pr pa sz) (\<lambda>p. ret (p, pa)) s = Some (Done (page_addr pa i, pa) s')"
    using g by (simp add: alloc_pages_def v(1) bnd_assoc bnd_run run_basic)
  then have "alloc pr sz s = Some (Done (page_addr pa i) s')"
    unfolding alloc_def using assms(1) h by (intro use_allocator)
  then show ?thesis using s' h by blast
qed

lemma alloc_fail:
  assumes "heap_of pa s" "valid_size sz"
    and "\<And>l. l < page_count pa \<Longrightarrow> \<not> free_run (page_count pa) (allocated pa s) (pages_for sz) l"
  shows "\<exists>p. alloc pr sz s = Some (Panicked p s) \<and> p = (if page_count pa = 0 \<or> page_count pa - 1 \<in> allocated pa s
      then UnwrapNone else AssertFailed)"
proof -
  let ?n = "(sz + 4095) div 4096"
  note v = valid_size_pages [OF assms(2)]
  have "alloc_pages pr pa sz s = Some (Panicked (if page_count pa = 0 \<or> page_count pa - 1 \<in> allocated pa s
      then UnwrapNone else AssertFailed) s)"
    using get_page_fail [of pa s ?n pr] assms(3) by (simp add: alloc_pages_def v(1,2) bnd_run run_basic)
  then have "bnd (alloc_pages pr pa sz) (\<lambda>p. ret (p, pa)) s = Some (Panicked (if page_count pa = 0 \<or> page_count pa - 1 \<in> allocated pa s
      then UnwrapNone else AssertFailed) s)"
    by (rule bnd_run(2))
  then show ?thesis
    unfolding alloc_def using use_allocator_panics [OF assms(1), where f = "\<lambda>pa. bnd (alloc_pages pr pa sz) (\<lambda>p. ret (p, pa))"]
    by simp
qed

lemma dealloc_run:
  assumes "heap_of pa s" "wf_pa pa" "valid_size sz"
    and "i + pages_for sz \<le> page_count pa" "{i..<i + pages_for sz} \<subseteq> allocated pa s"
  shows "\<exists>s'. dealloc pr (page_addr pa i) sz s = Some (Done () s') \<and> heap_of pa s' \<and> bm_frame (bitmap pa) s s'
    \<and> allocated pa s' = allocated pa s - {i..<i + pages_for sz}"
proof -
  let ?n = "(sz + 4095) div 4096"
  note v = valid_size_pages [OF assms(3)]
  have i: "i < page_count pa" using assms(4) v(3) by simp
  obtain s' where g: "free_page pr pa (page_addr pa i) ?n s = Some (Done () s')"
    and s': "bm_frame (bitmap pa) s s'" "allocated pa s' = allocated pa s - {i..<i + pages_for sz}"
    using free_page_give [OF assms(2) i, of ?n s pr] assms(4,5) by (auto simp: v(2))
  have h: "heap_of pa s'" using assms(1) bm_frame_statics [OF s'(1)] by (simp add: heap_of_def)
  have "bnd (dealloc_pages pr pa (page_addr pa i) sz) (\<lambda>_. ret ((), pa)) s = Some (Done ((), pa) s')"
    using g by (simp add: dealloc_pages_def v(1) bnd_run run_basic)
  then have "dealloc pr (page_addr pa i) sz s = Some (Done () s')"
    unfolding dealloc_def using assms(1) h by (intro use_allocator)
  then show ?thesis using s' h by blast
qed

lemma dealloc_reject:
  assumes "heap_of pa s" "wf_pa pa" "valid_size sz" "\<not> owned_run pa s p ((sz + 4095) div 4096)"
  shows "\<exists>e. dealloc pr p sz s = Some (Panicked e s) \<and> e \<in> {AssertFailed, ArithOverflow}"
proof -
  note v = valid_size_pages [OF assms(3)]
  obtain e where d: "dealloc_pages pr pa p sz s = Some (Panicked e s)" and e: "e \<in> {AssertFailed, ArithOverflow}"
    using free_page_reject [OF assms(2) v(4) assms(4), of pr] by (simp add: dealloc_pages_def v(1) split: if_splits)
  have "bnd (dealloc_pages pr pa p sz) (\<lambda>_. ret ((), pa)) s = Some (Panicked e s)" using d by (rule bnd_run(2))
  then show ?thesis
    unfolding dealloc_def using e use_allocator_panics [OF assms(1), where f = "\<lambda>pa. bnd (dealloc_pages pr pa p sz) (\<lambda>_. ret ((), pa))"]
    by auto
qed

section \<open>The heap as a state machine\<close>

text \<open>
  Clients of the heap: they allocate, free a block they hold with the layout they got it with, and
  write into the blocks they hold. \<open>blocks\<close> is the set of blocks in use, as address and size.
\<close>

type_synonym heap = "kernel \<times> (usize \<times> usize) set"

inductive heap_step :: "profile \<Rightarrow> heap \<Rightarrow> heap \<Rightarrow> bool" for pr :: profile where
  step_alloc: "valid_size sz \<Longrightarrow> alloc pr sz s = Some (Done p s') \<Longrightarrow> heap_step pr (s, B) (s', insert (p, sz) B)"
| step_free: "(p, sz) \<in> B \<Longrightarrow> dealloc pr p sz s = Some (Done () s') \<Longrightarrow> heap_step pr (s, B) (s', B - {(p, sz)})"
| step_store: "(p, sz) \<in> B \<Longrightarrow> unat (a - p) < unat sz \<Longrightarrow>
    heap_step pr (s, B) (s\<lparr>ram := (ram s)(a := v)\<rparr>, B)"

definition heap_init :: "PageAllocator \<Rightarrow> heap \<Rightarrow> bool" where
  "heap_init pa h \<longleftrightarrow> heap_of pa (fst h) \<and> wf_pa pa \<and> allocated pa (fst h) = {} \<and> snd h = {}"

text \<open>The pages of a block.\<close>

definition block_pages :: "PageAllocator \<Rightarrow> usize \<times> usize \<Rightarrow> nat set" where
  "block_pages pa b = (let i = unat ((fst b - base_addr pa) div 4096) in {i..<i + pages_for (snd b)})"

definition block_ok :: "PageAllocator \<Rightarrow> usize \<times> usize \<Rightarrow> bool" where
  "block_ok pa b \<longleftrightarrow> valid_size (snd b) \<and>
     (\<exists>i. fst b = page_addr pa i \<and> i + pages_for (snd b) \<le> page_count pa)"

definition heap_inv :: "PageAllocator \<Rightarrow> heap \<Rightarrow> bool" where
  "heap_inv pa h \<longleftrightarrow> heap_of pa (fst h) \<and> wf_pa pa \<and> (\<forall>b \<in> snd h. block_ok pa b)
     \<and> (\<forall>b \<in> snd h. \<forall>b' \<in> snd h. b \<noteq> b' \<longrightarrow> block_pages pa b \<inter> block_pages pa b' = {})
     \<and> allocated pa (fst h) = (\<Union>b \<in> snd h. block_pages pa b)"

lemma block_pages_at:
  assumes "wf_pa pa" "valid_size sz" "i + pages_for sz \<le> page_count pa"
  shows "block_pages pa (page_addr pa i, sz) = {i..<i + pages_for sz}"
  using page_index(3) [OF assms(1), of i] assms(3) valid_size_pages(3) [OF assms(2)]
  by (simp add: block_pages_def)

lemma block_ok_pages:
  assumes "wf_pa pa" "block_ok pa b"
  obtains i where "fst b = page_addr pa i" "i + pages_for (snd b) \<le> page_count pa" "i < page_count pa"
    "block_pages pa b = {i..<i + pages_for (snd b)}" "valid_size (snd b)"
proof -
  obtain i where i: "fst b = page_addr pa i" "i + pages_for (snd b) \<le> page_count pa" and v: "valid_size (snd b)"
    using assms(2) by (auto simp: block_ok_def)
  moreover have "i < page_count pa" using i(2) valid_size_pages(3) [OF v] by simp
  moreover have "block_pages pa b = {i..<i + pages_for (snd b)}"
    using block_pages_at [OF assms(1) v i(2)] i(1) by (metis prod.collapse)
  ultimately show thesis using that by blast
qed

text \<open>A block's bytes lie behind the bitmap, in the block's pages.\<close>

lemma block_bytes:
  assumes "wf_pa pa" "fst b = page_addr pa i" "i + pages_for (snd b) \<le> page_count pa" "valid_size (snd b)"
    and "unat (a - fst b) < unat (snd b)"
  shows "unat (base_addr pa) + 4096 * i \<le> unat a" "unat a < unat (base_addr pa) + 4096 * (i + pages_for (snd b))"
proof -
  have i: "i < page_count pa" using assms(3) valid_size_pages(3) [OF assms(4)] by simp
  note u = page_addr_arith(3) [OF assms(1) i]
  have sz: "unat (snd b) \<le> 4096 * pages_for (snd b)" by (rule valid_size_pages(5) [OF assms(4)])
  have "unat (fst b) + unat (a - fst b) < 2 ^ 32"
    using assms(1,3,5) sz unfolding assms(2) u wf_pa_def by simp
  then have "unat a = unat (fst b) + unat (a - fst b)"
    using unat_plus_bounded [of "fst b" "a - fst b"] by simp
  then show "unat (base_addr pa) + 4096 * i \<le> unat a" "unat a < unat (base_addr pa) + 4096 * (i + pages_for (snd b))"
    using assms(5) sz unfolding assms(2) u by simp_all
qed

text \<open>What the invariant says of addresses.\<close>

lemma heap_inv_blocks:
  assumes "heap_inv pa (s, B)" "(p, sz) \<in> B"
  shows "unat p mod 4096 = 0 \<and> unat (base_addr pa) \<le> unat p
    \<and> unat p + unat sz \<le> unat (base_addr pa) + 4096 * page_count pa
    \<and> (\<forall>(q, sq) \<in> B. (q, sq) \<noteq> (p, sz) \<longrightarrow> unat p + unat sz \<le> unat q \<or> unat q + unat sq \<le> unat p)"
proof -
  note inv = assms(1)
  then have wf: "wf_pa pa" by (simp add: heap_inv_def)
  have at: "\<exists>i. unat p = unat (base_addr pa) + 4096 * i \<and> unat p mod 4096 = 0 \<and> i + pages_for sz \<le> page_count pa
      \<and> block_pages pa (p, sz) = {i..<i + pages_for sz} \<and> 0 < pages_for sz \<and> unat sz \<le> 4096 * pages_for sz"
    if "(p, sz) \<in> B" for p sz
  proof -
    have "block_ok pa (p, sz)" using inv that by (auto simp: heap_inv_def)
    then obtain i where i: "p = page_addr pa i" "i + pages_for sz \<le> page_count pa" "i < page_count pa"
        "block_pages pa (p, sz) = {i..<i + pages_for sz}" "valid_size sz"
      using block_ok_pages [OF wf, of "(p, sz)"] by auto
    then show ?thesis
      using page_addr_arith(3) [OF wf i(3)] page_index(2) [OF wf i(3)] valid_size_pages(3,5) [OF i(5)]
      by (auto simp: word_eq_nat_iff unat_mod intro!: exI [of _ i])
  qed
  obtain i where i: "unat p = unat (base_addr pa) + 4096 * i" "unat p mod 4096 = 0" "i + pages_for sz \<le> page_count pa"
      "block_pages pa (p, sz) = {i..<i + pages_for sz}" "0 < pages_for sz" "unat sz \<le> 4096 * pages_for sz"
    using at [OF assms(2)] by (elim exE conjE) (rule that)
  have "unat p + unat sz \<le> unat q \<or> unat q + unat sq \<le> unat p" if q: "(q, sq) \<in> B" "(q, sq) \<noteq> (p, sz)" for q sq
  proof -
    obtain j where j: "unat q = unat (base_addr pa) + 4096 * j" "block_pages pa (q, sq) = {j..<j + pages_for sq}"
        "0 < pages_for sq" "unat sq \<le> 4096 * pages_for sq"
      using at [OF q(1)] by (elim exE conjE) (rule that)
    have "{i..<i + pages_for sz} \<inter> {j..<j + pages_for sq} = {}"
      using inv assms(2) q unfolding heap_inv_def snd_conv i(4) [symmetric] j(2) [symmetric] by metis
    then have "i + pages_for sz \<le> j \<or> j + pages_for sq \<le> i"
      using i(5) j(3) by (metis disjoint_iff atLeastLessThan_iff less_add_same_cancel1 linorder_not_le nat_le_linear order.refl)
    then show ?thesis using i(1,6) j(1,4) by linarith
  qed
  moreover have "4096 * (i + pages_for sz) \<le> 4096 * page_count pa" using i(3) by (rule mult_le_mono2)
  ultimately show ?thesis using i(1,2,6) by auto
qed

lemma heap_inv_byte:
  assumes "heap_inv pa (s, B)" "(p, sz) \<in> B" "unat (a - p) < unat sz"
  shows "unat (base_addr pa) \<le> unat a"
proof -
  have wf: "wf_pa pa" and ok: "block_ok pa (p, sz)" using assms(1,2) by (auto simp: heap_inv_def)
  obtain i where "p = page_addr pa i" "i + pages_for sz \<le> page_count pa" "valid_size sz"
    using block_ok_pages [OF wf ok] by auto
  then show ?thesis using block_bytes(1) [OF wf, of "(p, sz)" i a] assms(3) by simp
qed

text \<open>Memory behind the bitmap is no part of it.\<close>

lemma behind_bitmap:
  assumes "wf_pa pa" "unat (base_addr pa) \<le> unat a"
  shows "bm_bytes (bitmap pa) \<le> unat (a - data_ptr (bitmap pa))"
proof -
  have "unat (data_ptr (bitmap pa)) + bm_bytes (bitmap pa) \<le> unat a"
    using assms by (simp add: wf_pa_def)
  moreover from this have "unat (a - data_ptr (bitmap pa)) = unat a - unat (data_ptr (bitmap pa))"
    by (simp add: unat_minus_bounded word_le_nat_alt)
  ultimately show ?thesis by simp
qed

text \<open>The bytes of the bitmap lie in front of the pages.\<close>

lemma bitmap_addr:
  assumes "wf_pa pa" "i < page_count pa"
  shows "unat (data_ptr (bitmap pa) + of_nat (i div 8)) = unat (data_ptr (bitmap pa)) + i div 8"
    "unat (data_ptr (bitmap pa)) + i div 8 < unat (base_addr pa)"
proof -
  have "i div 8 < bm_bytes (bitmap pa)" using assms(2) by (auto simp: bm_bytes_def)
  then show lt: "unat (data_ptr (bitmap pa)) + i div 8 < unat (base_addr pa)"
    using assms(1) by (simp add: wf_pa_def)
  then have "unat (data_ptr (bitmap pa)) + i div 8 < 2 ^ 32"
    using unsigned_less [of "base_addr pa", where 'a = nat] by simp
  then show "unat (data_ptr (bitmap pa) + of_nat (i div 8)) = unat (data_ptr (bitmap pa)) + i div 8"
    by (simp add: unat_plus_bounded unat_of_nat_bounded)
qed

lemma allocated_ram:
  assumes "wf_pa pa" "\<And>a. unat (data_ptr (bitmap pa)) \<le> unat a \<Longrightarrow> unat a < unat (base_addr pa) \<Longrightarrow> ram s' a = ram s a"
  shows "allocated pa s' = allocated pa s"
proof -
  have "bm_bit (bitmap pa) s' i = bm_bit (bitmap pa) s i" if "i < page_count pa" for i
    unfolding bm_bit_def using assms(2) bitmap_addr [OF assms(1) that] by simp
  then show ?thesis by (auto simp: used_def)
qed

lemma allocated_store:
  assumes "wf_pa pa" "unat (base_addr pa) \<le> unat a"
  shows "allocated pa (s\<lparr>ram := (ram s)(a := v)\<rparr>) = allocated pa s"
  by (rule allocated_ram [OF assms(1)]) (use assms(2) in auto)

lemma heap_inv_store:
  assumes "heap_inv pa (s, B)" "(p, sz) \<in> B" "unat (a - p) < unat sz"
  shows "heap_inv pa (s\<lparr>ram := (ram s)(a := v)\<rparr>, B)"
proof -
  have wf: "wf_pa pa" using assms(1) by (simp add: heap_inv_def)
  have "unat (base_addr pa) \<le> unat a" by (rule heap_inv_byte [OF assms])
  then show ?thesis
    using assms(1) allocated_store [OF wf, of a s v] by (simp add: heap_inv_def heap_of_def)
qed

lemma alloc_result:
  assumes "heap_of pa s" "wf_pa pa" "valid_size sz" "alloc pr sz s = Some (Done p s')"
  obtains i where "p = page_addr pa i" "i + pages_for sz \<le> page_count pa"
    "{i..<i + pages_for sz} \<inter> allocated pa s = {}" "heap_of pa s'" "bm_frame (bitmap pa) s s'"
    "allocated pa s' = allocated pa s \<union> {i..<i + pages_for sz}"
proof (cases "\<exists>i < page_count pa. free_run (page_count pa) (allocated pa s) (pages_for sz) i")
  case False
  then show thesis using alloc_fail [OF assms(1,3), of pr] assms(4) by auto
next
  case True
  then obtain i where i: "i < page_count pa" "free_run (page_count pa) (allocated pa s) (pages_for sz) i"
      "\<And>l. l < i \<Longrightarrow> \<not> free_run (page_count pa) (allocated pa s) (pages_for sz) l"
    using bitmap.first_run [of "bitmap pa" s "pages_for sz"] by metis
  then show thesis
    using alloc_run [OF assms(1-3) i, of pr] assms(4) that [of i] by (auto simp: free_run_def)
qed

lemma heap_inv_alloc:
  assumes "heap_inv pa (s, B)" "valid_size sz" "alloc pr sz s = Some (Done p s')"
  shows "heap_inv pa (s', insert (p, sz) B)"
proof -
  have h: "heap_of pa s" "wf_pa pa" and al: "allocated pa s = (\<Union>b \<in> B. block_pages pa b)"
    using assms(1) by (auto simp: heap_inv_def)
  obtain i where i: "p = page_addr pa i" "i + pages_for sz \<le> page_count pa"
      "{i..<i + pages_for sz} \<inter> allocated pa s = {}" "heap_of pa s'"
      "allocated pa s' = allocated pa s \<union> {i..<i + pages_for sz}"
    using alloc_result [OF h assms(2,3)] by metis
  have pages: "block_pages pa (p, sz) = {i..<i + pages_for sz}"
    using block_pages_at [OF h(2) assms(2) i(2)] i(1) by simp
  have "block_pages pa (p, sz) \<inter> block_pages pa b = {}" if "b \<in> B" for b
    using i(3) that unfolding pages al by blast
  then show ?thesis
    using assms(1,2) i pages al unfolding heap_inv_def fst_conv snd_conv
    by (auto simp: block_ok_def Int_commute)
qed

lemma heap_inv_free:
  assumes "heap_inv pa (s, B)" "(p, sz) \<in> B"
  shows "\<exists>s'. dealloc pr p sz s = Some (Done () s') \<and> heap_inv pa (s', B - {(p, sz)})
    \<and> bm_frame (bitmap pa) s s' \<and> allocated pa s' = allocated pa s - block_pages pa (p, sz)"
proof -
  have h: "heap_of pa s" "wf_pa pa" "block_ok pa (p, sz)" and al: "allocated pa s = (\<Union>b \<in> B. block_pages pa b)"
    and disj: "\<And>b. b \<in> B \<Longrightarrow> b \<noteq> (p, sz) \<Longrightarrow> block_pages pa b \<inter> block_pages pa (p, sz) = {}"
    using assms by (auto simp: heap_inv_def)
  obtain i where i: "p = page_addr pa i" "i + pages_for sz \<le> page_count pa" "valid_size sz"
      "block_pages pa (p, sz) = {i..<i + pages_for sz}"
    using block_ok_pages [OF h(2,3)] by auto
  have "{i..<i + pages_for sz} \<subseteq> allocated pa s" using al assms(2) i(4) by auto
  then obtain s' where s': "dealloc pr p sz s = Some (Done () s')" "heap_of pa s'" "bm_frame (bitmap pa) s s'"
      "allocated pa s' = allocated pa s - block_pages pa (p, sz)"
    using dealloc_run [OF h(1,2) i(3) i(2), of pr] i(1,4) by auto
  have "allocated pa s' = (\<Union>b \<in> B - {(p, sz)}. block_pages pa b)"
    unfolding s'(4) al using disj by blast
  then have "heap_inv pa (s', B - {(p, sz)})"
    using assms(1) s'(2) by (auto simp: heap_inv_def)
  then show ?thesis using s' by blast
qed

interpretation heap: invariant_system "heap_init pa" "heap_step pr" "heap_inv pa" for pa pr
proof
  show "heap_inv pa h" if "heap_init pa h" for h
    using that by (simp add: heap_init_def heap_inv_def)
  show "heap_inv pa h'" if inv: "heap_inv pa h" and "heap_step pr h h'" for h h'
    using that(2)
  proof cases
    case (step_alloc sz s p s' B)
    then show ?thesis using inv heap_inv_alloc by blast
  next
    case (step_free p sz B s s')
    then show ?thesis using inv heap_inv_free [of pa s B p sz pr] by auto
  next
    case (step_store p sz B a s v)
    then show ?thesis using inv heap_inv_store by blast
  qed
qed

section \<open>Properties\<close>

text \<open>A small heap for the examples: 16 pages behind one bitmap page.\<close>

definition sample_pa :: PageAllocator where
  "sample_pa = \<lparr>bitmap = \<lparr>data_ptr = 0xc0100000, bm_size = 16\<rparr>, base_addr = 0xc0101000\<rparr>"

definition sample_kernel :: kernel where
  "sample_kernel = fresh_kernel\<lparr>PAGE_ALLOC := ready sample_pa\<rparr>"

lemma sample_heap: "heap_of sample_pa sample_kernel" "wf_pa sample_pa" "allocated sample_pa sample_kernel = {}"
  "page_count sample_pa = 16" "base_addr sample_pa = 0xc0101000"
  by (simp_all add: heap_of_def sample_kernel_def fresh_kernel_def wf_pa_def sample_pa_def bm_bytes_def used_def bm_bit_def)

lemma sample_init: "heap_init sample_pa (sample_kernel, {})"
  by (simp add: heap_init_def sample_heap)

text \<open>
  C18: An allocation takes the first run of free pages that is long enough: the address is that of
  its first page, exactly these pages become allocated, and of all memory only the bitmap changes.
\<close>

theorem alloc_first_fit:
  assumes "heap_of pa s" and "wf_pa pa" and "valid_size sz"
    and "i + pages_for sz \<le> page_count pa" and "{i..<i + pages_for sz} \<inter> allocated pa s = {}"
    and "\<And>l. l < i \<Longrightarrow> {l..<l + pages_for sz} \<inter> allocated pa s \<noteq> {}"
  shows "\<exists>s'. alloc pr sz s = Some (Done (base_addr pa + of_nat (4096 * i)) s')
    \<and> heap_of pa s' \<and> allocated pa s' = allocated pa s \<union> {i..<i + pages_for sz} \<and> bm_frame (bitmap pa) s s'"
proof -
  have "i < page_count pa" using assms(4) valid_size_pages(3) [OF assms(3)] by simp
  then show ?thesis
    using alloc_run [OF assms(1-3), of i pr] assms(4-6) by (auto simp: free_run_def page_addr_def)
qed

theorem alloc_first_fit_witness:
  "\<exists>s'. alloc Debug 5000 sample_kernel = Some (Done (base_addr sample_pa + of_nat (4096 * 0)) s')
    \<and> heap_of sample_pa s' \<and> allocated sample_pa s' = allocated sample_pa sample_kernel \<union> {0..<0 + pages_for 5000}
    \<and> bm_frame (bitmap sample_pa) sample_kernel s'"
  by (rule alloc_first_fit) (simp_all add: sample_heap valid_size_def pages_for_def)

text \<open>
  An allocation honours the layout's alignment up to the page size, whatever the state of the
  heap: the address is a multiple of every power of two up to 4096, and it is not null when the
  pages do not start at address 0.
\<close>

theorem alloc_alignment:
  assumes "heap_of pa s" and "wf_pa pa" and "valid_size sz" and "alloc pr sz s = Some (Done p s')" and "k \<le> 12"
  shows "unat p mod 2 ^ k = 0 \<and> (base_addr pa \<noteq> 0 \<longrightarrow> p \<noteq> 0)"
proof -
  obtain i where i: "p = page_addr pa i" "i + pages_for sz \<le> page_count pa"
    using alloc_result [OF assms(1-4)] by metis
  have lt: "i < page_count pa" using i(2) valid_size_pages(3) [OF assms(3)] by simp
  have "(2 :: nat) ^ k dvd 2 ^ 12" using assms(5) by (rule le_imp_power_dvd)
  moreover have "4096 dvd unat (base_addr pa)"
    using assms(2) by (simp add: wf_pa_def word_eq_nat_iff unat_mod dvd_eq_mod_eq_0)
  ultimately have "2 ^ k dvd unat (base_addr pa) + 4096 * i"
    by (intro dvd_add dvd_mult2) (auto intro: dvd_trans)
  then have "unat p mod 2 ^ k = 0" unfolding i(1) page_addr_arith(3) [OF assms(2) lt] by simp
  moreover have "p \<noteq> 0" if "base_addr pa \<noteq> 0"
    using that page_addr_arith(3) [OF assms(2) lt] by (auto simp: i(1) unsigned_eq_0_iff)
  ultimately show ?thesis by blast
qed

theorem alloc_alignment_witness:
  "\<exists>p s'. alloc Debug 5000 sample_kernel = Some (Done p s') \<and> unat p mod 2 ^ 12 = 0 \<and> p \<noteq> 0"
proof -
  have v: "valid_size 5000" by (simp add: valid_size_def)
  obtain s' where a: "alloc Debug 5000 sample_kernel = Some (Done (page_addr sample_pa 0) s')"
    using alloc_run [OF sample_heap(1,2) v, of 0 Debug] by (auto simp: sample_heap free_run_def pages_for_def)
  have "base_addr sample_pa \<noteq> 0" by (simp add: sample_heap)
  then have "unat (page_addr sample_pa 0) mod 2 ^ 12 = 0 \<and> page_addr sample_pa 0 \<noteq> 0"
    using alloc_alignment [OF sample_heap(1,2) v a, of 12] by simp
  then show ?thesis using a by (intro exI [of _ "page_addr sample_pa 0"] exI [of _ s'] conjI) simp_all
qed

text \<open>Beyond the page size it is not honoured: this block has no alignment of 8192.\<close>

lemma alloc_large_alignment: "\<exists>p s'. alloc Debug 8192 sample_kernel = Some (Done p s') \<and> unat p mod 8192 \<noteq> 0"
  using alloc_run [OF sample_heap(1,2), of 8192 0 Debug]
  by (auto simp: sample_heap free_run_def valid_size_def pages_for_def page_addr_def)

text \<open>
  C19: When no run of free pages is long enough, the allocation panics and changes nothing: with the
  failed \<open>unwrap\<close> the source intends only if the last page is in use; if the last page is free, the
  search runs past the end of the bitmap and its bounds assertion fails instead.
\<close>

theorem alloc_exhausted:
  assumes "heap_of pa s" and "valid_size sz" and "0 < page_count pa"
    and "\<And>i. i + pages_for sz \<le> page_count pa \<Longrightarrow> {i..<i + pages_for sz} \<inter> allocated pa s \<noteq> {}"
  shows "alloc pr sz s = Some (Panicked (if page_count pa - 1 \<in> allocated pa s then UnwrapNone else AssertFailed) s)"
  using alloc_fail [OF assms(1,2), of pr] assms(3,4) by (auto simp: free_run_def)

theorem alloc_exhausted_witness: "alloc Debug 0x11000 sample_kernel = Some (Panicked AssertFailed sample_kernel)"
  using alloc_exhausted [OF sample_heap(1), of "0x11000" Debug]
  by (simp add: sample_heap valid_size_def pages_for_def)

text \<open>
  C21: What an allocation returned can be given back: freeing it with the same size returns, and the
  set of allocated pages is again what it was before the allocation.
\<close>

theorem alloc_dealloc_roundtrip:
  assumes "heap_of pa s" and "wf_pa pa" and "valid_size sz" and "alloc pr sz s = Some (Done p s')"
  shows "\<exists>s''. dealloc pr p sz s' = Some (Done () s'') \<and> heap_of pa s'' \<and> allocated pa s'' = allocated pa s"
proof -
  obtain i where i: "p = page_addr pa i" "i + pages_for sz \<le> page_count pa"
      "{i..<i + pages_for sz} \<inter> allocated pa s = {}" "heap_of pa s'"
      "allocated pa s' = allocated pa s \<union> {i..<i + pages_for sz}"
    using alloc_result [OF assms] by metis
  then have "{i..<i + pages_for sz} \<subseteq> allocated pa s'" by auto
  moreover have "allocated pa s' - {i..<i + pages_for sz} = allocated pa s" using i(3,5) by auto
  ultimately show ?thesis
    using dealloc_run [OF i(4) assms(2,3) i(2), of pr] i(1) by auto
qed

theorem alloc_dealloc_roundtrip_witness:
  "\<exists>p s' s''. alloc Debug 5000 sample_kernel = Some (Done p s') \<and> dealloc Debug p 5000 s' = Some (Done () s'')
    \<and> allocated sample_pa s'' = {}"
proof -
  have v: "valid_size 5000" by (simp add: valid_size_def)
  obtain s' where "alloc Debug 5000 sample_kernel = Some (Done (page_addr sample_pa 0) s')"
    using alloc_run [OF sample_heap(1,2) v, of 0 Debug] by (auto simp: sample_heap free_run_def pages_for_def)
  then show ?thesis
    using alloc_dealloc_roundtrip [OF sample_heap(1,2) v] sample_heap(3) by metis
qed

text \<open>
  C20: Freeing anything but an allocated run of pages (a second free, an address inside a page, an
  address outside the managed memory, a run that reaches past its allocation) panics before
  anything is changed, under both profiles.
\<close>

theorem dealloc_rejects_foreign:
  assumes "heap_of pa s" and "wf_pa pa" and "valid_size sz"
    and "\<not> (\<exists>i. p = base_addr pa + of_nat (4096 * i) \<and> i + pages_for sz \<le> page_count pa
      \<and> {i..<i + pages_for sz} \<subseteq> allocated pa s)"
  shows "\<exists>e. dealloc pr p sz s = Some (Panicked e s) \<and> e \<in> {AssertFailed, ArithOverflow}"
proof -
  have "\<not> owned_run pa s p ((sz + 4095) div 4096)"
    using assms(4) unfolding owned_run_def page_addr_def valid_size_pages(2) [OF assms(3)] by blast
  then show ?thesis using dealloc_reject [OF assms(1-3)] by blast
qed

theorem dealloc_rejects_foreign_witness:
  "\<exists>e. dealloc Debug 0xc0101000 100 sample_kernel = Some (Panicked e sample_kernel) \<and> e \<in> {AssertFailed, ArithOverflow}"
  by (rule dealloc_rejects_foreign [OF sample_heap(1,2)]) (simp_all add: sample_heap valid_size_def pages_for_def)

text \<open>
  In every state the heap can reach through allocations, frees and stores into live blocks, the
  live blocks start on page boundaries, lie inside the managed memory (so none overlaps the bitmap)
  and no two of them share a byte.
\<close>

theorem heap_blocks_disjoint:
  assumes "reach (heap_init pa) (heap_step pr) (s, B)" and "(p, sz) \<in> B"
  shows "unat p mod 4096 = 0 \<and> unat (base_addr pa) \<le> unat p
    \<and> unat p + unat sz \<le> unat (base_addr pa) + 4096 * page_count pa
    \<and> (\<forall>(q, sq) \<in> B. (q, sq) \<noteq> (p, sz) \<longrightarrow> unat p + unat sz \<le> unat q \<or> unat q + unat sq \<le> unat p)"
  using heap.reach_inv [OF assms(1)] assms(2) by (rule heap_inv_blocks)

lemma sample_two_blocks:
  "\<exists>s. reach (heap_init sample_pa) (heap_step Debug) (s, {(0xc0102000, 5000), (0xc0101000, 100)})"
proof -
  have v: "valid_size 100" "valid_size 5000" by (simp_all add: valid_size_def)
  obtain s1 where s1: "alloc Debug 100 sample_kernel = Some (Done (page_addr sample_pa 0) s1)" "heap_of sample_pa s1"
      "allocated sample_pa s1 = {0}"
    using alloc_run [OF sample_heap(1,2) v(1), of 0 Debug] by (auto simp: sample_heap free_run_def pages_for_def)
  obtain s2 where s2: "alloc Debug 5000 s1 = Some (Done (page_addr sample_pa 1) s2)"
    using alloc_run [OF s1(2) sample_heap(2) v(2), of 1 Debug] s1(3) by (auto simp: sample_heap free_run_def pages_for_def)
  have r0: "reach (heap_init sample_pa) (heap_step Debug) (sample_kernel, {})"
    by (rule reach_init) (rule sample_init)
  have "reach (heap_init sample_pa) (heap_step Debug) (s2, {(page_addr sample_pa 1, 5000), (page_addr sample_pa 0, 100)})"
    by (rule reach_step [OF reach_step [OF r0 step_alloc [OF v(1) s1(1)]] step_alloc [OF v(2) s2]])
  then show ?thesis by (auto simp: page_addr_def sample_heap)
qed

theorem heap_blocks_disjoint_witness:
  "\<exists>s. reach (heap_init sample_pa) (heap_step Debug) (s, {(0xc0102000, 5000), (0xc0101000, 100)})
    \<and> unat (0xc0101000 :: usize) + unat (100 :: usize) \<le> unat (0xc0102000 :: usize)"
proof -
  obtain s where s: "reach (heap_init sample_pa) (heap_step Debug) (s, {(0xc0102000, 5000), (0xc0101000, 100)})"
    using sample_two_blocks by blast
  then show ?thesis using heap_blocks_disjoint [OF s, of "0xc0101000" 100] by auto
qed

text \<open>
  C17: In every reachable state each live block can be freed: \<open>dealloc\<close> returns, the result is again
  a state of the heap without that block, and no byte of any live block changes. An allocation
  likewise keeps the contents of all live blocks.
\<close>

theorem heap_operations_keep_contents:
  assumes "reach (heap_init pa) (heap_step pr) (s, B)" and "(p, sz) \<in> B" and "unat (a - p) < unat sz"
  shows "(\<forall>(q, sq) \<in> B. \<exists>s'. dealloc pr q sq s = Some (Done () s') \<and> heap_step pr (s, B) (s', B - {(q, sq)}) \<and> ram s' a = ram s a)
    \<and> (\<forall>n r s'. valid_size n \<longrightarrow> alloc pr n s = Some (Done r s') \<longrightarrow> ram s' a = ram s a)"
proof -
  have inv: "heap_inv pa (s, B)" using heap.reach_inv [OF assms(1)] .
  then have wf: "wf_pa pa" and h: "heap_of pa s" by (simp_all add: heap_inv_def)
  have "unat (base_addr pa) \<le> unat a" by (rule heap_inv_byte [OF inv assms(2,3)])
  then have keep: "ram s' a = ram s a" if "bm_frame (bitmap pa) s s'" for s'
    using that behind_bitmap [OF wf] by (auto simp: bm_frame_def)
  have "\<exists>s'. dealloc pr q sq s = Some (Done () s') \<and> heap_step pr (s, B) (s', B - {(q, sq)}) \<and> ram s' a = ram s a"
    if "(q, sq) \<in> B" for q sq
    using heap_inv_free [OF inv that, of pr] keep step_free [OF that] by blast
  moreover have "ram s' a = ram s a" if "valid_size n" "alloc pr n s = Some (Done r s')" for n r s'
    using alloc_result [OF h wf that] keep by metis
  ultimately show ?thesis by blast
qed

theorem heap_operations_keep_contents_witness:
  "\<exists>s s'. reach (heap_init sample_pa) (heap_step Debug) (s, {(0xc0102000, 5000), (0xc0101000, 100)})
    \<and> dealloc Debug 0xc0102000 5000 s = Some (Done () s') \<and> ram s' 0xc0101007 = ram s 0xc0101007"
proof -
  obtain s where s: "reach (heap_init sample_pa) (heap_step Debug) (s, {(0xc0102000, 5000), (0xc0101000, 100)})"
    using sample_two_blocks by blast
  then show ?thesis using heap_operations_keep_contents [OF s, of "0xc0101000" 100 "0xc0101007"] by auto
qed

end
