(* ===== verification/RondMain.thy ===== *)
theory RondMain
  imports RondHeap
begin

text \<open>
  The entry point, \<open>src/kernel/src/main.rs\<close>: the six interrupt handlers, the panic handler, the map
  from scan codes to characters, and the boot sequence.
\<close>

section \<open>Handlers\<close>

record ExceptionStackFrame =
  instruction_pointer :: u32
  code_segment :: u16
  cpu_flags :: u32
  stack_pointer :: u32
  stack_segment :: u16

definition frame_debug :: "ExceptionStackFrame \<Rightarrow> string" where
  "frame_debug f = debug_struct ''ExceptionStackFrame''
     [(''instruction_pointer'', show_dec (instruction_pointer f)), (''code_segment'', show_dec (code_segment f)),
      (''cpu_flags'', show_dec (cpu_flags f)), (''stack_pointer'', show_dec (stack_pointer f)),
      (''stack_segment'', show_dec (stack_segment f))]"

definition TIMER_FREQ :: u32 where "TIMER_FREQ = 200"

definition breakpoint_handler :: "profile \<Rightarrow> ExceptionStackFrame \<Rightarrow> (unit, kernel) comp" where
  "breakpoint_handler pr f = println pr [''BREAKPOINT: '', frame_debug f]"

definition double_fault_handler :: "profile \<Rightarrow> ExceptionStackFrame \<Rightarrow> u32 \<Rightarrow> (unit, kernel) comp" where
  "double_fault_handler pr f error_code =
     andthen (println pr [''DOUBLE FAULT '', frame_debug f]) (panicking (PanicMsg ''explicit panic''))"

definition page_fault_handler :: "profile \<Rightarrow> ExceptionStackFrame \<Rightarrow> u32 \<Rightarrow> (unit, kernel) comp" where
  "page_fault_handler pr f error_code =
     println pr [''PAGE FAULT#'', show_dec error_code, '' '', frame_debug f]"

definition timer_handler :: "profile \<Rightarrow> ExceptionStackFrame \<Rightarrow> (unit, kernel) comp" where
  "timer_handler pr f =
     bnd (gets TICKS) (\<lambda>t.
     bnd (lift (uadd pr t 1)) (\<lambda>t'.
     andthen (modify (TICKS_update (\<lambda>_. t')))
     end_of_interrupt))"

definition segment_not_present_handler :: "profile \<Rightarrow> ExceptionStackFrame \<Rightarrow> u32 \<Rightarrow> (unit, kernel) comp" where
  "segment_not_present_handler pr f error_code =
     println pr [''SEGMENT NOT PRESENT '', show_dec error_code, '' '', frame_debug f]"

text \<open>The map from keyboard scan codes to characters, in the order of the match arms.\<close>

definition scancode_to_char :: "profile \<Rightarrow> u8 \<Rightarrow> panic + char option" where
  "scancode_to_char pr scan =
     (if scan = 0x00 then Inl (PanicMsg ''Error Scancode 0x00'')
      else if 0x02 \<le> scan \<and> scan \<le> 0x0a then
        chain (uadd pr 0x30 scan) (\<lambda>a. chain (usub pr a 1) (\<lambda>b. Inr (Some (char_of (unat b)))))
      else if scan = 0x0b then Inr (Some (CHR ''0''))
      else if 0x10 \<le> scan \<and> scan \<le> 0x19 then
        chain (usub pr (ucast scan :: usize) 0x10) (\<lambda>i. chain (nth_checked ''qwertyuiop'' i) (\<lambda>c. Inr (Some c)))
      else if scan = 0x1c then Inr (Some (CHR 0x0A))
      else if scan = 0x0e then Inr (Some (CHR 0x08))
      else if 0x1e \<le> scan \<and> scan \<le> 0x26 then
        chain (usub pr (ucast scan :: usize) 0x1e) (\<lambda>i. chain (nth_checked ''asdfghjkl'' i) (\<lambda>c. Inr (Some c)))
      else if 0x2c \<le> scan \<and> scan \<le> 0x32 then
        chain (usub pr (ucast scan :: usize) 0x2c) (\<lambda>i. chain (nth_checked ''zxcvbnm'' i) (\<lambda>c. Inr (Some c)))
      else if scan = 0x39 then Inr (Some (CHR '' ''))
      else if 0x80 \<le> scan then Inr None
      else Inr (Some (CHR ''?'')))"

definition keyboard_handler :: "profile \<Rightarrow> ExceptionStackFrame \<Rightarrow> (unit, kernel) comp" where
  "keyboard_handler pr f =
     bnd (inb 0x60) (\<lambda>scancode.
     bnd (lift (scancode_to_char pr scancode)) (\<lambda>r.
     andthen (case r of Some ch \<Rightarrow> vga_print pr [[ch]] | None \<Rightarrow> ret ())
     end_of_interrupt))"

definition panic_report :: "profile \<Rightarrow> string \<Rightarrow> (unit, kernel) comp" where
  "panic_report pr info = andthen (println pr [info]) (serial_println pr [info])"

definition panic_handler :: "profile \<Rightarrow> string \<Rightarrow> ('a, kernel) comp" where
  "panic_handler pr info = andthen (panic_report pr info) forever"

section \<open>Boot\<close>

text \<open>Where the linker put the handlers and the interrupt table.\<close>

record symbols =
  breakpoint_addr :: usize
  page_fault_addr :: usize
  double_fault_addr :: usize
  segment_not_present_addr :: usize
  timer_addr :: usize
  keyboard_addr :: usize
  intr_table_addr :: u32

text \<open>\<open>INTR_TABLE.get_mut()\<close> followed by a method on a member, or on an indexed entry.\<close>

definition with_table :: "profile \<Rightarrow> (InterruptDescriptorTable \<Rightarrow> (InterruptDescriptorTable, kernel) comp) \<Rightarrow> (unit, kernel) comp" where
  "with_table pr f = get_mut intr_static (idt_default pr) (\<lambda>t. bnd (f t) (\<lambda>t'. ret ((), t')))"

definition install_handlers :: "profile \<Rightarrow> symbols \<Rightarrow> (unit, kernel) comp" where
  "install_handlers pr syms = block
     [with_table pr (\<lambda>t. bnd (set_handle_fn pr (breakpoint t) (HandlerFunc (breakpoint_addr syms)))
        (\<lambda>e. ret (t\<lparr>breakpoint := e\<rparr>))),
      with_table pr (\<lambda>t. bnd (set_handle_fn_err pr (page_fault t) (HandlerFuncErrCode (page_fault_addr syms)))
        (\<lambda>e. ret (t\<lparr>page_fault := e\<rparr>))),
      with_table pr (\<lambda>t. bnd (set_handle_fn_div_err pr (double_fault t) (DivergingHandlerFuncErrCode (double_fault_addr syms)))
        (\<lambda>e. ret (t\<lparr>double_fault := e\<rparr>))),
      with_table pr (\<lambda>t. bnd (set_handle_fn_err pr (segment_not_present t) (HandlerFuncErrCode (segment_not_present_addr syms)))
        (\<lambda>e. ret (t\<lparr>segment_not_present := e\<rparr>))),
      with_table pr (\<lambda>t. bnd (lift (idt_index_mut t 0x20)) (\<lambda>(e, place).
        bnd (set_handle_fn pr e (HandlerFunc (timer_addr syms))) (\<lambda>e'. ret (place e')))),
      with_table pr (\<lambda>t. bnd (lift (idt_index_mut t 0x21)) (\<lambda>(e, place).
        bnd (set_handle_fn pr e (HandlerFunc (keyboard_addr syms))) (\<lambda>e'. ret (place e')))),
      with_table pr (\<lambda>t. andthen (idt_update pr (intr_table_addr syms)) (ret t))]"

text \<open>\<open>for m in loader::get_memlayout() { println!("{:?}", m) }\<close>\<close>

definition print_map :: "profile \<Rightarrow> MemLayout list \<Rightarrow> (unit, kernel) comp" where
  "print_map pr mems =
     bnd (fold_each (\<lambda>m u. bnd (layout_debug m) (\<lambda>txt. println pr [txt])) mems ()) (\<lambda>_. ret ())"

text \<open>\<open>Box::new(42)\<close>: four bytes from the global allocator, then the value.\<close>

definition box_new_i32 :: "profile \<Rightarrow> u32 \<Rightarrow> (usize, kernel) comp" where
  "box_new_i32 pr v =
     bnd (alloc pr 4) (\<lambda>p.
     andthen (modify (\<lambda>s. s\<lparr>ram := store_bytes (ram s) p (bytes_of_word 4 v)\<rparr>))
     (ret p))"

text \<open>
  The entry point up to its halt loop, in two parts: until interrupts are enabled, and after that.
\<close>

definition boot_setup :: "profile \<Rightarrow> symbols \<Rightarrow> (unit, kernel) comp" where
  "boot_setup pr syms =
     andthen (serial_println pr [''RondOS> HELLO RondOS''])
    (andthen (println pr [''HELLO RondOS''])
    (bnd get_kernel_size (\<lambda>ks.
     andthen (println pr [''Kernel Size '', show_dec (ks div 1024), '' KiB''])
    (bnd (available_mem_size pr) (\<lambda>ms.
     andthen (println pr [''Available Memory Size '', show_dec (ms div 1024), '' KiB''])
    (andthen pic_init
    (andthen (pit_configure_channel pr 0 2 TIMER_FREQ)
    (andthen (install_handlers pr syms)
     sti))))))))"

definition boot_rest :: "profile \<Rightarrow> (unit, kernel) comp" where
  "boot_rest pr =
     bnd get_memlayout (\<lambda>mems.
     andthen (print_map pr mems)
    (bnd esp (\<lambda>e.
     andthen (println pr [''esp page: '', show_hex (pg_round_down e)])
    (bnd (box_new_i32 pr 42) (\<lambda>p.
     println pr [show_dec (42 :: u32), '' at '', show_ptr p])))))"

definition boot :: "profile \<Rightarrow> symbols \<Rightarrow> (unit, kernel) comp" where
  "boot pr syms = andthen (boot_setup pr syms) (boot_rest pr)"

definition main :: "profile \<Rightarrow> symbols \<Rightarrow> ('a, kernel) comp" where
  "main pr syms = andthen (boot pr syms) forever"

section \<open>The keyboard map\<close>

definition plain_char :: "char \<Rightarrow> bool" where
  "plain_char c \<longleftrightarrow> (0x20 \<le> (of_char c :: nat) \<and> (of_char c :: nat) < 0x7f) \<or> c = CHR 0x0A \<or> c = CHR 0x08"

lemma digit_row:
  assumes "0x02 \<le> scan" "scan \<le> (0x0a :: u8)"
  shows "\<exists>c. chain (uadd pr 0x30 scan) (\<lambda>a. chain (usub pr a 1) (\<lambda>b. Inr (Some (char_of (unat b))))) = Inr (Some c)
    \<and> plain_char c"
proof -
  have s: "2 \<le> unat scan" "unat scan \<le> 10" using assms by (simp_all add: word_le_nat_alt)
  then have a: "uadd pr 0x30 scan = Inr (0x30 + scan)" "unat (0x30 + scan) = 0x30 + unat scan"
    by (simp_all add: uadd_def unat_plus_bounded)
  then have b: "usub pr (0x30 + scan) 1 = Inr (0x30 + scan - 1)" "unat (0x30 + scan - 1) = 0x2f + unat scan"
    using s by (simp_all add: usub_def word_le_nat_alt unat_plus_bounded)
  have "plain_char (char_of (unat (0x30 + scan - 1)))"
    unfolding b(2) plain_char_def using s by simp
  then show ?thesis by (simp add: a(1) b(1))
qed

lemma letter_row:
  assumes "lo \<le> scan" "scan \<le> hi" "unat hi < unat lo + length row" "\<forall>c \<in> set row. plain_char c"
  shows "\<exists>c. chain (usub pr (ucast (scan :: u8) :: usize) (ucast lo)) (\<lambda>i. chain (nth_checked row i) (\<lambda>c. Inr (Some c))) = Inr (Some c)
    \<and> plain_char c"
proof -
  have u: "unat (ucast w :: usize) = unat w" for w :: u8
    using unsigned_less [of w, where 'a = nat] by (simp add: unat_ucast_mod)
  have le: "(ucast lo :: usize) \<le> ucast scan"
    using assms(1) by (simp add: word_le_nat_alt u)
  have "unat (ucast scan - ucast lo :: usize) = unat scan - unat lo"
    using le by (simp add: unat_minus_bounded u)
  moreover have "unat scan \<le> unat hi" "unat lo \<le> unat scan" using assms(1,2) by (simp_all add: word_le_nat_alt)
  ultimately have "unat (ucast scan - ucast lo :: usize) < length row" using assms(3) by linarith
  then show ?thesis using le assms(4) by (simp add: usub_def nth_checked_def)
qed

lemma scancode_cases:
  "if scan = 0 then scancode_to_char pr scan = Inl (PanicMsg ''Error Scancode 0x00'')
   else if 0x80 \<le> scan then scancode_to_char pr scan = Inr None
   else \<exists>c. scancode_to_char pr scan = Inr (Some c) \<and> plain_char c"
proof -
  have rows: "\<forall>c \<in> set ''qwertyuiop''. plain_char c" "\<forall>c \<in> set ''asdfghjkl''. plain_char c"
    "\<forall>c \<in> set ''zxcvbnm''. plain_char c" "plain_char CHR ''0''" "plain_char CHR '' ''" "plain_char CHR ''?''"
    "plain_char CHR 0x0A" "plain_char CHR 0x08"
    by (simp_all add: plain_char_def)
  note letters = letter_row [of "0x10" scan "0x19", OF _ _ _ rows(1)] letter_row [of "0x1e" scan "0x26", OF _ _ _ rows(2)]
    letter_row [of "0x2c" scan "0x32", OF _ _ _ rows(3)]
  show ?thesis
  proof (cases "0x80 \<le> scan")
    case True
    then have "\<not> scan \<le> 0x0a" "\<not> scan \<le> 0x19" "\<not> scan \<le> 0x26" "\<not> scan \<le> 0x32"
      "scan \<noteq> 0" "scan \<noteq> 0x0b" "scan \<noteq> 0x1c" "scan \<noteq> 0x0e" "scan \<noteq> 0x39"
      by (auto simp: word_le_nat_alt)
    then show ?thesis using True by (simp add: scancode_to_char_def)
  next
    case False
    then show ?thesis
      using digit_row [of scan pr] letters [of pr] rows(4-8) by (simp add: scancode_to_char_def)
  qed
qed

text \<open>
  C37: The keyboard map panics on scan code 0 and on nothing else; it ignores exactly the codes from
  0x80 on (key releases and prefixes); every other code gives a printable ASCII character, line
  feed or backspace, so that the key press can be shown on the screen.
\<close>

theorem scancode_to_char_total:
  "if scan = 0 then scancode_to_char pr scan = Inl (PanicMsg ''Error Scancode 0x00'')
   else if 0x80 \<le> scan then scancode_to_char pr scan = Inr None
   else \<exists>c. scancode_to_char pr scan = Inr (Some c) \<and> plain_char c"
  by (rule scancode_cases)

end
