(* ===== verification/RondBoot.thy ===== *)
theory RondBoot
  imports RondMain
begin

text \<open>
  Booting: what printing and installing handlers change, what the first allocation does, and that
  the boot sequence of \<open>RondMain\<close> reaches the halt loop with the kernel set up; the panic handler.
\<close>

section \<open>Frames\<close>

text \<open>Port traffic that does not concern the interrupt controllers.\<close>

definition quiet :: "io_event list \<Rightarrow> bool" where
  "quiet h \<longleftrightarrow> (\<forall>e \<in> set h. \<forall>p d. e = Out p d \<longrightarrow> p \<notin> {0x20, 0x21, 0xa0, 0xa1})"

lemma quiet_simps [simp]: "quiet []" "quiet (h @ h') \<longleftrightarrow> quiet h \<and> quiet h'"
  by (auto simp: quiet_def)

lemma quiet_events: "vga_events h \<Longrightarrow> quiet h" "serial_events h \<Longrightarrow> quiet h"
  by (auto simp: vga_events_def serial_events_def quiet_def)

lemma quiet_pic:
  assumes "quiet h" "ctrl \<in> {0x20, 0xa0}" "dat \<in> {0x21, 0xa1}"
  shows "pic_after ctrl dat h p = p"
  using assms(1)
proof (induction h arbitrary: p)
  case (Cons e h)
  then have "pic_event ctrl dat e p = p" using assms(2,3) by (cases e) (auto simp: quiet_def)
  then show ?case using Cons by (simp add: quiet_def)
qed simp

text \<open>What printing may change: screen memory, the port history, and the two device statics.\<close>

definition io_frame :: "kernel \<Rightarrow> kernel \<Rightarrow> bool" where
  "io_frame s s' \<longleftrightarrow> (\<exists>r h V S. s' = s\<lparr>ram := r, io := io s @ h, VGA_BUFFER := V, SERIAL_IO := S\<rparr> \<and> quiet h
     \<and> (\<forall>a. 4000 \<le> unat (a - VGA_BUFFER_ADDR) \<longrightarrow> r a = ram s a))"

lemma io_frame_refl [simp]: "io_frame s s"
  unfolding io_frame_def
  by (intro exI [of _ "ram s"] exI [of _ "[]"] exI [of _ "VGA_BUFFER s"] exI [of _ "SERIAL_IO s"]) simp

lemma io_frame_trans:
  assumes "io_frame s s'" "io_frame s' s''"
  shows "io_frame s s''"
proof -
  obtain r h V S r' h' V' S' where "s' = s\<lparr>ram := r, io := io s @ h, VGA_BUFFER := V, SERIAL_IO := S\<rparr>"
    "s'' = s'\<lparr>ram := r', io := io s' @ h', VGA_BUFFER := V', SERIAL_IO := S'\<rparr>" "quiet h" "quiet h'"
    "\<forall>a. 4000 \<le> unat (a - VGA_BUFFER_ADDR) \<longrightarrow> r a = ram s a"
    "\<forall>a. 4000 \<le> unat (a - VGA_BUFFER_ADDR) \<longrightarrow> r' a = ram s' a"
    using assms unfolding io_frame_def by blast
  then show ?thesis
    unfolding io_frame_def by (intro exI [of _ r'] exI [of _ "h @ h'"] exI [of _ V'] exI [of _ S']) simp
qed

lemma io_frame_simps:
  assumes "io_frame s s'"
  shows "INTR_TABLE s' = INTR_TABLE s" "PAGE_ALLOC s' = PAGE_ALLOC s" "TICKS s' = TICKS s" "dev s' = dev s"
    "cs_reg s' = cs_reg s" "esp_reg s' = esp_reg s" "idtr s' = idtr s" "intr_flag s' = intr_flag s"
    "\<exists>h. io s' = io s @ h \<and> quiet h"
  using assms by (auto simp: io_frame_def)

lemma io_frame_in: "io_frame s (s\<lparr>io := io s @ [In p d]\<rparr>)"
  unfolding io_frame_def
  by (intro exI [of _ "ram s"] exI [of _ "[In p d]"] exI [of _ "VGA_BUFFER s"] exI [of _ "SERIAL_IO s"]) (simp add: quiet_def)

lemma io_frame_ram:
  assumes "io_frame s s'" "4000 \<le> unat (a - VGA_BUFFER_ADDR)"
  shows "ram s' a = ram s a"
  using assms by (auto simp: io_frame_def)

text \<open>The screen is usable: not used yet, or initialised with its column in range.\<close>

definition screen_ok :: "kernel \<Rightarrow> bool" where
  "screen_ok s \<longleftrightarrow> VGA_BUFFER s = UNINIT \<or> (\<exists>v. VGA_BUFFER s = ready v \<and> vga_inv v)"

definition screen_up :: "kernel \<Rightarrow> bool" where
  "screen_up s \<longleftrightarrow> (\<exists>v. VGA_BUFFER s = ready v \<and> vga_inv v)"

lemma screen_up_ok: "screen_up s \<Longrightarrow> screen_ok s"
  by (auto simp: screen_ok_def screen_up_def)

lemma vga_frame_io_frame: "vga_frame s s1 \<Longrightarrow> io_frame s (s1\<lparr>VGA_BUFFER := V\<rparr>)"
proof -
  assume "vga_frame s s1"
  then obtain r h where "s1 = s\<lparr>ram := r, io := io s @ h\<rparr>" "vga_events h"
      "\<forall>a. 4000 \<le> unat (a - VGA_BUFFER_ADDR) \<longrightarrow> r a = ram s a"
    unfolding vga_frame_def by blast
  then show ?thesis
    unfolding io_frame_def using quiet_events(1)
    by (intro exI [of _ r] exI [of _ h] exI [of _ V] exI [of _ "SERIAL_IO s"]) simp
qed

lemma vga_print_wp:
  assumes "screen_ok s"
  shows "wp (vga_print pr args) (\<lambda>_ s'. screen_up s' \<and> io_frame s s') s"
proof -
  have up: "wp (vga_print pr args) (\<lambda>_ s'. screen_up s' \<and> io_frame s s') s" if "VGA_BUFFER s = ready v" "vga_inv v" for s v
    using vga_print_run [OF that, of pr args] vga_frame_io_frame [of s] by (auto simp: wp_iff screen_up_def)
  show ?thesis
  proof (cases "VGA_BUFFER s = UNINIT")
    case True
    let ?s = "s\<lparr>VGA_BUFFER := ready vga_new\<rparr>"
    have f: "io_frame s ?s"
      using vga_frame_io_frame [of s s "ready vga_new"] by simp
    have "wp (vga_print pr args) (\<lambda>_ s'. screen_up s' \<and> io_frame ?s s') ?s"
      by (rule up [of _ vga_new]) (simp_all add: vga_new_inv)
    then show ?thesis
      using io_frame_trans [OF f] unfolding wp_def vga_print_first [OF True] by (auto split: option.splits outcome.splits)
  next
    case False
    then show ?thesis using assms up by (auto simp: screen_ok_def)
  qed
qed

lemma println_wp: "screen_ok s \<Longrightarrow> wp (println pr args) (\<lambda>_ s'. screen_up s' \<and> io_frame s s') s"
  unfolding println_def by (rule vga_print_wp)

text \<open>The first use of the serial line programs it.\<close>

lemma serial_println_first_run:
  assumes "SERIAL_IO s = UNINIT" "uart_at (SerialPort 0x3f8) s"
  shows "\<exists>evs. serial_println pr args s = Some (Done () (s\<lparr>SERIAL_IO := ready (SerialPort 0x3f8),
      io := io s @ map (\<lambda>(p, d). Out p d) serial_setup @ evs\<rparr>))
    \<and> transmits 0x3f8 (concat (map wire (concat (map bytes_of (args @ [[CHR 0x0A]]))))) evs"
proof -
  let ?s = "s\<lparr>io := io s @ map (\<lambda>(p, d). Out p d) serial_setup, SERIAL_IO := ready (SerialPort 0x3f8)\<rparr>"
  have "serial_default pr (serial_cell.started s) = Some (Done (SerialPort 0x3f8) (emit serial_setup (serial_cell.started s)))"
    by (rule serial_default_run)
  then have "serial_println pr args s
      = serial_println pr args (serial_cell.published (SerialPort 0x3f8) (emit serial_setup (serial_cell.started s)))"
    unfolding serial_println_def serial_print_def using assms(1)
    by (intro serial_cell.get_mut_first) (simp_all add: UNINIT_def)
  moreover have "serial_cell.published (SerialPort 0x3f8) (emit serial_setup (serial_cell.started s)) = ?s"
    using assms(1) by (simp add: serial_cell.published_def serial_cell.started_def UNINIT_def)
  ultimately show ?thesis
    using serial_print_run [of ?s pr "args @ [[CHR 0x0A]]"] assms(2) unfolding serial_println_def by (auto simp: uart_at_def)
qed

lemma serial_println_first_wp:
  assumes "SERIAL_IO s = UNINIT" "uart_at (SerialPort 0x3f8) s"
  shows "wp (serial_println pr args) (\<lambda>_ s'. VGA_BUFFER s' = VGA_BUFFER s \<and> io_frame s s') s"
proof -
  obtain evs where e: "serial_println pr args s = Some (Done () (s\<lparr>SERIAL_IO := ready (SerialPort 0x3f8),
      io := io s @ map (\<lambda>(p, d). Out p d) serial_setup @ evs\<rparr>))" (is "_ = Some (Done () ?s)") "serial_events evs"
    using serial_println_first_run [OF assms, of pr args] transmits_events by blast
  have "io_frame s ?s"
    unfolding io_frame_def using quiet_events(2) [OF e(2)]
    by (intro exI [of _ "ram s"] exI [of _ "map (\<lambda>(p, d). Out p d) serial_setup @ evs"] exI [of _ "VGA_BUFFER s"]
        exI [of _ "ready (SerialPort 0x3f8)"]) (simp add: quiet_def serial_setup_def)
  then show ?thesis using e(1) by (simp add: wp_def)
qed

section \<open>Installing the handlers\<close>

lemma with_table_run:
  assumes "INTR_TABLE s = ready t" "f t s = Some (Done t' s1)" "INTR_TABLE s1 = INTR_TABLE s"
  shows "with_table pr f s = Some (Done () (s1\<lparr>INTR_TABLE := ready t'\<rparr>))"
proof -
  have "with_table pr f s = Some (Done () (INTR_TABLE_update (data_update (\<lambda>_. Some t')) s1))"
    unfolding with_table_def using assms(1,2)
    by (intro intr_cell.get_mut_done [of t]) (simp_all add: intr_cell.live_def bnd_run run_basic)
  moreover have "INTR_TABLE_update (data_update (\<lambda>_. Some t')) s1 = s1\<lparr>INTR_TABLE := ready t'\<rparr>"
    by (rule intr_cell.upd_local) (simp add: assms)
  ultimately show ?thesis by simp
qed

lemma with_table_first:
  assumes "INTR_TABLE s = UNINIT" "idt_new pr = Inr t"
  shows "with_table pr f s = with_table pr f (s\<lparr>INTR_TABLE := ready t\<rparr>)"
proof -
  let ?s = "intr_cell.started s"
  have "idt_default pr ?s = Some (Done t ?s)" using assms(2) by (simp add: idt_default_def run_basic)
  then have "with_table pr f s = with_table pr f (intr_cell.published t ?s)"
    unfolding with_table_def using assms by (intro intr_cell.get_mut_first) (simp_all add: UNINIT_def)
  moreover have "intr_cell.published t ?s = s\<lparr>INTR_TABLE := ready t\<rparr>"
    using assms by (simp add: intr_cell.published_def intr_cell.started_def UNINIT_def)
  ultimately show ?thesis by simp
qed

definition installed :: "u16 \<Rightarrow> symbols \<Rightarrow> InterruptDescriptorTable \<Rightarrow> InterruptDescriptorTable" where
  "installed cs syms t = t\<lparr>
     breakpoint := handler_entry cs (breakpoint_addr syms),
     page_fault := handler_entry cs (page_fault_addr syms),
     double_fault := handler_entry cs (double_fault_addr syms),
     segment_not_present := handler_entry cs (segment_not_present_addr syms),
     interrupts := (interrupts t)[0 := handler_entry cs (timer_addr syms), 1 := handler_entry cs (keyboard_addr syms)]\<rparr>"

lemma index_mut_irq:
  assumes "wf_idt t"
  shows "idt_index_mut t 0x20 = Inr (interrupts t ! 0, \<lambda>e. t\<lparr>interrupts := (interrupts t)[0 := e]\<rparr>)"
    "idt_index_mut t 0x21 = Inr (interrupts t ! 1, \<lambda>e. t\<lparr>interrupts := (interrupts t)[1 := e]\<rparr>)"
  using assms by (simp_all add: idt_index_mut_def nth_checked_def wf_idt_def)

lemma install_handlers_run:
  assumes "INTR_TABLE s = UNINIT"
  shows "\<exists>t. idt_new pr = Inr t \<and> install_handlers pr syms s = Some (Done ()
    (s\<lparr>INTR_TABLE := ready (installed (cs_reg s) syms t), idtr := \<lparr>limit = 2047, base = intr_table_addr syms\<rparr>\<rparr>))"
proof -
  obtain t where t: "idt_new pr = Inr t" "wf_idt t" using idt_new_eq by blast
  have wf: "wf_idt (t\<lparr>breakpoint := a, page_fault := b, double_fault := c, segment_not_present := d\<rparr>)"
    "wf_idt (t\<lparr>breakpoint := a, page_fault := b, double_fault := c, segment_not_present := d, interrupts := (interrupts t)[0 := e]\<rparr>)"
    for a b c d e
    using t(2) by (simp_all add: wf_idt_def)
  have up: "idt_update pr a m = Some (Done () (m\<lparr>idtr := \<lparr>limit = 2047, base = a\<rparr>\<rparr>))" for a and m :: kernel
    by (simp add: idt_update_def size_of_idt_def arith_ok lidt_def run_basic)
  have "install_handlers pr syms (s\<lparr>INTR_TABLE := ready t\<rparr>) = Some (Done ()
    (s\<lparr>INTR_TABLE := ready (installed (cs_reg s) syms t), idtr := \<lparr>limit = 2047, base = intr_table_addr syms\<rparr>\<rparr>))"
    by (simp add: install_handlers_def andthen_run with_table_run bnd_run set_handle_addr_run run_basic
        index_mut_irq wf up installed_def)
  moreover have "install_handlers pr syms s = install_handlers pr syms (s\<lparr>INTR_TABLE := ready t\<rparr>)"
    using with_table_first [OF assms t(1)] by (simp add: install_handlers_def andthen_def bnd_def)
  ultimately show ?thesis using t(1) by auto
qed

text \<open>The handler the kernel means to have at a vector.\<close>

definition vector_handler :: "symbols \<Rightarrow> nat \<Rightarrow> usize option" where
  "vector_handler syms v =
     (if v = 3 then Some (breakpoint_addr syms)
      else if v = 8 then Some (double_fault_addr syms)
      else if v = 11 then Some (segment_not_present_addr syms)
      else if v = 14 then Some (page_fault_addr syms)
      else if v = 0x20 then Some (timer_addr syms)
      else if v = 0x21 then Some (keyboard_addr syms)
      else None)"

text \<open>What the processor finds at a vector: a gate to that handler, or none.\<close>

definition gate_for :: "u16 \<Rightarrow> usize option \<Rightarrow> gate \<Rightarrow> bool" where
  "gate_for cs h g = (case h of
     Some p \<Rightarrow> g = \<lparr>gate_offset = p, gate_segment = cs, gate_type = 14, gate_dpl = 0, gate_present = True\<rparr>
   | None \<Rightarrow> \<not> gate_present g)"

lemma installed_entries:
  fixes cs :: u16
  assumes "wf_idt t"
  defines "h \<equiv> \<lambda>p. erase (handler_entry cs p :: HandlerFunc InterruptEntry)"
  shows "idt_entries (installed cs syms t) = (idt_entries t)
    [3 := h (breakpoint_addr syms), 8 := h (double_fault_addr syms),
     11 := h (segment_not_present_addr syms), 14 := h (page_fault_addr syms),
     32 := h (timer_addr syms), 33 := h (keyboard_addr syms)]"
  using assms
  by (simp add: idt_entries_def idt_exceptions_def installed_def wf_idt_def list_update_append map_update erase_def
      handler_entry_def h_def)

lemma installed_gates:
  assumes "idt_new pr = Inr t" "v < 256"
  shows "gate_for cs (vector_handler syms v) (gate_at (idt_bytes (installed cs syms t)) v)"
proof -
  have wf: "wf_idt t" and blank: "\<not> gate_present (gate_at (idt_bytes t) v)"
    using idt_new_eq [of pr] assms by auto
  have wf': "wf_idt (installed cs syms t)" using wf by (simp add: wf_idt_def installed_def)
  show ?thesis
    using assms(2) wf blank
    unfolding gate_at_entries [OF wf' assms(2)] gate_at_entries [OF wf assms(2)] installed_entries [OF wf]
    by (simp add: nth_list_update gate_for_def vector_handler_def decode_handler_entry)
qed

section \<open>Booting\<close>

text \<open>The boot information as the loader leaves it, below the screen memory.\<close>

definition map_in_memory :: "MemLayout list \<Rightarrow> kernel \<Rightarrow> bool" where
  "map_in_memory ls s \<longleftrightarrow> 20 * length ls \<le> 0x97000
     \<and> ram_slice (ram s) 0xc0020204 4 = bytes_of_word 4 (of_nat (length ls) :: u32)
     \<and> ram_slice (ram s) 0xc0020208 (20 * length ls) = concat (map layout_bytes ls)"

lemma map_in_memory_read: "map_in_memory ls s \<Longrightarrow> get_memlayout s = Some (Done ls s)"
  by (rule get_memlayout_read) (simp_all add: map_in_memory_def)

lemma low_address: "k < 0x97008 \<Longrightarrow> 4000 \<le> unat (0xc0020200 + of_nat k - VGA_BUFFER_ADDR)"
proof -
  assume k: "k < 0x97008"
  have "unat (0xc0020200 + of_nat k :: u32) = 0xc0020200 + k"
    using k by (simp add: unat_plus_bounded unat_of_nat_bounded)
  then show ?thesis using k by (simp add: unat_sub_if' VGA_BUFFER_ADDR_def unat_of_nat_bounded)
qed

lemma map_in_memory_frame:
  assumes "map_in_memory ls s" "\<And>a. 4000 \<le> unat (a - VGA_BUFFER_ADDR) \<Longrightarrow> unat a < 0xc0100000 \<Longrightarrow> ram s' a = ram s a"
  shows "map_in_memory ls s'"
proof -
  have same: "ram s' (0xc0020200 + of_nat k) = ram s (0xc0020200 + of_nat k)" if "k < 0x97008" for k
    using assms(2) [OF low_address [OF that]] that by (simp add: unat_plus_bounded unat_of_nat_bounded)
  have slice: "ram_slice (ram s') (0xc0020200 + of_nat k) n = ram_slice (ram s) (0xc0020200 + of_nat k) n"
    if "k + n \<le> 0x97008" for k n
    unfolding ram_slice_def using same that by (auto simp: add.assoc simp flip: of_nat_add)
  show ?thesis
    using assms(1) slice [of 4 4] slice [of 8 "20 * length ls"] by (simp add: map_in_memory_def)
qed

text \<open>A memory map the kernel can boot with: known kinds, in order, neither too little nor too much memory.\<close>

definition map_ok :: "MemLayout list \<Rightarrow> bool" where
  "map_ok ls \<longleftrightarrow> known_kinds ls \<and> in_order 0 0 ls
     \<and> 8192 \<le> card (usable_bytes ls) mod 2 ^ 32 \<and> card (usable_bytes ls) mod 2 ^ 32 < 0x3ff00000 + 4096"

definition boot_ready :: "MemLayout list \<Rightarrow> kernel \<Rightarrow> bool" where
  "boot_ready ls s \<longleftrightarrow> VGA_BUFFER s = UNINIT \<and> SERIAL_IO s = UNINIT \<and> INTR_TABLE s = UNINIT \<and> PAGE_ALLOC s = UNINIT
     \<and> TICKS s = 0 \<and> eventually_ready (dev s) 0x3fd OUTPUT_EMPTY
     \<and> map_in_memory ls s \<and> map_ok ls"

lemma io_frame_map: "io_frame s s' \<Longrightarrow> map_in_memory ls s \<Longrightarrow> map_in_memory ls s'"
  by (erule map_in_memory_frame) (rule io_frame_ram)

lemma high_address: "0xc0100000 \<le> unat (a :: u32) \<Longrightarrow> 4000 \<le> unat (a - VGA_BUFFER_ADDR)"
  by (simp add: unat_sub_if' VGA_BUFFER_ADDR_def)

lemma io_frame_heap:
  assumes "io_frame s s'" "heap_of pa s" "wf_pa pa" "data_ptr (bitmap pa) = 0xc0100000"
  shows "heap_of pa s'" "allocated pa s' = allocated pa s"
proof -
  show "heap_of pa s'" using assms(2) io_frame_simps(2) [OF assms(1)] by (simp add: heap_of_def)
  show "allocated pa s' = allocated pa s"
    using assms(4) by (intro allocated_ram [OF assms(3)] io_frame_ram [OF assms(1)] high_address) simp
qed

text \<open>Memory below the heap, the screen aside: the page tables, the boot information, the kernel.\<close>

definition low_kept :: "kernel \<Rightarrow> kernel \<Rightarrow> bool" where
  "low_kept s s' \<longleftrightarrow> (\<forall>a. unat a < 0xc0100000 \<longrightarrow> 4000 \<le> unat (a - VGA_BUFFER_ADDR) \<longrightarrow> ram s' a = ram s a)"

lemma low_kept_refl [simp]: "low_kept s s"
  by (simp add: low_kept_def)

lemma low_kept_trans: "low_kept s s' \<Longrightarrow> low_kept s' s'' \<Longrightarrow> low_kept s s''"
  by (simp add: low_kept_def)

lemma io_frame_low: "io_frame s s' \<Longrightarrow> low_kept s s'"
  by (simp add: low_kept_def io_frame_ram)

lemma bm_frame_below:
  assumes "bm_frame (bitmap pa) s s'" "wf_pa pa" "data_ptr (bitmap pa) = 0xc0100000" "unat a < 0xc0100000"
  shows "ram s' a = ram s a"
proof -
  have "unat (a - 0xc0100000) = unat a + 2 ^ 32 - 0xc0100000" using assms(4) by (simp add: unat_sub_if' word_le_nat_alt)
  moreover have "bm_bytes (bitmap pa) \<le> 2 ^ 32 - 0xc0100000"
    using assms(2,3) unsigned_less [of "base_addr pa", where 'a = nat] by (auto simp: wf_pa_def)
  ultimately have "bm_bytes (bitmap pa) \<le> unat (a - data_ptr (bitmap pa))" using assms(3) by simp
  then show ?thesis using assms(1) by (auto simp: bm_frame_def)
qed

lemma bm_frame_low:
  "bm_frame (bitmap pa) s s' \<Longrightarrow> wf_pa pa \<Longrightarrow> data_ptr (bitmap pa) = 0xc0100000 \<Longrightarrow> low_kept s s'"
  by (simp add: low_kept_def bm_frame_below)

lemma print_map_wp:
  assumes "screen_up s" "known_kinds ls"
  shows "wp (print_map pr ls) (\<lambda>_ s'. screen_up s' \<and> io_frame s s') s"
proof -
  have "wp (fold_each (\<lambda>m u. bnd (layout_debug m) (\<lambda>txt. println pr [txt])) ls ()) (\<lambda>_ s'. screen_up s' \<and> io_frame s s') s"
  proof (rule wp_fold_each [where I = "\<lambda>_ _ s'. screen_up s' \<and> io_frame s s'"])
    show "screen_up s \<and> io_frame s s" using assms(1) by simp
    fix pre x post u s1 assume ls: "ls = pre @ x # post" and I: "screen_up s1 \<and> io_frame s s1"
    have "1 \<le> unat (raw_kind x)" "unat (raw_kind x) \<le> 5" using assms(2) ls by (auto simp: known_kinds_def)
    then obtain k where "layout_kind x = (ret k :: (MemLayoutKind, kernel) comp)" using layout_kind_known by blast
    then have "layout_kind x s1 = Some (Done k s1)" by (simp add: run_basic)
    then obtain d where "layout_debug x s1 = Some (Done d s1)" by (simp add: layout_debug_def bnd_run run_basic)
    moreover have "wp (println pr [d]) (\<lambda>_ s'. screen_up s' \<and> io_frame s s') s1"
      by (rule wp_mono [OF println_wp [OF screen_up_ok]]) (use I io_frame_trans [of s s1] in auto)
    ultimately show "wp (bnd (layout_debug x) (\<lambda>txt. println pr [txt])) (\<lambda>_ s'. screen_up s' \<and> io_frame s s') s1"
      by (simp add: wp_bnd) (simp add: wp_def)
  qed
  then show ?thesis by (simp add: print_map_def wp_simps)
qed

section \<open>The first heap block\<close>

lemma store_slice: "length bs \<le> 0x7fffffff \<Longrightarrow> ram_slice (store_bytes r a bs) a (length bs) = bs"
  using ram_slice_store [of bs 0 "length bs" r a] by simp

lemma box_new_first:
  assumes "PAGE_ALLOC s = UNINIT" "map_in_memory ls s" "map_ok ls"
  shows "\<exists>pa r. box_new_i32 pr v s = Some (Done (base_addr pa) (s\<lparr>ram := r, PAGE_ALLOC := ready pa\<rparr>))
    \<and> wf_pa pa \<and> data_ptr (bitmap pa) = 0xc0100000
    \<and> allocated pa (s\<lparr>ram := r, PAGE_ALLOC := ready pa\<rparr>) = {0}
    \<and> ram_slice r (base_addr pa) 4 = bytes_of_word 4 v \<and> (\<forall>a. unat a < 0xc0100000 \<longrightarrow> r a = ram s a)
    \<and> unat (base_addr pa) = 0xc0100000 + 4096 * bitmap_pages (card (usable_bytes ls) mod 2 ^ 32 div 4096)
    \<and> unat (base_addr pa) + 4096 * page_count pa = 0xc0100000 + 4096 * (card (usable_bytes ls) mod 2 ^ 32 div 4096)"
proof -
  note ok = assms(3) [unfolded map_ok_def]
  let ?s0 = "page_cell.started s"
  have map0: "map_in_memory ls ?s0" using assms(2) by (simp add: page_cell.started_def map_in_memory_def)
  obtain n where n: "available_mem_size pr ?s0 = Some (Done n ?s0)" "unat n = card (usable_bytes ls)"
    using available_mem_size_card [OF map_in_memory_read [OF map0]] ok by blast
  let ?c = "unat (ucast n :: usize) div 4096"
  have c: "unat (ucast n :: usize) = card (usable_bytes ls) mod 2 ^ 32" by (simp add: unat_ucast_mod n(2))
  obtain pa s1 where pa: "page_allocator_default pr ?s0 = Some (Done pa s1)" "data_ptr (bitmap pa) = 0xc0100000"
      "page_count pa = managed_pages ?c" "unat (base_addr pa) = 0xc0100000 + 4096 * bitmap_pages ?c"
      "allocated pa s1 = {}" "bm_frame (bitmap pa) ?s0 s1"
    using page_allocator_default_run [OF n(1)] by blast
  have "8192 \<le> unat (ucast n :: usize)" "unat (ucast n :: usize) < 0x3ff00000 + 4096" using ok c by simp_all
  then have bounds: "2 \<le> ?c" "?c \<le> 0x3ff00" by linarith+
  then have wf: "wf_pa pa" using fresh_allocator_wf [OF pa(2-4)] by simp
  from bounds have cnt: "1 \<le> page_count pa" unfolding pa(3) managed_pages_def bitmap_pages_def by linarith
  have ext: "unat (base_addr pa) + 4096 * page_count pa = 0xc0100000 + 4096 * (card (usable_bytes ls) mod 2 ^ 32 div 4096)"
    using bitmap_pages_le [of ?c] unfolding pa(3,4) managed_pages_def c [symmetric] by simp
  let ?s2 = "page_cell.published pa s1"
  have h2: "heap_of pa ?s2" by (simp add: heap_of_live page_cell.live_published)
  have a2: "allocated pa ?s2 = {}" using pa(5) by (simp add: page_cell.published_def used_def bm_bit_def)
  have first: "alloc pr 4 s = alloc pr 4 ?s2"
    unfolding alloc_def using assms(1) pa(1) by (intro page_cell.get_mut_first) (simp_all add: UNINIT_def)
  have v4: "valid_size 4" "pages_for 4 = 1" by (simp_all add: valid_size_def pages_for_def)
  obtain s3 where s3: "alloc pr 4 ?s2 = Some (Done (page_addr pa 0) s3)" "heap_of pa s3" "bm_frame (bitmap pa) ?s2 s3"
      "allocated pa s3 = {0}"
    using alloc_run [OF h2 wf v4(1), of 0 pr] cnt a2 v4(2) by (auto simp: free_run_def)
  have addr: "page_addr pa 0 = base_addr pa" by (simp add: page_addr_def)
  obtain r1 where r1: "s1 = ?s0\<lparr>ram := r1\<rparr>" using pa(6) by (auto simp: bm_frame_def)
  obtain r3 where r3: "s3 = ?s2\<lparr>ram := r3\<rparr>" using s3(3) by (auto simp: bm_frame_def)
  let ?r = "store_bytes (ram s3) (base_addr pa) (bytes_of_word 4 v)"
  have st: "s3\<lparr>ram := ?r\<rparr> = s\<lparr>ram := ?r, PAGE_ALLOC := ready pa\<rparr>"
    unfolding r3 r1 by (simp add: page_cell.published_def page_cell.started_def assms(1) UNINIT_def)
  have below: "?r a = ram s3 a" if "unat a < unat (base_addr pa)" for a
  proof -
    have "unat (base_addr pa) + 4096 \<le> 2 ^ 32" using wf cnt unfolding wf_pa_def by linarith
    then have "\<not> unat (a - base_addr pa) < 4" using that by (simp add: unat_sub_if')
    then show ?thesis by (simp add: store_bytes_def)
  qed
  have "?r a = ram s a" if "unat a < 0xc0100000" for a
  proof -
    have "?r a = ram s3 a" by (rule below) (use that pa(4) in simp)
    also have "\<dots> = ram ?s2 a" by (rule bm_frame_below [OF s3(3) wf pa(2) that])
    also have "\<dots> = ram s1 a" by (simp add: page_cell.published_def)
    also have "\<dots> = ram ?s0 a" by (rule bm_frame_below [OF pa(6) wf pa(2) that])
    finally show ?thesis by (simp add: page_cell.started_def)
  qed
  moreover have "allocated pa (s3\<lparr>ram := ?r\<rparr>) = allocated pa s3"
    by (rule allocated_ram [OF wf]) (simp add: below)
  then have "allocated pa (s3\<lparr>ram := ?r\<rparr>) = {0}" using s3(4) by simp
  moreover have "box_new_i32 pr v s = Some (Done (base_addr pa) (s3\<lparr>ram := ?r\<rparr>))"
    using s3(1) by (simp add: box_new_i32_def bnd_run first addr run_basic)
  moreover have "ram_slice ?r (base_addr pa) 4 = bytes_of_word 4 v"
    using store_slice [of "bytes_of_word 4 v"] by simp
  ultimately show ?thesis using wf pa(2,4) st ext c by (intro exI [of _ pa] exI [of _ ?r]) simp
qed

section \<open>The boot sequence\<close>

text \<open>What the controllers have been told, over the whole history.\<close>

definition pics_ready :: "io_event list \<Rightarrow> bool" where
  "pics_ready h \<longleftrightarrow> (\<forall>p q.
     let master = pic_after PIC0_CTRL PIC0_DATA h p; slave = pic_after PIC1_CTRL PIC1_DATA h q in
     icw master = IcwReady \<and> icw slave = IcwReady \<and> vector_base master = 0x20 \<and> vector_base slave = 0x28
     \<and> \<not> single master \<and> \<not> single slave \<and> imr master = 0 \<and> imr slave = 0)"

lemma pics_ready_quiet:
  assumes "pics_ready h" "quiet h'"
  shows "pics_ready (h @ h')"
  using assms by (simp add: pics_ready_def Let_def PIC0_CTRL_def PIC0_DATA_def PIC1_CTRL_def PIC1_DATA_def quiet_pic)

lemma pics_ready_init:
  "pics_ready (h @ map (\<lambda>(p, d). Out p d)
     [(0x21, 0xff), (0xa1, 0xff), (0x20, 0x11), (0x21, 0x20), (0x21, 0x04), (0x21, 0x01),
      (0xa0, 0x11), (0xa1, 0x28), (0xa1, 0x02), (0xa1, 0x01), (0x21, 0x00), (0xa1, 0x00)])"
  by (simp add: pics_ready_def PIC0_CTRL_def PIC0_DATA_def PIC1_CTRL_def PIC1_DATA_def pic_sequence Let_def)

text \<open>The state the kernel is in when it reaches its halt loop.\<close>

definition booted :: "symbols \<Rightarrow> kernel \<Rightarrow> bool" where
  "booted syms s \<longleftrightarrow> intr_flag s \<and> screen_up s \<and> pics_ready (io s)
     \<and> idtr s = \<lparr>limit = 2047, base = intr_table_addr syms\<rparr>
     \<and> (\<exists>t. INTR_TABLE s = ready t \<and> (\<forall>v < 256. gate_for (cs_reg s) (vector_handler syms v) (gate_at (idt_bytes t) v)))"

lemma pic_init_ready: "\<exists>h. pic_init m = Some (Done () (m\<lparr>io := h\<rparr>)) \<and> pics_ready h"
  by (intro exI conjI, rule pic_init_run, rule pics_ready_init)

text \<open>The timer divisor for 200 Hz is 5966, low byte first.\<close>

lemma pit_timer_run: "pit_configure_channel pr 0 2 TIMER_FREQ m = Some (Done () (emit [(0x43, 0x34), (0x40, 0x4e), (0x40, 0x17)] m))"
proof -
  have "pit_count pr 200 = Inr 5966"
    by (simp add: pit_count_def PIT_HZ_def uadd_def udiv_def)
  then show ?thesis
    by (simp add: pit_configure_channel_def TIMER_FREQ_def PIT_PORT_CONTROL_def PIT_PORT_COUNTER_OFFSET_TO_CHANNEL_def
        uadd_def outb_run)
qed

lemma pit_timer_ready:
  assumes "pics_ready (io m)"
  shows "\<exists>h. pit_configure_channel pr 0 2 TIMER_FREQ m = Some (Done () (m\<lparr>io := h\<rparr>)) \<and> pics_ready h"
  by (intro exI conjI, rule pit_timer_run, rule pics_ready_quiet [OF assms]) (simp add: quiet_def)

lemma ram_slice_frame:
  assumes "\<And>a. 0xc0100000 \<le> unat a \<Longrightarrow> ram s' a = ram s a" "0xc0100000 \<le> unat a" "unat a + n \<le> 2 ^ 32"
  shows "ram_slice (ram s') a n = ram_slice (ram s) a n"
proof -
  have "ram s' (a + of_nat i) = ram s (a + of_nat i)" if "i < n" for i
  proof (rule assms(1))
    have "unat (of_nat i :: u32) = i" using that assms(2,3) by (intro unat_of_nat_bounded) simp
    then show "0xc0100000 \<le> unat (a + of_nat i)" using that assms(2,3) by (simp add: unat_plus_bounded)
  qed
  then show ?thesis by (simp add: ram_slice_def)
qed

lemma io_frame_slice:
  assumes "io_frame s s'" "0xc0100000 \<le> unat a" "unat a + n \<le> 2 ^ 32"
  shows "ram_slice (ram s') a n = ram_slice (ram s) a n"
  by (rule ram_slice_frame [OF io_frame_ram [OF assms(1) high_address] assms(2,3)])

text \<open>The greeting, up to the memory size.\<close>

lemma boot_banner:
  assumes "boot_ready ls s"
  obtains s1 s2 ks s3 ms s4 where
    "serial_println pr [''RondOS> HELLO RondOS''] s = Some (Done () s1)"
    "println pr [''HELLO RondOS''] s1 = Some (Done () s2)"
    "get_kernel_size s2 = Some (Done ks s2)"
    "println pr [''Kernel Size '', show_dec (ks div 1024), '' KiB''] s2 = Some (Done () s3)"
    "available_mem_size pr s3 = Some (Done ms s3)"
    "println pr [''Available Memory Size '', show_dec (ms div 1024), '' KiB''] s3 = Some (Done () s4)"
    "screen_up s4" "io_frame s s4"
proof -
  note rdy = assms [unfolded boot_ready_def]
  have uart: "uart_at (SerialPort 0x3f8) s" using rdy by (simp add: uart_at_def)
  obtain s1 where s1: "serial_println pr [''RondOS> HELLO RondOS''] s = Some (Done () s1)" "VGA_BUFFER s1 = UNINIT" "io_frame s s1"
    using serial_println_first_wp [OF _ uart, of pr] rdy by (auto simp: wp_iff)
  obtain s2 where s2: "println pr [''HELLO RondOS''] s1 = Some (Done () s2)" "screen_up s2" "io_frame s1 s2"
    using println_wp [of s1 pr] s1(2) by (auto simp: wp_iff screen_ok_def)
  obtain ks where ks: "get_kernel_size s2 = Some (Done ks s2)" by (simp add: get_kernel_size_def run_basic)
  obtain s3 where s3: "println pr [''Kernel Size '', show_dec (ks div 1024), '' KiB''] s2 = Some (Done () s3)"
      "screen_up s3" "io_frame s2 s3"
    using println_wp [OF screen_up_ok [OF s2(2)], of pr] by (auto simp: wp_iff)
  have f3: "io_frame s s3" using s1(3) s2(3) s3(3) io_frame_trans by blast
  have m3: "map_in_memory ls s3" using io_frame_map [OF f3] rdy by simp
  obtain ms where ms: "available_mem_size pr s3 = Some (Done ms s3)"
    using available_mem_size_card [OF map_in_memory_read [OF m3]] rdy by (auto simp: map_ok_def)
  obtain s4 where s4: "println pr [''Available Memory Size '', show_dec (ms div 1024), '' KiB''] s3 = Some (Done () s4)"
      "screen_up s4" "io_frame s3 s4"
    using println_wp [OF screen_up_ok [OF s3(2)], of pr] by (auto simp: wp_iff)
  show thesis
    using that [OF s1(1) s2(1) ks s3(1) ms s4(1,2)] io_frame_trans [OF f3 s4(3)] by blast
qed

text \<open>Controllers, timer, interrupt table and interrupt flag.\<close>

lemma boot_devices:
  assumes "screen_up s" "INTR_TABLE s = UNINIT"
  obtains s5 s6 s7 s8 where
    "pic_init s = Some (Done () s5)" "pit_configure_channel pr 0 2 TIMER_FREQ s5 = Some (Done () s6)"
    "install_handlers pr syms s6 = Some (Done () s7)" "sti s7 = Some (Done () s8)" "booted syms s8"
    "TICKS s8 = TICKS s" "PAGE_ALLOC s8 = PAGE_ALLOC s" "ram s8 = ram s" "VGA_BUFFER s8 = VGA_BUFFER s" "esp_reg s8 = esp_reg s"
proof -
  obtain h5 where s5: "pic_init s = Some (Done () (s\<lparr>io := h5\<rparr>))" "pics_ready h5"
    using pic_init_ready by blast
  obtain h6 where s6: "pit_configure_channel pr 0 2 TIMER_FREQ (s\<lparr>io := h5\<rparr>) = Some (Done () (s\<lparr>io := h6\<rparr>))" "pics_ready h6"
    using pit_timer_ready [of "s\<lparr>io := h5\<rparr>" pr] s5(2) by auto
  obtain t s7 where t: "idt_new pr = Inr t" and s7: "install_handlers pr syms (s\<lparr>io := h6\<rparr>) = Some (Done () s7)"
      "s7 = s\<lparr>io := h6, INTR_TABLE := ready (installed (cs_reg s) syms t), idtr := \<lparr>limit = 2047, base = intr_table_addr syms\<rparr>\<rparr>"
    using install_handlers_run [of "s\<lparr>io := h6\<rparr>" pr syms] assms(2) by auto
  have "booted syms (s7\<lparr>intr_flag := True\<rparr>)"
    using assms(1) s6(2) installed_gates [OF t] by (simp add: booted_def s7(2) screen_up_def)
  then show thesis
    by (intro that [OF s5(1) s6(1) s7(1), of "s7\<lparr>intr_flag := True\<rparr>"]) (simp_all add: sti_def run_basic s7(2))
qed

lemma booted_frame:
  assumes "booted syms s" "io_frame s s'" "screen_up s'"
  shows "booted syms s'"
  using assms io_frame_simps [OF assms(2)] pics_ready_quiet by (auto simp: booted_def)

text \<open>The memory map on the screen, and the first allocation.\<close>

lemma boot_tail:
  assumes "booted syms s" "PAGE_ALLOC s = UNINIT" "map_in_memory ls s" "map_ok ls"
  obtains s9 s10 pa s11 s12 where
    "print_map pr ls s = Some (Done () s9)"
    "println pr [''esp page: '', show_hex (pg_round_down (esp_reg s9))] s9 = Some (Done () s10)"
    "box_new_i32 pr 42 s10 = Some (Done (base_addr pa) s11)"
    "println pr [show_base 10 42, '' at '', show_ptr (base_addr pa)] s11 = Some (Done () s12)"
    "booted syms s12" "TICKS s12 = TICKS s" "heap_of pa s12" "wf_pa pa" "data_ptr (bitmap pa) = 0xc0100000" "allocated pa s12 = {0}"
    "ram_slice (ram s12) (base_addr pa) 4 = bytes_of_word 4 (42 :: u32)"
proof -
  obtain s9 where s9: "print_map pr ls s = Some (Done () s9)" "screen_up s9" "io_frame s s9"
    using print_map_wp [of s ls pr] assms(1,4) by (auto simp: wp_iff booted_def map_ok_def)
  obtain s10 where s10: "println pr [''esp page: '', show_hex (pg_round_down (esp_reg s9))] s9 = Some (Done () s10)"
      "screen_up s10" "io_frame s9 s10"
    using println_wp [OF screen_up_ok [OF s9(2)], of pr] by (auto simp: wp_iff)
  have f10: "io_frame s s10" using s9(3) s10(3) io_frame_trans by blast
  have p10: "PAGE_ALLOC s10 = UNINIT" "map_in_memory ls s10"
    using assms(2,3) io_frame_simps(2) [OF f10] io_frame_map [OF f10] by auto
  obtain pa r where box: "box_new_i32 pr 42 s10 = Some (Done (base_addr pa) (s10\<lparr>ram := r, PAGE_ALLOC := ready pa\<rparr>))"
      and pa: "wf_pa pa" "data_ptr (bitmap pa) = 0xc0100000" "allocated pa (s10\<lparr>ram := r, PAGE_ALLOC := ready pa\<rparr>) = {0}"
        "ram_slice r (base_addr pa) 4 = bytes_of_word 4 (42 :: u32)"
    using box_new_first [OF p10 assms(4), of pr 42] by blast
  let ?s11 = "s10\<lparr>ram := r, PAGE_ALLOC := ready pa\<rparr>"
  have b11: "booted syms ?s11" "TICKS ?s11 = TICKS s"
    using booted_frame [OF assms(1) f10 s10(2)] io_frame_simps(3) [OF f10] by (auto simp: booted_def screen_up_def)
  obtain s12 where s12: "println pr [show_base 10 42, '' at '', show_ptr (base_addr pa)] ?s11 = Some (Done () s12)"
      "screen_up s12" "io_frame ?s11 s12"
    using println_wp [of ?s11 pr "[show_base 10 42, '' at '', show_ptr (base_addr pa)]"] b11(1) screen_up_ok
    by (auto simp: wp_iff booted_def)
  have "0 < page_count pa" using pa(3) by (auto simp: used_def)
  then have "unat (base_addr pa) + 4096 \<le> 2 ^ 32" "0xc0100000 \<le> unat (base_addr pa)"
    using pa(1,2) unfolding wf_pa_def by (linarith, simp)
  then have "ram_slice (ram s12) (base_addr pa) 4 = bytes_of_word 4 (42 :: u32)"
    using io_frame_slice [OF s12(3), of "base_addr pa" 4] pa(4) by simp
  then show thesis
    using that [OF s9(1) s10(1) box s12(1) booted_frame [OF b11(1) s12(3,2)]] pa(1-3) b11(2) io_frame_simps(3) [OF s12(3)]
      io_frame_heap [OF s12(3) _ pa(1,2)] by (simp add: heap_of_def)
qed

lemma boot_setup_run:
  assumes "boot_ready ls s"
  shows "\<exists>s'. boot_setup pr syms s = Some (Done () s') \<and> booted syms s' \<and> TICKS s' = 0
    \<and> PAGE_ALLOC s' = UNINIT \<and> map_in_memory ls s' \<and> low_kept s s'"
proof -
  note rdy = assms [unfolded boot_ready_def]
  obtain s1 s2 ks s3 ms s4 where banner:
    "serial_println pr [''RondOS> HELLO RondOS''] s = Some (Done () s1)" "println pr [''HELLO RondOS''] s1 = Some (Done () s2)"
    "get_kernel_size s2 = Some (Done ks s2)" "println pr [''Kernel Size '', show_dec (ks div 1024), '' KiB''] s2 = Some (Done () s3)"
    "available_mem_size pr s3 = Some (Done ms s3)"
    "println pr [''Available Memory Size '', show_dec (ms div 1024), '' KiB''] s3 = Some (Done () s4)"
    and s4: "screen_up s4" "io_frame s s4"
    using boot_banner [OF assms] by metis
  have "INTR_TABLE s4 = UNINIT" using io_frame_simps(1) [OF s4(2)] rdy by simp
  then obtain s5 s6 s7 s8 where devs:
    "pic_init s4 = Some (Done () s5)" "pit_configure_channel pr 0 2 TIMER_FREQ s5 = Some (Done () s6)"
    "install_handlers pr syms s6 = Some (Done () s7)" "sti s7 = Some (Done () s8)" and b8: "booted syms s8"
    and s8: "TICKS s8 = TICKS s4" "PAGE_ALLOC s8 = PAGE_ALLOC s4" "ram s8 = ram s4"
    using boot_devices [OF s4(1), of pr syms] by metis
  have "TICKS s8 = 0" "PAGE_ALLOC s8 = UNINIT" "map_in_memory ls s8"
    using s8 io_frame_simps(2,3) [OF s4(2)] io_frame_map [OF s4(2)] rdy by (simp_all add: map_in_memory_def)
  moreover have "low_kept s s8" using io_frame_low [OF s4(2)] s8(3) by (simp add: low_kept_def)
  moreover have "boot_setup pr syms s = Some (Done () s8)"
    by (simp add: boot_setup_def andthen_run bnd_run banner devs)
  ultimately show ?thesis using b8 by auto
qed

lemma boot_run:
  assumes "boot_ready ls s"
  shows "\<exists>s' pa. boot pr syms s = Some (Done () s') \<and> booted syms s' \<and> TICKS s' = 0
    \<and> heap_of pa s' \<and> wf_pa pa \<and> data_ptr (bitmap pa) = 0xc0100000 \<and> allocated pa s' = {0}
    \<and> ram_slice (ram s') (base_addr pa) 4 = bytes_of_word 4 (42 :: u32)"
proof -
  obtain s8 where up: "boot_setup pr syms s = Some (Done () s8)" and b8: "booted syms s8" and t8: "TICKS s8 = 0"
    and k8: "PAGE_ALLOC s8 = UNINIT" "map_in_memory ls s8"
    using boot_setup_run [OF assms, of pr syms] by blast
  have ok: "map_ok ls" using assms by (simp add: boot_ready_def)
  obtain s9 s10 pa s11 s12 where tail:
    "print_map pr ls s8 = Some (Done () s9)"
    "println pr [''esp page: '', show_hex (pg_round_down (esp_reg s9))] s9 = Some (Done () s10)"
    "box_new_i32 pr 42 s10 = Some (Done (base_addr pa) s11)"
    "println pr [show_base 10 42, '' at '', show_ptr (base_addr pa)] s11 = Some (Done () s12)"
    and post: "booted syms s12" "TICKS s12 = TICKS s8" "heap_of pa s12" "wf_pa pa" "data_ptr (bitmap pa) = 0xc0100000"
    "allocated pa s12 = {0}" "ram_slice (ram s12) (base_addr pa) 4 = bytes_of_word 4 (42 :: u32)"
    using boot_tail [OF b8 k8 ok, of pr] by metis
  have "boot pr syms s = Some (Done () s12)"
    unfolding boot_def boot_rest_def
    by (simp add: up andthen_run bnd_run map_in_memory_read [OF k8(2)] tail esp_def run_basic)
  then show ?thesis using post t8 by auto
qed

text \<open>
  C2: Booting. On a machine with a working serial line, an ordered memory map below the screen
  memory and usable memory of at least 8 KiB and less than 1 GiB - 1 MiB + 4 KiB (as a 32-bit
  number), the entry point reaches its halt loop without a panic and never leaves it: interrupts
  are enabled, the controllers are initialised and remapped to 0x20 and 0x28, the table register
  covers a table with exactly the six gates to the kernel's handlers, the screen is usable, and the
  heap is well formed with one page in use that holds the boxed 42.
\<close>

theorem boot_succeeds:
  assumes "boot_ready ls s"
  shows "\<exists>s' pa. boot pr syms s = Some (Done () s') \<and> booted syms s' \<and> TICKS s' = 0
    \<and> heap_of pa s' \<and> wf_pa pa \<and> allocated pa s' = {0}
    \<and> ram_slice (ram s') (base_addr pa) 4 = bytes_of_word 4 (42 :: u32) \<and> (main pr syms :: (unit, kernel) comp) s = None"
proof -
  have "(main pr syms :: (unit, kernel) comp) s = None" if "boot pr syms s = Some (Done () s')" for s'
    using that by (simp add: main_def andthen_run forever_hangs)
  then show ?thesis using boot_run [OF assms, of pr syms] by metis
qed

definition sample_boot :: kernel where
  "sample_boot = fresh_kernel\<lparr>ram := sample_ram\<rparr>"

definition sample_symbols :: symbols where
  "sample_symbols = \<lparr>breakpoint_addr = 0xc0021000, page_fault_addr = 0xc0021100, double_fault_addr = 0xc0021200,
     segment_not_present_addr = 0xc0021300, timer_addr = 0xc0021400, keyboard_addr = 0xc0021500, intr_table_addr = 0xc0030000\<rparr>"

lemma sample_usable: "card (usable_bytes sample_map) = 0x1ef0000"
  by (simp add: usable_bytes_def sample_map_def counted_def range_start_def range_end_def)

lemma sample_boot_ready: "boot_ready sample_map sample_boot"
proof -
  have "map_in_memory sample_map sample_boot"
    using sample_slices by (simp add: map_in_memory_def sample_boot_def sample_map_def)
  moreover have "eventually_ready (dev sample_boot) 0x3fd OUTPUT_EMPTY"
    by (simp add: sample_boot_def fresh_kernel_def eventually_ready_def OUTPUT_EMPTY_def)
  ultimately show ?thesis
    using sample_in_order sample_usable by (simp add: boot_ready_def map_ok_def) (simp add: sample_boot_def fresh_kernel_def)
qed

theorem boot_succeeds_witness:
  "\<exists>s' pa. boot Debug sample_symbols sample_boot = Some (Done () s') \<and> booted sample_symbols s' \<and> TICKS s' = 0
    \<and> heap_of pa s' \<and> wf_pa pa \<and> allocated pa s' = {0}
    \<and> ram_slice (ram s') (base_addr pa) 4 = bytes_of_word 4 (42 :: u32)
    \<and> (main Debug sample_symbols :: (unit, kernel) comp) sample_boot = None"
  by (rule boot_succeeds [OF sample_boot_ready])

section \<open>Panics\<close>

lemma panic_handler_reports:
  assumes "screen_ok s" "SERIAL_IO s = ready (SerialPort 0x3f8)" "uart_at (SerialPort 0x3f8) s"
  shows "\<exists>s1 evs. println pr [info] s = Some (Done () s1) \<and> panic_report pr info s = Some (Done () (s1\<lparr>io := io s1 @ evs\<rparr>))
    \<and> sent_on 0x3f8 evs = concat (map wire (bytes_of info)) @ [0x0A] \<and> panic_handler pr info s = None"
proof -
  obtain v s0 where v: "println pr [info] s = println pr [info] s0" "VGA_BUFFER s0 = ready v" "vga_inv v"
      "SERIAL_IO s0 = SERIAL_IO s" "dev s0 = dev s"
    using assms(1) vga_print_first [of s pr "[info, [CHR 0x0A]]"] vga_new_inv
    unfolding screen_ok_def println_def by fastforce
  obtain v' s1 where r: "println pr [info] s0 = Some (Done () (s1\<lparr>VGA_BUFFER := ready v'\<rparr>))" "vga_frame s0 s1"
    using vga_print_run [OF v(2,3), of pr "[info] @ [[CHR 0x0A]]"] unfolding println_def by blast
  let ?s1 = "s1\<lparr>VGA_BUFFER := ready v'\<rparr>"
  have s1: "SERIAL_IO ?s1 = ready (SerialPort 0x3f8)" "uart_at (SerialPort 0x3f8) ?s1"
    using vga_frame_kernel [OF r(2)] v(4,5) assms(2,3) by (simp_all add: uart_at_def)
  obtain evs where e: "serial_println pr [info] ?s1 = Some (Done () (?s1\<lparr>io := io ?s1 @ evs\<rparr>))"
      "transmits 0x3f8 (concat (map wire (concat (map bytes_of ([info] @ [[CHR 0x0A]]))))) evs"
    using serial_print_run [OF s1, of pr "[info] @ [[CHR 0x0A]]"] unfolding serial_println_def by blast
  have "sent_on 0x3f8 evs = concat (map wire (bytes_of info)) @ [0x0A]"
    using transmits_sent [OF e(2)] by (simp add: wire_def bytes_of_def)
  moreover have rep: "panic_report pr info s = Some (Done () (?s1\<lparr>io := io ?s1 @ evs\<rparr>))"
    using v(1) r(1) e(1) by (simp add: panic_report_def andthen_run)
  moreover have "panic_handler pr info s = None"
    using rep by (simp add: panic_handler_def andthen_run forever_hangs)
  ultimately show ?thesis using v(1) r(1) by auto
qed

text \<open>
  C38: A panic is reported on the screen and then on the serial line, where the bytes of the
  message (8 and 0x7f as backspace, blank, backspace) and a line feed go out in order; after that
  the handler never returns.
\<close>

theorem panic_is_reported:
  assumes "screen_ok s" and "SERIAL_IO s = ready (SerialPort 0x3f8)" and "uart_at (SerialPort 0x3f8) s"
  shows "\<exists>s1 evs. println pr [info] s = Some (Done () s1) \<and> panic_report pr info s = Some (Done () (s1\<lparr>io := io s1 @ evs\<rparr>))
    \<and> sent_on 0x3f8 evs = concat (map wire (bytes_of info)) @ [0x0A] \<and> panic_handler pr info s = None"
  using assms by (rule panic_handler_reports)

theorem panic_is_reported_witness:
  "\<exists>s1 evs. println Debug [''explicit panic''] (fresh_kernel\<lparr>SERIAL_IO := ready (SerialPort 0x3f8)\<rparr>) = Some (Done () s1)
    \<and> panic_report Debug ''explicit panic'' (fresh_kernel\<lparr>SERIAL_IO := ready (SerialPort 0x3f8)\<rparr>) = Some (Done () (s1\<lparr>io := io s1 @ evs\<rparr>))
    \<and> sent_on 0x3f8 evs = concat (map wire (bytes_of ''explicit panic'')) @ [0x0A]
    \<and> panic_handler Debug ''explicit panic'' (fresh_kernel\<lparr>SERIAL_IO := ready (SerialPort 0x3f8)\<rparr>) = None"
  by (rule panic_is_reported)
    (simp_all add: screen_ok_def fresh_kernel_def uart_at_def eventually_ready_def OUTPUT_EMPTY_def)

end
