(* ===== verification/RondStart.thy ===== *)
theory RondStart
  imports RondDetect RondBoot
begin

text \<open>
  From the first sector to the halt loop: the loader as a whole, the memory it hands to the kernel
  as the kernel sees it through the page tables, and that this is what booting needs.
\<close>

section \<open>The loader as a whole\<close>

text \<open>What is on the disk, what the firmware reports, and where the mark lies.\<close>

definition bootable :: "firmware \<Rightarrow> nat \<Rightarrow> u8 list \<Rightarrow> MemLayout list \<Rightarrow> bool" where
  "bootable fw k bin ls \<longleftrightarrow> reads_disk fw bin \<and> loader_image k bin \<and> reports fw 0 ls \<and> length ls \<le> 178
     \<and> 0 < LOADER_END k mod 65536 \<and> LOADER_END k mod 65536 + 4 \<le> 127 * 512"

definition loaded_mem :: "nat \<Rightarrow> u8 list \<Rightarrow> MemLayout list \<Rightarrow> (u32 \<Rightarrow> u8) \<Rightarrow> u32 \<Rightarrow> u8" where
  "loaded_mem k bin ls m = store_u32 (table_memory (map_mem (chunks_read (disk_img bin) 0 (LOADER_DISK_TIME k) m) (of_nat (length ls)) ls))
     0x20200 (of_nat (LOADER_END k))"

lemma store_apart: "4 \<le> unat (x - a) \<Longrightarrow> store_u32 m a w x = m x"
  by (simp add: store_u32_def store_bytes_def)

lemma loaded_tables: "tables_in (loaded_mem k bin ls m)"
  by (rule tables_in_frame [OF table_memory_tables])
    (auto simp: loaded_mem_def intro!: store_apart simp: unat_sub_if' word_le_nat_alt)

lemma run_loader_result:
  assumes "bootable fw k bin ls"
  shows "\<exists>s'. run_loader fw k g s = Some (Done (read_u32 (loaded_mem k bin ls (mem s)) 0x21018) s')
    \<and> mem s' = loaded_mem k bin ls (mem s) \<and> cr3_val s' = 0xf000 \<and> stack_top s' = 0xc000f000
    \<and> cr0_val s' = ((cr0_val s OR CR0_PE OR CR0_PG OR CR0_WP) AND 0xFFFFFFFB) OR 2
    \<and> gdt_limit s' = 23 \<and> gdt_base s' = g + 0x20000
    \<and> tty s' = tty s @ bytes_of ''Booting'' @ [0x0d, 0x0a] @ bytes_of ''Jump In''"
proof -
  note b = assms [unfolded bootable_def]
  let ?s1 = "a20gate (boot_start (dapack k s))" and ?M = "chunks_read (disk_img bin) 0 (LOADER_DISK_TIME k) (mem s)"
  have s1: "?s1 = dapack k (s\<lparr>es := 0x07c0, stack_top := 0xf000, tty := tty s @ bytes_of ''Booting'' @ [0x0d, 0x0a], port92 := port92 s OR 2\<rparr>)"
    by (simp add: a20gate_def boot_start_def dapack_def puts_frame str_boot_start_def bytes_of_def)
  obtain s2 where s2: "load_image fail_loop fw k ?s1 = Some (Done () s2)" "mem s2 = ?M" "stack_top s2 = 0xf000" "cr0_val s2 = cr0_val s"
      "tty s2 = tty s @ bytes_of ''Booting'' @ [0x0d, 0x0a]"
    using bios_read_image [of fw bin k "s\<lparr>es := 0x07c0, stack_top := 0xf000, tty := tty s @ bytes_of ''Booting'' @ [0x0d, 0x0a], port92 := port92 s OR 2\<rparr>"]
      load_image_ok [of k bin fw ?s1] b unfolding s1 by (auto simp: dapack_def)
  have "collecting ?M [] (detect_start (jump_in s2))"
    by (simp add: collecting_def detect_start_def jump_in_def puts_frame map_mem_def store_bytes_def linear_def memlayoutlen_def memlayoutbuf_def s2(2))
  from detect_reports [OF this, of ls fw] b obtain d where s3: "detectmem fw (detect_start (jump_in s2))
      = Some ((detect_start (jump_in s2))\<lparr>ebx := 0, mem := map_mem ?M (of_nat (length ls)) ls, di := d\<rparr>)" (is "_ = Some ?s3")
    by (auto simp: detect_start_def)
  let ?s4 = "set_pde g (build_pte (build_pde (pde_mem_clear ?s3)))"
  have m4: "mem ?s4 = table_memory (map_mem ?M (of_nat (length ls)) ls)" "cr3_val ?s4 = 0xf000" "stack_top ?s4 = 0xf000"
    "cr0_val ?s4 = cr0_val s OR CR0_PE OR CR0_PG OR CR0_WP" "gdt_limit ?s4 = 23" "gdt_base ?s4 = g + 0x20000"
    "tty ?s4 = tty s @ bytes_of ''Booting'' @ [0x0d, 0x0a] @ bytes_of ''Jump In''"
    using s2 by (simp_all add: set_pde_def build_tables_mem build_tables_frame PAGING_TABLE_ADDR_def LOADER_LOAD_ADDR_def gdt_def
        detect_start_def jump_in_def puts_frame str_jump_in_def bytes_of_def)
  have tr: "translate m 0xf000 (0xc0000000 + p) = Some p" if "tables_in m" "unat p < 0x4000000" for m p
    using translate_first(2) [OF that(1), of p] page_lookup_mapped [OF that(1), of "unat p"] that(2) by (simp add: KERNEL_BASE_def)
  let ?s5 = "?s4\<lparr>stack_top := 0xc000f000, mem := loaded_mem k bin ls (mem s)\<rparr>"
  have s5: "protect_entry k ?s4 = Some (Done () ?s5)"
    using tr [of "mem ?s4" "0x20200"] m4 table_memory_tables
    by (simp add: protect_entry_def access_def andthen_run bnd_run run_basic KERNEL_BASE_def LOADER_LOAD_ADDR_def kernel_size_def loaded_mem_def)
  show ?thesis
    using tr [OF loaded_tables, of "0x21018" k bin ls "mem s"] s2(1) s3 m4 s5
    by (simp add: run_loader_def andthen_run bnd_run enable_sse_def access_def run_basic KERNEL_BASE_def)
qed

section \<open>What the kernel finds\<close>

text \<open>Memory through the page tables.\<close>

definition kernel_view :: "loader \<Rightarrow> u32 \<Rightarrow> u8" where
  "kernel_view l a = (case translate (mem l) (cr3_val l) a of Some p \<Rightarrow> mem l p | None \<Rightarrow> 0)"

lemma translate_kernel:
  assumes "tables_in m" "0xc0000000 \<le> unat a" "unat a < 0xc4000000"
  shows "translate m 0xf000 a = Some (a - KERNEL_BASE)"
proof -
  have u: "unat (a - KERNEL_BASE) = unat a - 0xc0000000"
    using assms(2) by (simp add: KERNEL_BASE_def unat_sub_if' word_le_nat_alt)
  then have "unat (a - KERNEL_BASE) < 0x4000000" using assms(2,3) by simp
  then show ?thesis
    using translate_first(2) [OF assms(1), of "a - KERNEL_BASE"] page_lookup_mapped [OF assms(1), of "unat (a - KERNEL_BASE)"] by simp
qed

text \<open>
  The kernel is entered with that memory and the loader's registers. Its statics are bytes of that memory, at addresses the
  linker picks: the one of each \<open>inited\<close>, and the eight of \<open>TICKS\<close>. No static has data yet.
\<close>

record static_places =
  vga_at :: u32
  serial_at :: u32
  intr_at :: u32
  alloc_at :: u32
  ticks_at :: u32

definition static_at :: "(u32 \<Rightarrow> u8) \<Rightarrow> u32 \<Rightarrow> 'a Singleton" where
  "static_at m a = \<lparr>inited = m a, data = None\<rparr>"

definition entered :: "static_places \<Rightarrow> loader \<Rightarrow> kernel \<Rightarrow> bool" where
  "entered pl l s \<longleftrightarrow> ram s = kernel_view l \<and> esp_reg s = stack_top l \<and> cr3_reg s = cr3_val l \<and> cs_reg s = SELECTOR_CODE_SEG
     \<and> \<not> intr_flag s \<and> VGA_BUFFER s = static_at (kernel_view l) (vga_at pl) \<and> SERIAL_IO s = static_at (kernel_view l) (serial_at pl)
     \<and> INTR_TABLE s = static_at (kernel_view l) (intr_at pl) \<and> PAGE_ALLOC s = static_at (kernel_view l) (alloc_at pl)
     \<and> TICKS s = read_u64 (kernel_view l) (ticks_at pl)"

text \<open>
  An image the kernel can run from: it fits into the 127 blocks of the first read, so that none of it
  is missing in memory, and the disk has zeros where the statics lie, be it inside the
  kernel's file or behind it. Nothing else makes them zero.
\<close>

definition zero_on_disk :: "u8 list \<Rightarrow> u32 \<Rightarrow> nat \<Rightarrow> bool" where
  "zero_on_disk bin a n \<longleftrightarrow> 0xc0021000 \<le> unat a \<and> unat a + n \<le> 0xc0020000 + 127 * 512
     \<and> (\<forall>j < n. disk_img bin ! (unat a - 0xc0020000 + j) = 0)"

definition runnable :: "static_places \<Rightarrow> nat \<Rightarrow> u8 list \<Rightarrow> bool" where
  "runnable pl k bin \<longleftrightarrow> LOADER_END k + 4 \<le> 127 * 512 \<and> zero_on_disk bin (vga_at pl) 1 \<and> zero_on_disk bin (serial_at pl) 1
     \<and> zero_on_disk bin (intr_at pl) 1 \<and> zero_on_disk bin (alloc_at pl) 1 \<and> zero_on_disk bin (ticks_at pl) 8"

lemma kernel_view_slice:
  assumes "tables_in (mem l)" "cr3_val l = 0xf000" "unat p + n \<le> 0x4000000"
  shows "ram_slice (kernel_view l) (0xc0000000 + p) n = ram_slice (mem l) p n"
proof (rule nth_equalityI)
  fix j assume "j < length (ram_slice (kernel_view l) (0xc0000000 + p) n)"
  then have j: "j < n" by simp
  then have u: "unat (p + of_nat j) = unat p + j"
    using assms(3) unat_of_nat_bounded [where 'w = 32, of j] by (simp add: unat_plus_bounded)
  then have "translate (mem l) 0xf000 (0xc0000000 + (p + of_nat j)) = Some (p + of_nat j)"
    using translate_first(2) [OF assms(1), of "p + of_nat j"] page_lookup_mapped [OF assms(1), of "unat (p + of_nat j)"] assms(3) j
    by (simp add: KERNEL_BASE_def)
  then show "ram_slice (kernel_view l) (0xc0000000 + p) n ! j = ram_slice (mem l) p n ! j"
    using j assms(2) by (simp add: ram_slice_def kernel_view_def add.assoc)
qed simp

text \<open>The parts of the loaded memory.\<close>

lemma slice_cong: "(\<And>x. unat (x - a) < n \<Longrightarrow> m x = m' x) \<Longrightarrow> n \<le> 2 ^ 32 \<Longrightarrow> ram_slice m a n = ram_slice m' a n"
  by (auto simp: ram_slice_def unat_of_nat_bounded)

lemma loaded_outside:
  assumes "0x20204 \<le> unat x"
  shows "loaded_mem k bin ls m x = map_mem (chunks_read (disk_img bin) 0 (LOADER_DISK_TIME k) m) (of_nat (length ls)) ls x"
proof -
  have "4 \<le> unat (x - 0x20200)" using assms by (simp add: unat_sub_if' word_le_nat_alt)
  then show ?thesis using assms by (simp add: loaded_mem_def store_apart table_memory_outside)
qed

lemma loaded_image_part:
  assumes "0x21000 \<le> unat x" "length ls \<le> 178"
  shows "loaded_mem k bin ls m x = chunks_read (disk_img bin) 0 (LOADER_DISK_TIME k) m x"
proof -
  have "unat (x - 0x20208) = unat x - 0x20208" "unat (x - 0x20204) = unat x - 0x20204"
    using assms(1) by (simp_all add: unat_sub_if' word_le_nat_alt)
  then have "\<not> unat (x - 0x20208) < 20 * length ls" "\<not> unat (x - 0x20204) < 4" using assms by linarith+
  then show ?thesis using assms loaded_outside [of x k bin ls m]
    by (simp only: map_mem_def store_u32_def store_bytes_def length_map_bytes) simp
qed

lemma above: "unat (a :: u32) + n \<le> 2 ^ 32 \<Longrightarrow> unat (x - a) < n \<Longrightarrow> unat a \<le> unat x \<and> unat x < unat a + n"
  by (auto simp: unat_sub_if' word_le_nat_alt split: if_splits)

lemma loaded_slices:
  assumes "bootable fw k bin ls"
  shows "ram_slice (loaded_mem k bin ls m) 0x20200 4 = bytes_of_word 4 (of_nat (LOADER_END k) :: u32)"
    "ram_slice (loaded_mem k bin ls m) 0x20204 4 = bytes_of_word 4 (of_nat (length ls) :: u32)"
    "ram_slice (loaded_mem k bin ls m) 0x20208 (20 * length ls) = concat (map layout_bytes ls)"
    "read_u32 (loaded_mem k bin ls m) 0x21018 = word_of_bytes (take 4 (drop 0x1018 bin))"
proof -
  note b = assms [unfolded bootable_def]
  let ?C = "chunks_read (disk_img bin) 0 (LOADER_DISK_TIME k) m"
  show "ram_slice (loaded_mem k bin ls m) 0x20200 4 = bytes_of_word 4 (of_nat (LOADER_END k) :: u32)"
    using ram_slice_store [of "bytes_of_word 4 (of_nat (LOADER_END k) :: u32)" 0 4 _ "0x20200"] by (simp add: loaded_mem_def store_u32_def)
  have "ram_slice (loaded_mem k bin ls m) 0x20204 4 = ram_slice (map_mem ?C (of_nat (length ls)) ls) 0x20204 4"
    by (rule slice_cong) (use above [of "0x20204" 4] loaded_outside in auto)
  also have "\<dots> = ram_slice (store_u32 ?C 0x20204 (of_nat (length ls))) 0x20204 4"
    by (rule slice_cong) (use above [of "0x20204" 4] b in \<open>auto simp: map_mem_def store_bytes_def [of _ "0x20208"] length_map_bytes unat_sub_if' word_le_nat_alt\<close>)
  finally show "ram_slice (loaded_mem k bin ls m) 0x20204 4 = bytes_of_word 4 (of_nat (length ls) :: u32)"
    using ram_slice_store [of "bytes_of_word 4 (of_nat (length ls) :: u32)" 0 4 ?C "0x20204"] by (simp add: store_u32_def)
  have "ram_slice (loaded_mem k bin ls m) 0x20208 (20 * length ls) = ram_slice (map_mem ?C (of_nat (length ls)) ls) 0x20208 (20 * length ls)"
    by (intro slice_cong loaded_outside) (use above [of "0x20208" "20 * length ls"] b in force)+
  then show "ram_slice (loaded_mem k bin ls m) 0x20208 (20 * length ls) = concat (map layout_bytes ls)"
    using ram_slice_store [of "concat (map layout_bytes ls)" 0 "20 * length ls" _ "0x20208"] b by (simp add: map_mem_def length_map_bytes)
  have "ram_slice (loaded_mem k bin ls m) 0x21018 4 = ram_slice ?C 0x21018 4"
    by (intro slice_cong loaded_image_part) (use above [of "0x21018" 4] b in force)+
  also have "\<dots> = take 4 (drop 0x1018 (disk_img bin))"
    using chunks_read_slice [of "0x1018" 4 "LOADER_DISK_TIME k" "disk_img bin" m] b image_sizes [of k bin] length_disk_img by simp
  also have "\<dots> = take 4 (drop 0x1018 bin)" using b by (intro disk_bytes) (simp add: loader_image_def LOADER_END_def)
  finally show "read_u32 (loaded_mem k bin ls m) 0x21018 = word_of_bytes (take 4 (drop 0x1018 bin))" by (simp add: read_u32_def)
qed

lemma entered_map:
  assumes "bootable fw k bin ls" "mem l = loaded_mem k bin ls m" "cr3_val l = 0xf000" "entered pl l s"
  shows "map_in_memory ls s" "get_kernel_size s = Some (Done (of_nat (LOADER_END k)) s)"
proof -
  have t: "tables_in (mem l)" unfolding assms(2) by (rule loaded_tables)
  have n: "length ls \<le> 178" using assms(1) by (simp add: bootable_def)
  have v: "ram s = kernel_view l" using assms(4) by (simp add: entered_def)
  note view = kernel_view_slice [OF t assms(3)] and parts = loaded_slices [OF assms(1), of m, folded assms(2)]
  show "map_in_memory ls s"
    using view [of "0x20204" 4] view [of "0x20208" "20 * length ls"] parts(2,3) n by (simp add: map_in_memory_def v)
  have "ram_slice (ram s) 0xc0020200 4 = bytes_of_word 4 (of_nat (LOADER_END k) :: u32)"
    using view [of "0x20200" 4] parts(1) by (simp add: v)
  then show "get_kernel_size s = Some (Done (of_nat (LOADER_END k)) s)"
    by (simp add: get_kernel_size_def run_basic read_u32_def word_of_bytes_of_word)
qed

lemma kernel_view_byte:
  assumes "mem l = loaded_mem k bin ls m" "cr3_val l = 0xf000" "length ls \<le> 178" "0x1000 \<le> i" "i < 0x1000000"
  shows "kernel_view l (0xc0020000 + of_nat i) = chunks_read (disk_img bin) 0 (LOADER_DISK_TIME k) m (0x20000 + of_nat i)"
proof -
  have t: "tables_in (mem l)" unfolding assms(1) by (rule loaded_tables)
  have i: "unat (of_nat i :: u32) = i" using assms(5) by (simp add: unat_of_nat_bounded)
  then have u: "unat (0xc0020000 + of_nat i :: u32) = 0xc0020000 + i" "unat (0x20000 + of_nat i :: u32) = 0x20000 + i"
    using assms(5) by (simp_all add: unat_plus_bounded)
  have "translate (mem l) 0xf000 (0xc0020000 + of_nat i) = Some (0x20000 + of_nat i)"
    using translate_kernel [OF t, of "0xc0020000 + of_nat i"] u(1) assms(5) by (simp add: KERNEL_BASE_def algebra_simps)
  then have "kernel_view l (0xc0020000 + of_nat i) = loaded_mem k bin ls m (0x20000 + of_nat i)"
    using assms(1,2) by (simp add: kernel_view_def)
  then show ?thesis using loaded_image_part [of "0x20000 + of_nat i" ls] u(2) assms(3,4) by simp
qed

text \<open>The first 127 blocks are in memory as they are on the disk.\<close>

lemma first_chunk:
  assumes "bootable fw k bin ls" "mem l = loaded_mem k bin ls m" "cr3_val l = 0xf000" "0x1000 \<le> i" "i < 127 * 512"
  shows "kernel_view l (0xc0020000 + of_nat i) = disk_img bin ! i"
proof -
  have "loader_image k bin" "length ls \<le> 178" using assms(1) by (simp_all add: bootable_def)
  moreover have "0 < LOADER_DISK_TIME k" using calculation(1) by (rule image_sizes)
  moreover from this have "i < 65536 * LOADER_DISK_TIME k" using assms(5) by linarith
  moreover have "unat (of_nat i :: u32) = i" using assms(5) by (simp add: unat_of_nat_bounded)
  ultimately show ?thesis using kernel_view_byte [OF assms(2,3) _ assms(4), of] assms(5) by (simp add: chunks_read_def)
qed

lemma zero_in_memory:
  assumes "bootable fw k bin ls" "mem l = loaded_mem k bin ls m" "cr3_val l = 0xf000" "zero_on_disk bin a n"
  shows "ram_slice (kernel_view l) a n = replicate n 0"
proof (rule nth_equalityI)
  fix j assume "j < length (ram_slice (kernel_view l) a n)"
  then have j: "j < n" by simp
  note z = assms(4) [unfolded zero_on_disk_def]
  define i where "i = unat a - 0xc0020000"
  have "a = of_nat (0xc0020000 + i)" using z by (simp add: i_def)
  then have a: "a + of_nat j = 0xc0020000 + of_nat (i + j)" by (simp add: add.assoc)
  have "0x1000 \<le> i + j" "i + j < 127 * 512" "disk_img bin ! (i + j) = 0" using z j unfolding i_def by (simp_all only:) linarith+
  then have b: "kernel_view l (a + of_nat j) = 0" using first_chunk [OF assms(1-3), of "i + j"] unfolding a by simp
  then show "ram_slice (kernel_view l) a n ! j = replicate n 0 ! j"
    using b j by (simp add: ram_slice_def)
qed simp

lemma word_of_zeros: "word_of_bytes (replicate n 0) = 0"
  by (induction n) simp_all

lemma entered_statics:
  assumes "bootable fw k bin ls" "mem l = loaded_mem k bin ls m" "cr3_val l = 0xf000" "runnable pl k bin" "entered pl l s"
  shows "VGA_BUFFER s = UNINIT" "SERIAL_IO s = UNINIT" "INTR_TABLE s = UNINIT" "PAGE_ALLOC s = UNINIT" "TICKS s = 0"
proof -
  note z = zero_in_memory [OF assms(1-3)] and r = assms(4) [unfolded runnable_def] and e = assms(5) [unfolded entered_def]
  have "kernel_view l a = 0" if "zero_on_disk bin a 1" for a
    using z [OF that] by (simp add: ram_slice_def)
  then have "kernel_view l (vga_at pl) = 0" "kernel_view l (serial_at pl) = 0" "kernel_view l (intr_at pl) = 0" "kernel_view l (alloc_at pl) = 0"
    using r by simp_all
  then show "VGA_BUFFER s = UNINIT" "SERIAL_IO s = UNINIT" "INTR_TABLE s = UNINIT" "PAGE_ALLOC s = UNINIT" using e by (simp_all add: static_at_def UNINIT_def SINGLE_UNINIT_def)
  have "TICKS s = word_of_bytes (replicate 8 0)" using z [of "ticks_at pl" 8] r e by (simp only: read_u64_def)
  then show "TICKS s = 0" by (simp only: word_of_zeros)
qed

lemma entered_ready:
  assumes "bootable fw k bin ls" "mem l = loaded_mem k bin ls m" "cr3_val l = 0xf000" "runnable pl k bin" "entered pl l s"
    and "map_ok ls" "eventually_ready (dev s) 0x3fd OUTPUT_EMPTY"
  shows "boot_ready ls s"
  using entered_statics [OF assms(1-5)] entered_map(1) [OF assms(1-3,5)] assms(5-7) by (simp add: boot_ready_def entered_def)


text \<open>The sample disk, and a kernel entered on it.\<close>

lemma sample_bootable: "bootable sample_firmware 52 sample_bin sample_map"
  using sample_disk sample_reports by (simp add: bootable_def LOADER_END_def sample_map_def)

lemma sample_map_ok: "map_ok sample_map"
  using sample_in_order sample_usable by (simp add: map_ok_def)

definition sample_places :: static_places where
  "sample_places = \<lparr>vga_at = 0xc0021020, serial_at = 0xc0021021, intr_at = 0xc0021022, alloc_at = 0xc0021023, ticks_at = 0xc0021028\<rparr>"

lemma sample_runnable: "runnable sample_places 52 sample_bin"
proof -
  have "disk_img sample_bin ! (0x1020 + j) = 0" if "j < 0x14" for j
    using that by (simp add: disk_img_def Let_def sample_bin_def gdt_def nth_append nth_Cons' bytes_of_word_def)
  from this [of 0] this [of 1] this [of 2] this [of 3] this [of "8 + j" for j] show ?thesis
    by (simp add: runnable_def zero_on_disk_def sample_places_def LOADER_END_def)
qed

definition entry_state :: "static_places \<Rightarrow> loader \<Rightarrow> kernel" where
  "entry_state pl l = fresh_kernel\<lparr>ram := kernel_view l, esp_reg := stack_top l, cr3_reg := cr3_val l, cs_reg := SELECTOR_CODE_SEG,
     VGA_BUFFER := static_at (kernel_view l) (vga_at pl), SERIAL_IO := static_at (kernel_view l) (serial_at pl),
     INTR_TABLE := static_at (kernel_view l) (intr_at pl), PAGE_ALLOC := static_at (kernel_view l) (alloc_at pl),
     TICKS := read_u64 (kernel_view l) (ticks_at pl)\<rparr>"

lemma entry_state_entered: "entered pl l (entry_state pl l)" "eventually_ready (dev (entry_state pl l)) 0x3fd OUTPUT_EMPTY"
  by (simp_all add: entered_def entry_state_def fresh_kernel_def eventually_ready_def OUTPUT_EMPTY_def)


end
