(* ===== verification/RondIrq.thy ===== *)
theory RondIrq
  imports RondBoot
begin

text \<open>
  Interrupts and exceptions in the booted kernel: how the processor gets from a vector to a handler
  of \<open>RondMain\<close> through the table the kernel has built, and what each handler then does.
\<close>

section \<open>Dispatch\<close>

text \<open>The linker gives the handlers different addresses.\<close>

definition linked :: "symbols \<Rightarrow> bool" where
  "linked syms \<longleftrightarrow> distinct [breakpoint_addr syms, page_fault_addr syms, double_fault_addr syms,
     segment_not_present_addr syms, timer_addr syms, keyboard_addr syms]"

definition run_handler :: "profile \<Rightarrow> symbols \<Rightarrow> usize \<Rightarrow> u32 \<Rightarrow> ExceptionStackFrame \<Rightarrow> (unit, kernel) comp" where
  "run_handler pr syms a err f =
     (if a = timer_addr syms then timer_handler pr f
      else if a = keyboard_addr syms then keyboard_handler pr f
      else if a = breakpoint_addr syms then breakpoint_handler pr f
      else if a = page_fault_addr syms then page_fault_handler pr f err
      else if a = segment_not_present_addr syms then segment_not_present_handler pr f err
      else if a = double_fault_addr syms then double_fault_handler pr f err
      else undef)"

text \<open>
  The processor's side: it runs the code a present gate leads to. A gate that is not present raises
  segment not present (vector 11) with an error code that holds the vector, the table bit and, for
  an external event, the external bit. When the event is itself a contributory exception or a page
  fault, or when vector 11 has no gate either, that is a double fault (vector 8, error code 0);
  when the double fault has no gate, the processor shuts down.
\<close>

definition not_present_code :: "bool \<Rightarrow> nat \<Rightarrow> u32" where
  "not_present_code ext vec = of_nat (8 * vec + (if ext then 3 else 2))"

definition escalates :: "bool \<Rightarrow> nat \<Rightarrow> bool" where
  "escalates ext vec \<longleftrightarrow> \<not> ext \<and> vec \<in> {0, 8, 10, 11, 12, 13, 14, 20, 21}"

definition deliver :: "profile \<Rightarrow> symbols \<Rightarrow> bool \<Rightarrow> nat \<Rightarrow> u32 \<Rightarrow> ExceptionStackFrame \<Rightarrow> (unit, kernel) comp" where
  "deliver pr syms ext vec err f s = (case data (INTR_TABLE s) of
     None \<Rightarrow> Some Undefined
   | Some t \<Rightarrow> (let gate = gate_at (idt_bytes t) in
       if gate_present (gate vec) then run_handler pr syms (gate_offset (gate vec)) err f s
       else if \<not> escalates ext vec \<and> gate_present (gate 11)
         then run_handler pr syms (gate_offset (gate 11)) (not_present_code ext vec) f s
       else if vec \<noteq> 8 \<and> gate_present (gate 8) then run_handler pr syms (gate_offset (gate 8)) 0 f s
       else None))"

text \<open>A device interrupt carries no error code.\<close>

definition irq :: "profile \<Rightarrow> symbols \<Rightarrow> nat \<Rightarrow> ExceptionStackFrame \<Rightarrow> (unit, kernel) comp" where
  "irq pr syms vec = deliver pr syms True vec 0"

definition eoi_count :: "io_event list \<Rightarrow> nat" where
  "eoi_count h = length (filter (\<lambda>e. e = Out 0x20 0x20) h)"

section \<open>What the handlers do\<close>

lemma quiet_eoi: "quiet h \<Longrightarrow> eoi_count h = 0"
  by (auto simp: eoi_count_def quiet_def filter_empty_conv)

lemma eoi_count_append [simp]: "eoi_count (h @ h') = eoi_count h + eoi_count h'" "eoi_count [Out 0x20 0x20] = 1"
  by (simp_all add: eoi_count_def)

lemma io_frame_eoi: "io_frame s s' \<Longrightarrow> eoi_count (io s') = eoi_count (io s)"
  using io_frame_simps(9) [of s s'] quiet_eoi by auto

lemma pics_ready_eoi: "pics_ready h \<Longrightarrow> pics_ready (h @ [Out 0x20 0x20])"
  by (simp add: pics_ready_def PIC0_CTRL_def PIC0_DATA_def PIC1_CTRL_def PIC1_DATA_def pic_ctrl_def Let_def)

lemma timer_handler_run:
  "timer_handler pr f s = (if unat (TICKS s) + 1 < 2 ^ 64 \<or> pr = Release
     then Some (Done () (s\<lparr>TICKS := TICKS s + 1, io := io s @ [Out 0x20 0x20]\<rparr>)) else Some (Panicked ArithOverflow s))"
  by (cases pr) (simp_all add: timer_handler_def uadd_def overflow_def end_of_interrupt_run run_basic)

lemma keyboard_handler_run:
  fixes s :: kernel
  defines "scan \<equiv> dev s (io s) 0x60"
  assumes "screen_up s"
  shows "scan \<noteq> 0 \<Longrightarrow> \<exists>s1. keyboard_handler pr f s = Some (Done () (s1\<lparr>io := io s1 @ [Out 0x20 0x20]\<rparr>)) \<and> io_frame s s1 \<and> screen_up s1"
    and "scan = 0 \<Longrightarrow> keyboard_handler pr f s
      = Some (Panicked (PanicMsg ''Error Scancode 0x00'') (s\<lparr>io := io s @ [In 0x60 0]\<rparr>))"
proof -
  let ?s = "s\<lparr>io := io s @ [In 0x60 scan]\<rparr>"
  have inb: "inb 0x60 s = Some (Done scan ?s)" by (simp add: inb_run scan_def)
  have f: "io_frame s ?s" by (rule io_frame_in)
  have up: "screen_up ?s" using assms(2) by (simp add: screen_up_def)
  show "\<exists>s1. keyboard_handler pr f s = Some (Done () (s1\<lparr>io := io s1 @ [Out 0x20 0x20]\<rparr>)) \<and> io_frame s s1 \<and> screen_up s1"
    if nz: "scan \<noteq> 0"
  proof (cases "0x80 \<le> scan")
    case True
    then have "scancode_to_char pr scan = Inr None" using scancode_cases [of scan pr] nz by simp
    then show ?thesis
      using inb f up by (intro exI [of _ ?s]) (simp add: keyboard_handler_def bnd_run end_of_interrupt_run)
  next
    case False
    then obtain c where "scancode_to_char pr scan = Inr (Some c)" using scancode_cases [of scan pr] nz by auto
    moreover obtain s1 where "vga_print pr [[c]] ?s = Some (Done () s1)" "screen_up s1" "io_frame ?s s1"
      using vga_print_wp [OF screen_up_ok [OF up], of pr "[[c]]"] by (auto simp: wp_iff)
    ultimately show ?thesis
      using inb io_frame_trans [OF f] by (auto simp: keyboard_handler_def bnd_run andthen_run end_of_interrupt_run)
  qed
  show "keyboard_handler pr f s = Some (Panicked (PanicMsg ''Error Scancode 0x00'') (s\<lparr>io := io s @ [In 0x60 0]\<rparr>))"
    if "scan = 0"
    using inb that by (simp add: keyboard_handler_def bnd_run scancode_to_char_def run_basic)
qed

section \<open>From vectors to handlers\<close>

lemma booted_deliver:
  assumes "booted syms s" "vec < 256"
  shows "deliver pr syms ext vec err f s = (case vector_handler syms vec of
     Some a \<Rightarrow> run_handler pr syms a err f s
   | None \<Rightarrow> if escalates ext vec then run_handler pr syms (double_fault_addr syms) 0 f s
       else run_handler pr syms (segment_not_present_addr syms) (not_present_code ext vec) f s)"
proof -
  obtain t where t: "INTR_TABLE s = ready t"
      and g: "\<And>v. v < 256 \<Longrightarrow> gate_for (cs_reg s) (vector_handler syms v) (gate_at (idt_bytes t) v)"
    using assms(1) by (auto simp: booted_def)
  have "gate_present (gate_at (idt_bytes t) 11)" "gate_offset (gate_at (idt_bytes t) 11) = segment_not_present_addr syms"
      "gate_present (gate_at (idt_bytes t) 8)" "gate_offset (gate_at (idt_bytes t) 8) = double_fault_addr syms"
    using g [of 11] g [of 8] by (simp_all add: gate_for_def vector_handler_def)
  then show ?thesis
    using t g [OF assms(2)] by (auto simp: deliver_def gate_for_def Let_def split: option.splits)
qed

lemma linked_handlers:
  assumes "linked syms"
  shows "run_handler pr syms (timer_addr syms) err f = timer_handler pr f"
    "run_handler pr syms (keyboard_addr syms) err f = keyboard_handler pr f"
    "run_handler pr syms (breakpoint_addr syms) err f = breakpoint_handler pr f"
    "run_handler pr syms (page_fault_addr syms) err f = page_fault_handler pr f err"
    "run_handler pr syms (segment_not_present_addr syms) err f = segment_not_present_handler pr f err"
    "run_handler pr syms (double_fault_addr syms) err f = double_fault_handler pr f err"
  using assms by (auto simp: linked_def run_handler_def)

lemma booted_irq:
  assumes "booted syms s" "linked syms"
  shows "irq pr syms 0x20 f s = timer_handler pr f s" "irq pr syms 0x21 f s = keyboard_handler pr f s"
  using booted_deliver [OF assms(1), of "0x20"] booted_deliver [OF assms(1), of "0x21"] linked_handlers [OF assms(2)]
  by (simp_all add: irq_def vector_handler_def)

lemma booted_eoi:
  assumes "booted syms s" "io_frame s s1" "screen_up s1"
  shows "booted syms (s1\<lparr>io := io s1 @ [Out 0x20 0x20]\<rparr>)"
    "eoi_count (io (s1\<lparr>io := io s1 @ [Out 0x20 0x20]\<rparr>)) = eoi_count (io s) + 1"
proof -
  have "booted syms s1" by (rule booted_frame [OF assms])
  then show "booted syms (s1\<lparr>io := io s1 @ [Out 0x20 0x20]\<rparr>)"
    using pics_ready_eoi by (simp add: booted_def screen_up_def)
  show "eoi_count (io (s1\<lparr>io := io s1 @ [Out 0x20 0x20]\<rparr>)) = eoi_count (io s) + 1"
    using io_frame_eoi [OF assms(2)] by simp
qed

section \<open>Interrupts in service\<close>

text \<open>
  The controller's side again: the lines of the master whose interrupt it has delivered and not yet
  seen acknowledged. A non-specific end of interrupt takes off the line of highest priority (the
  lowest number); a line is delivered only when its priority is above all lines in service. The
  slave's interrupts come through line 2.
\<close>

fun in_service :: "io_event list \<Rightarrow> nat set \<Rightarrow> nat set" where
  "in_service [] L = L"
| "in_service (e # h) L = in_service h (if e = Out 0x20 0x20 then L - {Min L} else L)"

definition accepts :: "nat set \<Rightarrow> nat \<Rightarrow> bool" where
  "accepts L n \<longleftrightarrow> (\<forall>m \<in> L. n < m)"

definition line_of :: "nat \<Rightarrow> nat" where
  "line_of vec = (if vec < 0x28 then vec - 0x20 else 2)"

lemma in_service_append: "in_service (h @ h') L = in_service h' (in_service h L)"
  by (induction h L rule: in_service.induct) simp_all

lemma in_service_quiet: "quiet h \<Longrightarrow> in_service h L = L"
  by (induction h L rule: in_service.induct) (auto simp: quiet_def)

lemma in_service_eoi:
  assumes "accepts L n" "finite L"
  shows "in_service [Out 0x20 0x20] (insert n L) = L"
proof -
  have "Min (insert n L) = n" using assms by (intro Min_eqI) (auto simp: accepts_def)
  then show ?thesis using assms(1) by (auto simp: accepts_def)
qed

section \<open>Exceptions\<close>

text \<open>What the kernel prints for an exception.\<close>

definition report :: "nat \<Rightarrow> u32 \<Rightarrow> ExceptionStackFrame \<Rightarrow> string list" where
  "report vec err f =
     (if vec = 3 then [''BREAKPOINT: '', frame_debug f]
      else if vec = 8 then [''DOUBLE FAULT '', frame_debug f]
      else if vec = 14 then [''PAGE FAULT#'', show_dec err, '' '', frame_debug f]
      else [''SEGMENT NOT PRESENT '', show_dec err, '' '', frame_debug f])"

lemma booted_println:
  assumes "booted syms s"
  shows "\<exists>s'. println pr args s = Some (Done () s') \<and> booted syms s' \<and> io_frame s s'"
  using println_wp [OF screen_up_ok, of s pr args] assms booted_frame [OF assms] by (auto simp: wp_iff booted_def)

text \<open>
  Which report a vector leads to: its own, or that of segment not present. An exception whose
  escalation finds no gate of its own is a double fault.
\<close>

definition reported :: "bool \<Rightarrow> nat \<Rightarrow> u32 \<Rightarrow> ExceptionStackFrame \<Rightarrow> string list" where
  "reported ext vec err f = (if vec \<in> {3, 11, 14} then report vec err f else report 11 (not_present_code ext vec) f)"

definition double_faults :: "bool \<Rightarrow> nat \<Rightarrow> bool" where
  "double_faults ext vec \<longleftrightarrow> vec = 8 \<or> \<not> ext \<and> vec \<in> {0, 10, 12, 13, 20, 21}"

lemma deliver_reports:
  assumes "booted syms s" "linked syms" "vec < 256" "vec \<notin> {0x20, 0x21}" "\<not> double_faults ext vec"
  shows "deliver pr syms ext vec err f s = println pr (reported ext vec err f) s"
  using booted_deliver [OF assms(1,3), of pr ext err f] linked_handlers [OF assms(2), of pr] assms(4,5)
  by (auto simp: vector_handler_def reported_def report_def breakpoint_handler_def page_fault_handler_def
      segment_not_present_handler_def escalates_def double_faults_def)

lemma deliver_double_fault:
  assumes "booted syms s" "linked syms" "double_faults ext vec"
  shows "\<exists>s'. println pr (report 8 err f) s = Some (Done () s')
    \<and> deliver pr syms ext vec err f s = Some (Panicked (PanicMsg ''explicit panic'') s')"
proof -
  obtain s' where "println pr (report 8 err f) s = Some (Done () s')" using booted_println [OF assms(1)] by blast
  moreover have "\<exists>e. deliver pr syms ext vec err f s = double_fault_handler pr f e s"
    using booted_deliver [OF assms(1), of vec pr ext err f] linked_handlers(6) [OF assms(2), of pr] assms(3)
    by (auto simp: vector_handler_def escalates_def double_faults_def)
  ultimately show ?thesis by (auto simp: double_fault_handler_def report_def andthen_run run_basic)
qed

text \<open>
  C25: Exceptions in the booted kernel. A breakpoint, a page fault and a segment that is not present
  are printed with their error code and frame, and the handler returns; so is every vector without
  a handler, as segment not present with the vector in the error code, unless it is a contributory
  exception such as a general protection fault. Nothing but the screen changes, and no interrupt is
  acknowledged. A double fault is printed and panics, and so do the contributory exceptions without
  a handler, which the processor turns into one.
\<close>

theorem exceptions_reported:
  assumes "booted syms s" and "linked syms" and "vec < 256" and "vec \<notin> {0x20, 0x21}"
  shows "if vec = 8 \<or> \<not> ext \<and> vec \<in> {0, 10, 12, 13, 20, 21}
     then \<exists>s'. println pr (report 8 err f) s = Some (Done () s')
       \<and> deliver pr syms ext vec err f s = Some (Panicked (PanicMsg ''explicit panic'') s')
     else \<exists>s'. println pr (if vec \<in> {3, 11, 14} then report vec err f else report 11 (not_present_code ext vec) f) s
         = Some (Done () s')
       \<and> deliver pr syms ext vec err f s = Some (Done () s') \<and> booted syms s' \<and> io_frame s s'
       \<and> eoi_count (io s') = eoi_count (io s)"
proof (cases "double_faults ext vec")
  case True
  then show ?thesis using deliver_double_fault [OF assms(1,2) True] by (simp add: double_faults_def)
next
  case False
  obtain s' where "println pr (reported ext vec err f) s = Some (Done () s')" "booted syms s'" "io_frame s s'"
    using booted_println [OF assms(1)] by blast
  then show ?thesis
    using False deliver_reports [OF assms, of ext pr err f] io_frame_eoi by (auto simp: reported_def double_faults_def)
qed

lemma sample_linked: "linked sample_symbols"
  by (simp add: linked_def sample_symbols_def)

definition sample_frame :: ExceptionStackFrame where
  "sample_frame = \<lparr>instruction_pointer = 0xc0020010, code_segment = 8, cpu_flags = 0x202, stack_pointer = 0xc000eff0, stack_segment = 16\<rparr>"

theorem exceptions_reported_witness:
  "\<exists>s s' d. boot Debug sample_symbols sample_boot = Some (Done () s)
    \<and> deliver Debug sample_symbols True 0x24 0 sample_frame s = Some (Done () s') \<and> eoi_count (io s') = eoi_count (io s)
    \<and> deliver Debug sample_symbols False 13 0 sample_frame s = Some (Panicked (PanicMsg ''explicit panic'') d)"
proof -
  obtain s where s: "boot Debug sample_symbols sample_boot = Some (Done () s)" "booted sample_symbols s"
    using boot_run [OF sample_boot_ready, of Debug sample_symbols] by blast
  then show ?thesis
    using exceptions_reported [OF s(2) sample_linked, of "0x24" True Debug 0 sample_frame]
      exceptions_reported [OF s(2) sample_linked, of 13 False Debug 0 sample_frame] by auto
qed

end
