(* ===== verification/RondPrint.thy ===== *)
theory RondPrint
  imports RondIrq
begin

text \<open>
  Printing under interrupts. \<open>_vga_print\<close> writes byte by byte through the state it keeps in its
  static, and the handlers of device interrupts and exceptions print through the same static. Here a
  print runs one byte at a time, with interrupts and exceptions between any two bytes.

  \<open>_vga_print\<close> takes the exclusive reference to the data once and keeps it for the whole text. That every byte
  finds the column where the one before, of the text or of a handler, has left it is therefore an assumption on the compiled code: it does not keep
  the column in a register from one byte to the next. Without interruptions the two are the same
  (\<open>print_bytewise\<close>).
\<close>

section \<open>A print is its bytes\<close>

text \<open>The body of the loop of \<open>write_bytes\<close> on the data the static has at that moment.\<close>

definition put_byte :: "profile \<Rightarrow> u8 \<Rightarrow> (unit, kernel) comp" where
  "put_byte pr b = get_mut vga_static vga_default (\<lambda>v. bnd (putc pr b v) (\<lambda>v'. ret ((), v')))"

text \<open>The driver does not look at the static: its data is the driver's argument.\<close>

definition blind :: "('a, kernel) comp \<Rightarrow> bool" where
  "blind c \<longleftrightarrow> (\<forall>s V. c (s\<lparr>VGA_BUFFER := V\<rparr>) = map_option (map_outcome id (\<lambda>s. s\<lparr>VGA_BUFFER := V\<rparr>)) (c s))"

named_theorems blind_intros \<open>computations that do not look at the static of the screen\<close>

lemma blind_basic [blind_intros]:
  "blind (ret a)" "blind (panicking p)" "blind (lift r)"
  "(\<And>s V. f (s\<lparr>VGA_BUFFER := V\<rparr>) = (f s)\<lparr>VGA_BUFFER := V\<rparr>) \<Longrightarrow> blind (modify f)"
  by (cases r; simp add: blind_def run_basic)+

lemma blind_bnd [blind_intros]: "blind c \<Longrightarrow> (\<And>a. blind (k a)) \<Longrightarrow> blind (bnd c k)"
  by (auto simp: blind_def bnd_def split: outcome.splits Option.bind_splits)

lemma blind_andthen [blind_intros]: "blind c \<Longrightarrow> blind d \<Longrightarrow> blind (andthen c d)"
  by (simp add: andthen_def blind_bnd)

lemma blind_if [blind_intros]: "(b \<Longrightarrow> blind c) \<Longrightarrow> (\<not> b \<Longrightarrow> blind d) \<Longrightarrow> blind (if b then c else d)"
  by simp

lemma blind_for [blind_intros]: "(\<And>i. blind (body i)) \<Longrightarrow> blind (for_range a b body)"
proof -
  assume b: "\<And>i. blind (body i)"
  have "blind (for_count body n i)" for n i by (induction n arbitrary: i) (simp_all add: b blind_intros)
  then show ?thesis by (simp add: for_range_def)
qed

lemma blind_fold_each [blind_intros]: "(\<And>x v. blind (body x v)) \<Longrightarrow> blind (fold_each body xs v)"
  by (induction xs arbitrary: v) (simp_all add: blind_intros)

lemma blind_memory [blind_intros]: "blind (modify (\<lambda>s. s\<lparr>ram := f (ram s)\<rparr>))" "blind (modify (\<lambda>s. s\<lparr>io := g (io s)\<rparr>))"
  by (simp_all add: blind_def run_basic)

lemma blind_driver [blind_intros]:
  "blind (outb p d)" "blind (write_cell r c v)" "blind (copy_within q sz len a e t)" "blind (update_cursor pr h w)"
proof -
  show o: "blind (outb p d)" for p d
    unfolding outb_def by (rule blind_memory(2) [of "\<lambda>h. h @ [Out p d]"])
  show "blind (update_cursor pr h w)"
    unfolding update_cursor_def by (intro blind_intros o)
  show "blind (write_cell r c v)"
    unfolding write_cell_def chars_index_def voliate_write_def
    by (intro blind_intros blind_memory(1) [of "\<lambda>r. r(a := x, b := y)" for a x b y])
  have "blind (modify (move_bytes x y n))" for x y n
    unfolding move_bytes_def by (rule blind_memory(1) [of "\<lambda>r a. if a - x < n then r (a - x + y) else r a"])
  then show "blind (copy_within q sz len a e t)"
    by (simp add: copy_within_def blind_basic(2))
qed

lemma blind_putc: "blind (putc pr c v)"
proof -
  have [blind_intros]: "blind (new_line pr v)"
    unfolding new_line_def clear_row_def Let_def by (intro blind_intros)
  show ?thesis unfolding putc_def Let_def by (intro blind_intros)
qed

lemma blind_write_bytes: "blind (vga_write_bytes pr bs v)"
  unfolding vga_write_bytes_def by (intro blind_intros blind_putc)

lemma vga_print_bytes:
  "vga_print pr args = get_mut vga_static vga_default
     (\<lambda>v. bnd (vga_write_bytes pr (concat (map bytes_of args)) v) (\<lambda>v'. ret ((), v')))"
  by (simp add: vga_print_def vga.print_is_put)

text \<open>Writing through the initialised static.\<close>

lemma write_through:
  assumes "VGA_BUFFER s = ready v" "vga_inv v"
  shows "\<exists>v' s1. vga_write_bytes pr bs v s = Some (Done v' s1) \<and> vga_frame s s1 \<and> vga_inv v' \<and> cur_color v' = cur_color v
    \<and> terminal_of v' s1 = t_puts (cur_color v) bs (terminal_of v s)
    \<and> get_mut vga_static vga_default (\<lambda>v. bnd (vga_write_bytes pr bs v) (\<lambda>v'. ret ((), v'))) s
      = Some (Done () (s1\<lparr>VGA_BUFFER := ready v'\<rparr>))"
proof -
  obtain v' s1 where w: "vga_write_bytes pr bs v s = Some (Done v' s1)" "vga_frame s s1" "vga_inv v'" "cur_color v' = cur_color v"
      "terminal_of v' s1 = t_puts (cur_color v) bs (terminal_of v s)"
    using vga_write_bytes_wp [OF assms(2), of pr bs s] by (auto simp: wp_iff)
  have "bnd (vga_write_bytes pr bs v) (\<lambda>v'. ret ((), v')) s = Some (Done ((), v') s1)" using w(1) by (simp add: bnd_run run_basic)
  then have "get_mut vga_static vga_default (\<lambda>v. bnd (vga_write_bytes pr bs v) (\<lambda>v'. ret ((), v'))) s
      = Some (Done () (VGA_BUFFER_update (data_update (\<lambda>_. Some v')) s1))"
    using assms(1) by (intro vga_cell.get_mut_done [of v]) (simp_all add: vga_cell.live_def)
  moreover have "VGA_BUFFER_update (data_update (\<lambda>_. Some v')) s1 = s1\<lparr>VGA_BUFFER := ready v'\<rparr>"
    by (rule vga_cell.upd_local) (simp add: vga_frame_kernel(1) [OF w(2)] assms(1))
  ultimately show ?thesis using w by metis
qed

lemma put_byte_write: "put_byte pr b = get_mut vga_static vga_default (\<lambda>v. bnd (vga_write_bytes pr [b] v) (\<lambda>v'. ret ((), v')))"
  by (simp add: put_byte_def vga_write_bytes_def)

lemma write_bytewise:
  assumes "VGA_BUFFER s = ready v" "vga_inv v"
  shows "get_mut vga_static vga_default (\<lambda>v. bnd (vga_write_bytes pr bs v) (\<lambda>v'. ret ((), v'))) s
    = fold_each (\<lambda>b _. put_byte pr b) bs () s"
  using assms
proof (induction bs arbitrary: s v)
  case Nil
  have "s\<lparr>VGA_BUFFER := ready v\<rparr> = s" by (rule vga_cell.upd_same) (simp add: Nil(1))
  then show ?case
    using write_through [OF Nil, of pr "[]"] by (auto simp: vga_write_bytes_def ret_def [of v] ret_def [of "()"])
next
  case (Cons b bs)
  obtain v1 s1 where b: "vga_write_bytes pr [b] v s = Some (Done v1 s1)" "vga_frame s s1" "vga_inv v1"
      "put_byte pr b s = Some (Done () (s1\<lparr>VGA_BUFFER := ready v1\<rparr>))"
    using write_through [OF Cons.prems, of pr "[b]"] unfolding put_byte_write by metis
  let ?s = "s1\<lparr>VGA_BUFFER := ready v1\<rparr>"
  obtain v2 s2 where r: "vga_write_bytes pr bs v1 ?s = Some (Done v2 s2)"
      "get_mut vga_static vga_default (\<lambda>v. bnd (vga_write_bytes pr bs v) (\<lambda>v'. ret ((), v'))) ?s
        = Some (Done () (s2\<lparr>VGA_BUFFER := ready v2\<rparr>))"
    using write_through [of ?s v1 pr bs] b(3) by auto
  obtain v' s' where w: "vga_write_bytes pr (b # bs) v s = Some (Done v' s')"
      "get_mut vga_static vga_default (\<lambda>v. bnd (vga_write_bytes pr (b # bs) v) (\<lambda>v'. ret ((), v'))) s
        = Some (Done () (s'\<lparr>VGA_BUFFER := ready v'\<rparr>))"
    using write_through [OF Cons.prems, of pr "b # bs"] by auto
  have "vga_write_bytes pr bs v1 s1 = Some (Done v' s')"
    using w(1) b(1) by (simp add: vga_write_bytes_def bnd_run)
  then have "v2 = v'" "s2 = s'\<lparr>VGA_BUFFER := ready v1\<rparr>"
    using r(1) blind_write_bytes [of pr bs v1] by (auto simp: blind_def)
  then show ?case
    using w(2) r(2) Cons.IH [of ?s v1] b(3,4) by (simp add: bnd_run)
qed

lemma print_bytewise:
  assumes "screen_up s"
  shows "vga_print pr args s = fold_each (\<lambda>b _. put_byte pr b) (concat (map bytes_of args)) () s"
proof -
  obtain v where v: "VGA_BUFFER s = ready v" "vga_inv v" using assms by (auto simp: screen_up_def)
  show ?thesis unfolding vga_print_bytes by (rule write_bytewise [OF v])
qed

text \<open>The bytes of a line.\<close>

definition line_bytes :: "string list \<Rightarrow> u8 list" where
  "line_bytes args = concat (map bytes_of (args @ [[CHR 0x0A]]))"

lemma println_bytewise: "screen_up s \<Longrightarrow> println pr args s = fold_each (\<lambda>b _. put_byte pr b) (line_bytes args) () s"
  by (simp only: println_def line_bytes_def print_bytewise)

section \<open>What handlers print\<close>

definition screen_attr :: "kernel \<Rightarrow> ColorCode" where
  "screen_attr s = cur_color (the (data (VGA_BUFFER s)))"

definition screen_state :: "kernel \<Rightarrow> terminal" where
  "screen_state s = terminal_of (the (data (VGA_BUFFER s))) s"

text \<open>What the handler of a vector puts on the screen: the keyboard's the character, an exception's its report.\<close>

definition echo :: "profile \<Rightarrow> bool \<Rightarrow> nat \<Rightarrow> u32 \<Rightarrow> ExceptionStackFrame \<Rightarrow> kernel \<Rightarrow> u8 list" where
  "echo pr ext vec err f s =
     (if vec = 0x20 then []
      else if vec = 0x21 then
        (case scancode_to_char pr (dev s (io s) 0x60) of Inr (Some c) \<Rightarrow> bytes_of [c] | _ \<Rightarrow> [])
      else concat (map bytes_of (reported ext vec err f @ [[CHR 0x0A]])))"

text \<open>A step from \<open>s\<close> to \<open>s'\<close> writes \<open>bs\<close> on the screen of a kernel that stays as it was set up.\<close>

definition writes :: "symbols \<Rightarrow> kernel \<Rightarrow> u8 list \<Rightarrow> kernel \<Rightarrow> bool" where
  "writes syms s bs s' \<longleftrightarrow> booted syms s' \<and> screen_attr s' = screen_attr s
     \<and> screen_state s' = t_puts (screen_attr s) bs (screen_state s)"

lemma screen_cong: "ram s' = ram s \<Longrightarrow> screen s' = screen s"
  by (simp add: screen_def vram_def [abs_def])

lemma booted_eoi_only:
  assumes "booted syms s" "writes syms s bs s1"
  shows "writes syms s bs (s1\<lparr>io := io s1 @ [Out 0x20 0x20]\<rparr>)"
  using assms pics_ready_eoi screen_cong [of "s1\<lparr>io := io s1 @ [Out 0x20 0x20]\<rparr>" s1]
  by (simp add: writes_def booted_def screen_up_def screen_attr_def screen_state_def terminal_of_def)

lemma write_writes:
  assumes "booted syms s"
  shows "\<exists>s'. get_mut vga_static vga_default (\<lambda>v. bnd (vga_write_bytes pr bs v) (\<lambda>v'. ret ((), v'))) s = Some (Done () s')
    \<and> writes syms s bs s' \<and> io_frame s s'"
proof -
  obtain v where v: "VGA_BUFFER s = ready v" "vga_inv v" using assms by (auto simp: booted_def screen_up_def)
  obtain v' s1 where w: "vga_frame s s1" "vga_inv v'" "cur_color v' = cur_color v"
      "terminal_of v' s1 = t_puts (cur_color v) bs (terminal_of v s)"
      "get_mut vga_static vga_default (\<lambda>v. bnd (vga_write_bytes pr bs v) (\<lambda>v'. ret ((), v'))) s
        = Some (Done () (s1\<lparr>VGA_BUFFER := ready v'\<rparr>))"
    using write_through [OF v, of pr bs] by blast
  have "booted syms (s1\<lparr>VGA_BUFFER := ready v'\<rparr>)"
    by (rule booted_frame [OF assms vga_frame_io_frame [OF w(1)]]) (simp add: screen_up_def w(2))
  then show ?thesis
    using w(3-5) vga_frame_io_frame [OF w(1)] v(1) screen_cong [of "s1\<lparr>VGA_BUFFER := ready v'\<rparr>" s1]
    by (intro exI [of _ "s1\<lparr>VGA_BUFFER := ready v'\<rparr>"]) (simp add: writes_def screen_attr_def screen_state_def terminal_of_def)
qed

lemma put_byte_writes:
  assumes "booted syms s"
  shows "\<exists>s'. put_byte pr b s = Some (Done () s') \<and> writes syms s [b] s' \<and> io_frame s s'"
  unfolding put_byte_write by (rule write_writes [OF assms])

lemma print_writes:
  assumes "booted syms s" "vga_print pr args s = Some (Done () s')"
  shows "writes syms s (concat (map bytes_of args)) s'"
  using write_writes [OF assms(1), of pr "concat (map bytes_of args)"] assms(2) unfolding vga_print_bytes by auto

lemma keyboard_writes:
  assumes "booted syms s" "keyboard_handler pr f s = Some (Done () s')"
  shows "writes syms s (echo pr ext 0x21 err f s) s'"
proof -
  let ?s = "s\<lparr>io := io s @ [In 0x60 (dev s (io s) 0x60)]\<rparr>"
  have up: "booted syms ?s" "screen_attr ?s = screen_attr s" "screen_state ?s = screen_state s"
    using assms(1) booted_frame [OF assms(1) io_frame_in] screen_cong [of ?s s]
    by (simp_all add: booted_def screen_up_def screen_attr_def screen_state_def terminal_of_def)
  consider p where "scancode_to_char pr (dev s (io s) 0x60) = Inl p" | "scancode_to_char pr (dev s (io s) 0x60) = Inr None"
    | c where "scancode_to_char pr (dev s (io s) 0x60) = Inr (Some c)"
    by (metis option.exhaust sum.exhaust)
  then show ?thesis
  proof cases
    case 1
    then show ?thesis using assms(2) by (simp add: keyboard_handler_def inb_run bnd_run run_basic)
  next
    case 2
    then have "s' = ?s\<lparr>io := io ?s @ [Out 0x20 0x20]\<rparr>"
      using assms(2) by (simp add: keyboard_handler_def inb_run bnd_run andthen_run end_of_interrupt_run run_basic)
    then show ?thesis using booted_eoi_only [OF assms(1), of "[]" ?s] up 2 by (simp add: echo_def writes_def)
  next
    case 3
    then obtain s1 where s1: "vga_print pr [[c]] ?s = Some (Done () s1)" "s' = s1\<lparr>io := io s1 @ [Out 0x20 0x20]\<rparr>"
      using assms(2) print_writes [OF up(1)] write_writes [OF up(1), of pr "bytes_of [c]"]
      by (auto simp: keyboard_handler_def inb_run bnd_run andthen_run end_of_interrupt_run run_basic vga_print_bytes)
    then have "writes syms s (bytes_of [c]) s1" using print_writes [OF up(1) s1(1)] up by (simp add: writes_def)
    then show ?thesis using booted_eoi_only [OF assms(1)] s1(2) 3 by (simp add: echo_def)
  qed
qed

lemma deliver_writes:
  assumes "booted syms s" "linked syms" "vec < 256" "deliver pr syms ext vec err f s = Some (Done () s')"
  shows "writes syms s (echo pr ext vec err f s) s'"
proof -
  consider "vec = 0x20" | "vec = 0x21" | "vec \<notin> {0x20, 0x21}" by auto
  then show ?thesis
  proof cases
    case 1
    then have "deliver pr syms ext vec err f s = timer_handler pr f s"
      using booted_deliver [OF assms(1,3)] linked_handlers [OF assms(2)] by (simp add: vector_handler_def)
    then have "s' = s\<lparr>TICKS := TICKS s + 1, io := io s @ [Out 0x20 0x20]\<rparr>"
      using assms(4) by (simp add: timer_handler_run split: if_splits)
    then show ?thesis
      using 1 assms(1) pics_ready_eoi screen_cong [of s' s]
      by (simp add: echo_def writes_def booted_def screen_up_def screen_attr_def screen_state_def terminal_of_def)
  next
    case 2
    then have "deliver pr syms ext vec err f s = keyboard_handler pr f s"
      using booted_deliver [OF assms(1,3)] linked_handlers [OF assms(2)] by (simp add: vector_handler_def)
    then show ?thesis using keyboard_writes [OF assms(1)] assms(4) 2 by simp
  next
    case 3
    have "\<not> double_faults ext vec" using deliver_double_fault [OF assms(1,2), of ext vec pr err f] assms(4) by auto
    then have "vga_print pr (reported ext vec err f @ [[CHR 0x0A]]) s = Some (Done () s')"
      using deliver_reports [OF assms(1-3) 3] assms(4) by (simp add: println_def)
    from print_writes [OF assms(1) this] show ?thesis using 3 by (simp add: echo_def)
  qed
qed

section \<open>A print with interruptions\<close>

text \<open>
  The state of an interrupted print: the kernel, the bytes still to be written, everything written
  to the screen since the print began, and the part of that the handlers wrote.
\<close>

record printing =
  pst :: kernel
  rest :: "u8 list"
  written :: "u8 list"
  said :: "u8 list"

definition vectors :: "bool \<Rightarrow> nat \<Rightarrow> bool" where
  "vectors ext vec \<longleftrightarrow> (if ext then 0x20 \<le> vec \<and> vec < 0x30 else vec < 0x20)"

inductive print_step :: "profile \<Rightarrow> symbols \<Rightarrow> printing \<Rightarrow> printing \<Rightarrow> bool"
  for pr :: profile and syms :: symbols where
  byte: "rest p = b # bs \<Longrightarrow> put_byte pr b (pst p) = Some (Done () s') \<Longrightarrow>
    print_step pr syms p (p\<lparr>pst := s', rest := bs, written := written p @ [b]\<rparr>)"
| handler: "vectors ext vec \<Longrightarrow> (ext \<longrightarrow> intr_flag (pst p)) \<Longrightarrow> deliver pr syms ext vec err f (pst p) = Some (Done () s') \<Longrightarrow>
    print_step pr syms p (p\<lparr>pst := s', written := written p @ echo pr ext vec err f (pst p),
      said := said p @ echo pr ext vec err f (pst p)\<rparr>)"

definition print_init :: "kernel \<Rightarrow> u8 list \<Rightarrow> printing \<Rightarrow> bool" where
  "print_init s bs p \<longleftrightarrow> p = \<lparr>pst = s, rest = bs, written = [], said = []\<rparr>"

definition print_inv :: "symbols \<Rightarrow> kernel \<Rightarrow> u8 list \<Rightarrow> printing \<Rightarrow> bool" where
  "print_inv syms s bs p \<longleftrightarrow> linked syms \<and> writes syms s (written p) (pst p)
     \<and> (\<exists>sofar. bs = sofar @ rest p \<and> written p \<in> shuffles sofar (said p))"

lemma writes_trans: "writes syms s bs s1 \<Longrightarrow> writes syms s1 cs s2 \<Longrightarrow> writes syms s (bs @ cs) s2"
  by (simp add: writes_def t_puts_def)

lemma print_inv_step:
  assumes "print_inv syms s bs p" "print_step pr syms p p'"
  shows "print_inv syms s bs p'"
proof -
  obtain sofar where inv: "linked syms" "writes syms s (written p) (pst p)" "bs = sofar @ rest p" "written p \<in> shuffles sofar (said p)"
    using assms(1) by (auto simp: print_inv_def)
  have b: "booted syms (pst p)" using inv(2) by (simp add: writes_def)
  show ?thesis
    using assms(2)
  proof cases
    case (byte c cs s')
    have "writes syms (pst p) [c] s'" using put_byte_writes [OF b, of pr c] byte(3) by auto
    moreover have "written p @ [c] \<in> shuffles (sofar @ [c]) (said p)"
      using shuffles_append [OF inv(4), of "[c]" "[c]" "[]"] by simp
    ultimately show ?thesis
      using writes_trans [OF inv(2)] inv(1,3) byte(1,2) by (auto simp: print_inv_def)
  next
    case (handler ext vec err f s')
    let ?o = "echo pr ext vec err f (pst p)"
    have "vec < 256" using handler(2) by (simp add: vectors_def split: if_splits)
    then have "writes syms (pst p) ?o s'" using deliver_writes [OF b inv(1)] handler(4) by blast
    moreover have "written p @ ?o \<in> shuffles sofar (said p @ ?o)"
      using shuffles_append [OF inv(4), of ?o "[]" ?o] by simp
    ultimately show ?thesis
      using writes_trans [OF inv(2)] inv(1,3) by (auto simp: print_inv_def handler(1))
  qed
qed

interpretation prints: invariant_system
  "\<lambda>p. linked syms \<and> booted syms s \<and> print_init s bs p" "print_step pr syms" "print_inv syms s bs" for pr syms s bs
proof
  show "print_inv syms s bs p" if "linked syms \<and> booted syms s \<and> print_init s bs p" for p
    using that by (simp add: print_inv_def print_init_def writes_def)
  show "print_inv syms s bs p'" if "print_inv syms s bs p" "print_step pr syms p p'" for p p'
    using that by (rule print_inv_step)
qed

text \<open>
  Printing is interruptible. \<open>print!\<close> writes its text byte by byte through the static. Let
  device interrupts and exceptions occur between the bytes. At every moment the screen shows what the
  terminal specification makes of all bytes written since the print began; these bytes are an
  interleaving of the part of the text already printed and of what the handlers wrote, so that
  neither loses, repeats or reorders a byte; and the next byte of the text can be written.
\<close>

theorem print_interruptible:
  assumes "booted syms s" and "linked syms" and "reach (print_init s bs) (print_step pr syms) p"
    and "bs = concat (map bytes_of args)"
  shows "vga_print pr args s = fold_each (\<lambda>b _. put_byte pr b) bs () s
    \<and> screen_state (pst p) = t_puts (screen_attr s) (written p) (screen_state s) \<and> booted syms (pst p)
    \<and> (\<exists>sofar. bs = sofar @ rest p \<and> written p \<in> shuffles sofar (said p))
    \<and> (rest p \<noteq> [] \<longrightarrow> (\<exists>p'. print_step pr syms p p' \<and> rest p' = tl (rest p) \<and> said p' = said p))"
proof -
  have "(\<lambda>p. linked syms \<and> booted syms s \<and> print_init s bs p) = print_init s bs" using assms(1,2) by simp
  then have inv: "print_inv syms s bs p" using prints.reach_inv [of syms s bs pr p] assms(3) by simp
  then have b: "booted syms (pst p)" by (simp add: print_inv_def writes_def)
  have "\<exists>p'. print_step pr syms p p' \<and> rest p' = cs \<and> said p' = said p" if "rest p = c # cs" for c cs
  proof -
    obtain s' where "put_byte pr c (pst p) = Some (Done () s')"
      using put_byte_writes [OF b, of pr c] by blast
    from print_step.byte [OF that this] show ?thesis by (intro exI) (rule conjI, assumption, simp)
  qed
  then have "rest p \<noteq> [] \<longrightarrow> (\<exists>p'. print_step pr syms p p' \<and> rest p' = tl (rest p) \<and> said p' = said p)"
    by (cases "rest p") auto
  moreover have "vga_print pr args s = fold_each (\<lambda>b _. put_byte pr b) bs () s"
    unfolding assms(4) by (rule print_bytewise) (use assms(1) in \<open>simp add: booted_def\<close>)
  ultimately show ?thesis using inv b by (simp add: print_inv_def writes_def)
qed

theorem print_interruptible_witness:
  "\<exists>s p. boot Debug sample_symbols sample_boot = Some (Done () s) \<and> reach (print_init s [0x41, 0x42]) (print_step Debug sample_symbols) p
    \<and> rest p = [0x42] \<and> written p = 0x41 # said p \<and> said p \<noteq> []
    \<and> screen_state (pst p) = t_puts (screen_attr s) (0x41 # said p) (screen_state s)"
proof -
  obtain s where s: "boot Debug sample_symbols sample_boot = Some (Done () s)" "booted sample_symbols s"
    using boot_run [OF sample_boot_ready, of Debug sample_symbols] by blast
  let ?p = "\<lparr>pst = s, rest = [0x41, 0x42], written = [], said = []\<rparr>"
  have p0: "reach (print_init s [0x41, 0x42]) (print_step Debug sample_symbols) ?p" by (rule reach_init) (simp add: print_init_def)
  obtain s1 where s1: "put_byte Debug 0x41 s = Some (Done () s1)" "booted sample_symbols s1"
    using put_byte_writes [OF s(2), of Debug "0x41"] unfolding writes_def by blast
  let ?q = "\<lparr>pst = s1, rest = [0x42], written = [0x41], said = []\<rparr>"
  have p1: "reach (print_init s [0x41, 0x42]) (print_step Debug sample_symbols) ?q"
    using reach_step [OF p0 print_step.byte [of ?p "0x41" "[0x42]" Debug s1]] s1(1) by simp
  obtain s2 where s2: "deliver Debug sample_symbols False 3 0 sample_frame s1 = Some (Done () s2)"
    using deliver_reports [OF s1(2) sample_linked, of 3 False Debug 0 sample_frame] booted_println [OF s1(2)] by (auto simp: double_faults_def)
  let ?o = "echo Debug False 3 0 sample_frame s1"
  let ?r = "\<lparr>pst = s2, rest = [0x42], written = 0x41 # ?o, said = ?o\<rparr>"
  have p2: "reach (print_init s [0x41, 0x42]) (print_step Debug sample_symbols) ?r"
  proof (rule reach_step [OF p1])
    have "deliver Debug sample_symbols False 3 0 sample_frame (pst ?q) = Some (Done () s2)" using s2 by simp
    from print_step.handler [OF _ _ this] show "print_step Debug sample_symbols ?q ?r" by (simp add: vectors_def)
  qed
  have "?o \<noteq> []" by (simp add: echo_def bytes_of_def)
  moreover have "screen_state (pst ?r) = t_puts (screen_attr s) (written ?r) (screen_state s)"
    by (rule conjunct1 [OF conjunct2 [OF print_interruptible [OF s(2) sample_linked p2, of "[''AB'']"]]]) (simp add: bytes_of_def)
  ultimately show ?thesis
    by (intro exI [of _ s] exI [of _ ?r] conjI s(1) p2) (simp_all only: printing.simps simp_thms)
qed

end
