(* ===== verification/RondRun.thy ===== *)
theory RondRun
  imports RondPrint
begin

text \<open>
  The kernel from the moment interrupts are enabled. The rest of the entry point runs statement by
  statement, and a statement that prints byte by byte; between any two of these steps, and for ever
  in the halt loop, devices interrupt and exceptions occur. In the halt loop, code that uses the
  heap may run as well.
\<close>

section \<open>The entry point, statement by statement\<close>

text \<open>Where \<open>main\<close> is after \<open>sti\<close>; \<open>Mapping\<close> carries the entries still to be printed.\<close>

datatype boot_pc = Start | Mapping "MemLayout list" | Boxing | Showing usize | Halted

text \<open>One statement: what it prints, if anything, and where it leads.\<close>

fun boot_next :: "profile \<Rightarrow> boot_pc \<Rightarrow> (string list option \<times> boot_pc, kernel) comp" where
  "boot_next pr Start = bnd get_memlayout (\<lambda>mems. ret (None, Mapping mems))"
| "boot_next pr (Mapping (m # ms)) = bnd (layout_debug m) (\<lambda>d. ret (Some [d], Mapping ms))"
| "boot_next pr (Mapping []) = bnd esp (\<lambda>e. ret (Some [''esp page: '', show_hex (pg_round_down e)], Boxing))"
| "boot_next pr Boxing = bnd (box_new_i32 pr 42) (\<lambda>p. ret (None, Showing p))"
| "boot_next pr (Showing p) = ret (Some [show_dec (42 :: u32), '' at '', show_ptr p], Halted)"
| "boot_next pr Halted = ret (None, Halted)"

definition print_line :: "profile \<Rightarrow> string list option \<Rightarrow> (unit, kernel) comp" where
  "print_line pr l = (case l of None \<Rightarrow> ret () | Some args \<Rightarrow> println pr args)"

definition pending :: "string list option \<Rightarrow> u8 list" where
  "pending l = (case l of None \<Rightarrow> [] | Some args \<Rightarrow> line_bytes args)"

lemma print_line_bytewise: "screen_up s \<Longrightarrow> print_line pr l s = fold_each (\<lambda>b _. put_byte pr b) (pending l) () s"
  by (cases l) (simp_all add: print_line_def pending_def println_bytewise)

text \<open>What is left of the entry point at each place.\<close>

fun boot_from :: "profile \<Rightarrow> boot_pc \<Rightarrow> (unit, kernel) comp" where
  "boot_from pr Start = boot_rest pr"
| "boot_from pr (Mapping ms) =
     andthen (print_map pr ms)
    (bnd esp (\<lambda>e.
     andthen (println pr [''esp page: '', show_hex (pg_round_down e)])
    (bnd (box_new_i32 pr 42) (\<lambda>p.
     println pr [show_dec (42 :: u32), '' at '', show_ptr p]))))"
| "boot_from pr Boxing = bnd (box_new_i32 pr 42) (\<lambda>p. println pr [show_dec (42 :: u32), '' at '', show_ptr p])"
| "boot_from pr (Showing p) = println pr [show_dec (42 :: u32), '' at '', show_ptr p]"
| "boot_from pr Halted = ret ()"

lemma print_map_Cons:
  "print_map pr (m # ms) = bnd (layout_debug m) (\<lambda>d. andthen (println pr [d]) (print_map pr ms))"
  by (simp add: print_map_def bnd_assoc andthen_def)

lemma boot_from_step:
  "pc \<noteq> Halted \<Longrightarrow> boot_from pr pc = bnd (boot_next pr pc) (\<lambda>(l, q). andthen (print_line pr l) (boot_from pr q))"
proof (induction pr pc rule: boot_next.induct)
  case (2 pr m ms)
  then show ?case by (simp add: print_map_Cons andthen_def bnd_assoc print_line_def)
next
  case (3 pr)
  then show ?case by (simp add: print_map_def andthen_def bnd_assoc print_line_def)
next
  case (5 pr p)
  have "bnd c (\<lambda>u. ret ()) = c" for c :: "(unit, kernel) comp" using bnd_ret_right [of c] by simp
  then show ?case by (simp add: andthen_def print_line_def)
qed (simp_all add: boot_rest_def andthen_def bnd_assoc print_line_def)

section \<open>The running kernel\<close>

text \<open>
  The state of a run: the kernel, the place in the entry point (where it goes on after the current
  print), the bytes of the current print still to come, the live heap blocks, the numbers
  of timer and keyboard interrupts served, the lines the interrupt controller has in service; and
  what has been put on the screen, altogether, by the entry point and by handlers.
\<close>

record run =
  kst :: kernel
  at_pc :: boot_pc
  todo :: "u8 list"
  blocks :: "(usize \<times> usize) set"
  ticks :: nat
  keys :: nat
  isr :: "nat set"
  shown :: "u8 list"
  own :: "u8 list"
  heard :: "u8 list"

text \<open>What the controller has in service after the port traffic of a handler.\<close>

definition served :: "kernel \<Rightarrow> kernel \<Rightarrow> nat set \<Rightarrow> nat set" where
  "served s s' L = in_service (drop (length (io s)) (io s')) L"

text \<open>A handler has run, to the state \<open>s'\<close>: what it prints is recorded.\<close>

definition handled :: "profile \<Rightarrow> bool \<Rightarrow> nat \<Rightarrow> u32 \<Rightarrow> ExceptionStackFrame \<Rightarrow> kernel \<Rightarrow> run \<Rightarrow> run" where
  "handled pr ext vec err f s' r =
     (let out = echo pr ext vec err f (kst r) in r\<lparr>kst := s', shown := shown r @ out, heard := heard r @ out\<rparr>)"

lemma handled_simps [simp]:
  "kst (handled pr ext vec err f s' r) = s'" "at_pc (handled pr ext vec err f s' r) = at_pc r"
  "todo (handled pr ext vec err f s' r) = todo r" "blocks (handled pr ext vec err f s' r) = blocks r"
  "ticks (handled pr ext vec err f s' r) = ticks r" "keys (handled pr ext vec err f s' r) = keys r"
  "isr (handled pr ext vec err f s' r) = isr r" "own (handled pr ext vec err f s' r) = own r"
  "shown (handled pr ext vec err f s' r) = shown r @ echo pr ext vec err f (kst r)"
  "heard (handled pr ext vec err f s' r) = heard r @ echo pr ext vec err f (kst r)"
  by (simp_all add: handled_def Let_def)

text \<open>What the devices and the processor do: no statement of the kernel's own code is involved.\<close>

inductive env_step :: "profile \<Rightarrow> symbols \<Rightarrow> run \<Rightarrow> run \<Rightarrow> bool"
  for pr :: profile and syms :: symbols where
  timer: "intr_flag (kst r) \<Longrightarrow> accepts (isr r) 0 \<Longrightarrow> irq pr syms 0x20 f (kst r) = Some (Done () s') \<Longrightarrow>
    env_step pr syms r ((handled pr True 0x20 0 f s' r)\<lparr>ticks := Suc (ticks r), isr := served (kst r) s' (insert 0 (isr r))\<rparr>)"
| keyboard: "intr_flag (kst r) \<Longrightarrow> accepts (isr r) 1 \<Longrightarrow> irq pr syms 0x21 f (kst r) = Some (Done () s') \<Longrightarrow>
    env_step pr syms r ((handled pr True 0x21 0 f s' r)\<lparr>keys := Suc (keys r), isr := served (kst r) s' (insert 1 (isr r))\<rparr>)"
| stray: "intr_flag (kst r) \<Longrightarrow> 0x22 \<le> vec \<Longrightarrow> vec < 0x30 \<Longrightarrow> accepts (isr r) (line_of vec) \<Longrightarrow>
    irq pr syms vec f (kst r) = Some (Done () s') \<Longrightarrow>
    env_step pr syms r ((handled pr True vec 0 f s' r)\<lparr>isr := served (kst r) s' (insert (line_of vec) (isr r))\<rparr>)"
| trap: "vec < 0x20 \<Longrightarrow> deliver pr syms False vec err f (kst r) = Some (Done () s') \<Longrightarrow>
    env_step pr syms r ((handled pr False vec err f s' r)\<lparr>isr := served (kst r) s' (isr r)\<rparr>)"

text \<open>The block a statement adds to the live ones: the box.\<close>

fun new_blocks :: "boot_pc \<Rightarrow> boot_pc \<Rightarrow> (usize \<times> usize) set" where
  "new_blocks Boxing (Showing p) = {(p, 4)}"
| "new_blocks _ _ = {}"

text \<open>The entry point: the next byte of a print, or the next statement up to what it prints.\<close>

inductive own_step :: "profile \<Rightarrow> run \<Rightarrow> run \<Rightarrow> bool"
  for pr :: profile where
  next_byte: "todo r = b # bs \<Longrightarrow> put_byte pr b (kst r) = Some (Done () s') \<Longrightarrow>
    own_step pr r (r\<lparr>kst := s', todo := bs, shown := shown r @ [b], own := own r @ [b]\<rparr>)"
| next_statement: "todo r = [] \<Longrightarrow> at_pc r \<noteq> Halted \<Longrightarrow> boot_next pr (at_pc r) (kst r) = Some (Done (l, q) s') \<Longrightarrow>
    own_step pr r (r\<lparr>kst := s', at_pc := q, todo := pending l, blocks := new_blocks (at_pc r) q \<union> blocks r\<rparr>)"

inductive run_step :: "profile \<Rightarrow> symbols \<Rightarrow> run \<Rightarrow> run \<Rightarrow> bool"
  for pr :: profile and syms :: symbols where
  entry_point: "own_step pr r r' \<Longrightarrow> run_step pr syms r r'"
| client: "at_pc r = Halted \<Longrightarrow> todo r = [] \<Longrightarrow> heap_step pr (kst r, blocks r) (s', B) \<Longrightarrow>
    run_step pr syms r (r\<lparr>kst := s', blocks := B\<rparr>)"
| environment: "env_step pr syms r r' \<Longrightarrow> run_step pr syms r r'"

definition run_start :: "kernel \<Rightarrow> run" where
  "run_start s = \<lparr>kst = s, at_pc = Start, todo = [], blocks = {}, ticks = 0, keys = 0, isr = {}, shown = [], own = [], heard = []\<rparr>"

lemma run_start_fields:
  assumes "r = run_start s"
  shows "kst r = s" "at_pc r = Start" "todo r = []" "blocks r = {}" "ticks r = 0" "keys r = 0" "isr r = {}"
    "shown r = []" "own r = []" "heard r = []"
  by (simp_all add: assms run_start_def)

definition run_init :: "profile \<Rightarrow> symbols \<Rightarrow> nat \<Rightarrow> run \<Rightarrow> bool" where
  "run_init pr syms c r \<longleftrightarrow> (\<exists>s0 ls. boot_ready ls s0 \<and> boot_setup pr syms s0 = Some (Done () (kst r)))
     \<and> linked syms \<and> r = run_start (kst r) \<and> eoi_count (io (kst r)) = c"

section \<open>Invariant\<close>

text \<open>
  What the entry point relies on at each place: before the box the allocator is untouched and the
  memory map is in memory; afterwards there is a heap with the live blocks, at first just the box.
\<close>

definition early :: "MemLayout list \<Rightarrow> kernel \<Rightarrow> (usize \<times> usize) set \<Rightarrow> bool" where
  "early ls s B \<longleftrightarrow> PAGE_ALLOC s = UNINIT \<and> map_in_memory ls s \<and> B = {}"

definition heap_ready :: "kernel \<Rightarrow> (usize \<times> usize) set \<Rightarrow> bool" where
  "heap_ready s B \<longleftrightarrow> (\<exists>pa. data_ptr (bitmap pa) = 0xc0100000 \<and> heap_inv pa (s, B))"

fun main_inv :: "MemLayout list \<Rightarrow> boot_pc \<Rightarrow> kernel \<Rightarrow> (usize \<times> usize) set \<Rightarrow> bool" where
  "main_inv ls Start s B \<longleftrightarrow> early ls s B"
| "main_inv ls (Mapping ms) s B \<longleftrightarrow> early ls s B \<and> set ms \<subseteq> set ls"
| "main_inv ls Boxing s B \<longleftrightarrow> early ls s B"
| "main_inv ls (Showing p) s B \<longleftrightarrow> heap_ready s B \<and> B = {(p, 4)} \<and> ram_slice (ram s) p 4 = bytes_of_word 4 (42 :: u32)"
| "main_inv ls Halted s B \<longleftrightarrow> heap_ready s B"

definition run_inv :: "symbols \<Rightarrow> nat \<Rightarrow> run \<Rightarrow> bool" where
  "run_inv syms c r \<longleftrightarrow> linked syms \<and> booted syms (kst r) \<and> unat (TICKS (kst r)) = ticks r mod 2 ^ 64
     \<and> eoi_count (io (kst r)) = c + ticks r + keys r \<and> isr r \<subseteq> {2..7}
     \<and> (\<exists>ls. map_ok ls \<and> main_inv ls (at_pc r) (kst r) (blocks r))"

text \<open>Whatever leaves the allocator and all memory but the screen alone keeps it.\<close>

definition env_frame :: "kernel \<Rightarrow> kernel \<Rightarrow> bool" where
  "env_frame s s' \<longleftrightarrow> PAGE_ALLOC s' = PAGE_ALLOC s \<and> esp_reg s' = esp_reg s \<and> (\<forall>a. 4000 \<le> unat (a - VGA_BUFFER_ADDR) \<longrightarrow> ram s' a = ram s a)"

lemma io_frame_env: "io_frame s s' \<Longrightarrow> env_frame s s'"
  by (simp add: env_frame_def io_frame_simps io_frame_ram)

lemma env_frame_high: "env_frame s s' \<Longrightarrow> 0xc0100000 \<le> unat a \<Longrightarrow> ram s' a = ram s a"
  by (simp add: env_frame_def high_address)

lemma heap_inv_env:
  assumes "env_frame s s'" "data_ptr (bitmap pa) = 0xc0100000" "heap_inv pa (s, B)"
  shows "heap_inv pa (s', B)"
proof -
  have "wf_pa pa" using assms(3) by (simp add: heap_inv_def)
  then have "allocated pa s' = allocated pa s"
    using env_frame_high [OF assms(1)] assms(2) by (intro allocated_ram) auto
  then show ?thesis using assms(1,3) by (simp add: heap_inv_def heap_of_def env_frame_def)
qed

lemma heap_ready_env: "env_frame s s' \<Longrightarrow> heap_ready s B \<Longrightarrow> heap_ready s' B"
  unfolding heap_ready_def using heap_inv_env by blast

lemma early_env:
  assumes "env_frame s s'" "early ls s B"
  shows "early ls s' B"
proof -
  have "map_in_memory ls s'"
    using assms by (intro map_in_memory_frame [of ls s s']) (auto simp: early_def env_frame_def)
  then show ?thesis using assms by (simp add: early_def env_frame_def)
qed

text \<open>Live blocks lie in high memory.\<close>

lemma heap_ready_high:
  assumes "heap_ready s B" "(p, sz) \<in> B"
  shows "0xc0100000 \<le> unat p" "unat p + unat sz \<le> 2 ^ 32"
proof -
  obtain pa where pa: "data_ptr (bitmap pa) = 0xc0100000" "heap_inv pa (s, B)" using assms(1) by (auto simp: heap_ready_def)
  have wf: "wf_pa pa" using pa(2) by (simp add: heap_inv_def)
  show "0xc0100000 \<le> unat p" "unat p + unat sz \<le> 2 ^ 32"
    using heap_inv_blocks [OF pa(2) assms(2)] wf pa(1) unfolding wf_pa_def by auto
qed

lemma main_inv_env:
  assumes "env_frame s s'" "main_inv ls pc s B"
  shows "main_inv ls pc s' B"
proof (cases pc)
  case (Showing p)
  then have h: "heap_ready s B" "(p, 4) \<in> B" using assms(2) by auto
  have "ram_slice (ram s') p 4 = ram_slice (ram s) p 4"
    using heap_ready_high [OF h] by (intro ram_slice_frame env_frame_high [OF assms(1)]) auto
  then show ?thesis using assms(2) heap_ready_env [OF assms(1) h(1)] Showing by simp
qed (use assms early_env [OF assms(1)] heap_ready_env [OF assms(1)] in auto)

section \<open>The entry point keeps it\<close>

lemma put_byte_keeps:
  assumes "booted syms s" "main_inv ls pc s B" "put_byte pr b s = Some (Done () s')"
  shows "booted syms s' \<and> TICKS s' = TICKS s \<and> eoi_count (io s') = eoi_count (io s) \<and> main_inv ls pc s' B \<and> low_kept s s'
    \<and> PAGE_ALLOC s' = PAGE_ALLOC s \<and> esp_reg s' = esp_reg s \<and> writes syms s [b] s'"
proof -
  have "writes syms s [b] s'" "io_frame s s'" using put_byte_writes [OF assms(1), of pr b] assms(3) by auto
  then show ?thesis
    using io_frame_eoi io_frame_simps(2,3,6) main_inv_env [OF io_frame_env assms(2)] io_frame_low by (simp add: writes_def)
qed

text \<open>Heap operations and the box leave everything below the heap alone.\<close>

definition same_but_heap :: "kernel \<Rightarrow> kernel \<Rightarrow> bool" where
  "same_but_heap s s' \<longleftrightarrow> VGA_BUFFER s' = VGA_BUFFER s \<and> esp_reg s' = esp_reg s \<and> (\<forall>a. unat a < 0xc0100000 \<longrightarrow> ram s' a = ram s a)"

lemma same_but_heap_refl [simp]: "same_but_heap s s"
  by (simp add: same_but_heap_def)

lemma same_but_heap_low: "same_but_heap s s' \<Longrightarrow> low_kept s s'"
  by (simp add: same_but_heap_def low_kept_def)

lemma screen_same:
  assumes "\<And>k. k < 4000 \<Longrightarrow> ram s' (VGA_BUFFER_ADDR + of_nat k) = ram s (VGA_BUFFER_ADDR + of_nat k)"
  shows "screen s' = screen s"
proof -
  have "cell_at (vram s') r c = cell_at (vram s) r c" if "r < 25" "c < 80" for r c
    using assms [of "160 * r + 2 * c"] assms [of "160 * r + 2 * c + 1"] that by (simp add: cell_at_def vram_def)
  then show ?thesis by (simp add: screen_def screen_of_def)
qed

lemma same_but_heap_writes:
  assumes "same_but_heap s s'" "booted syms s'"
  shows "writes syms s [] s'"
proof -
  have "unat (VGA_BUFFER_ADDR + of_nat k) < 0xc0100000" if "k < 4000" for k
    using that by (simp add: VGA_BUFFER_ADDR_def unat_plus_bounded unat_of_nat_bounded)
  then have "screen s' = screen s" using assms(1) by (intro screen_same) (simp add: same_but_heap_def)
  then show ?thesis
    using assms by (simp add: writes_def same_but_heap_def screen_attr_def screen_state_def terminal_of_def)
qed

lemma box_keeps:
  assumes "booted syms s" "early ls s B" "map_ok ls"
  shows "\<exists>p s'. box_new_i32 pr 42 s = Some (Done p s') \<and> booted syms s' \<and> TICKS s' = TICKS s
    \<and> io s' = io s \<and> main_inv ls (Showing p) s' ({(p, 4)} \<union> B) \<and> same_but_heap s s'
    \<and> unat p = 0xc0100000 + 4096 * bitmap_pages (card (usable_bytes ls) mod 2 ^ 32 div 4096)"
proof -
  obtain pa r where box: "box_new_i32 pr 42 s = Some (Done (base_addr pa) (s\<lparr>ram := r, PAGE_ALLOC := ready pa\<rparr>))"
      and pa: "wf_pa pa" "data_ptr (bitmap pa) = 0xc0100000" "allocated pa (s\<lparr>ram := r, PAGE_ALLOC := ready pa\<rparr>) = {0}"
        "ram_slice r (base_addr pa) 4 = bytes_of_word 4 (42 :: u32)" "same_but_heap s (s\<lparr>ram := r, PAGE_ALLOC := ready pa\<rparr>)"
        "unat (base_addr pa) = 0xc0100000 + 4096 * bitmap_pages (card (usable_bytes ls) mod 2 ^ 32 div 4096)"
    using box_new_first [of s ls pr 42] assms(2,3) by (auto simp: early_def same_but_heap_def)
  let ?s = "s\<lparr>ram := r, PAGE_ALLOC := ready pa\<rparr>"
  have v: "valid_size 4" "pages_for 4 = 1" by (simp_all add: valid_size_def pages_for_def)
  have "0 \<in> allocated pa ?s" using pa(3) by simp
  then have "0 + pages_for 4 \<le> page_count pa" using v(2) by (simp add: used_def)
  then have "block_pages pa (page_addr pa 0, 4) = {0}" "block_ok pa (page_addr pa 0, 4)"
    using block_pages_at [of pa 4 0] pa(1) v by (auto simp: block_ok_def)
  then have "heap_inv pa (?s, {(base_addr pa, 4)})"
    using pa(1,3) by (simp add: heap_inv_def heap_of_def page_addr_def)
  then have "main_inv ls (Showing (base_addr pa)) ?s ({(base_addr pa, 4)} \<union> B)"
    using pa(2,4) assms(2) by (auto simp: heap_ready_def early_def)
  moreover have "booted syms ?s" using assms(1) by (simp add: booted_def screen_up_def)
  ultimately show ?thesis using box pa(5,6) by (intro exI [of _ "base_addr pa"] exI [of _ ?s]) simp
qed

lemma boot_next_keeps:
  assumes "booted syms s" "main_inv ls pc s B" "map_ok ls"
  shows "\<exists>l q s'. boot_next pr pc s = Some (Done (l, q) s') \<and> booted syms s' \<and> TICKS s' = TICKS s
    \<and> io s' = io s \<and> main_inv ls q s' (new_blocks pc q \<union> B) \<and> same_but_heap s s'"
proof (cases pc)
  case Start
  then have "get_memlayout s = Some (Done ls s)" using map_in_memory_read assms(2) by (simp add: early_def)
  then show ?thesis using assms(1,2) Start by (simp add: bnd_run run_basic)
next
  case (Mapping ms)
  show ?thesis
  proof (cases ms)
    case Nil
    then show ?thesis using assms(1,2) Mapping by (simp add: bnd_run run_basic esp_def)
  next
    case (Cons m rest)
    then have k: "1 \<le> unat (raw_kind m)" "unat (raw_kind m) \<le> 5"
      using assms(2,3) Mapping by (auto simp: map_ok_def known_kinds_def)
    then obtain kd where "layout_kind m = (ret kd :: (MemLayoutKind, kernel) comp)" using layout_kind_known by blast
    then have "layout_kind m s = Some (Done kd s)" by (simp add: run_basic)
    then obtain d where d: "layout_debug m s = Some (Done d s)" by (simp add: layout_debug_def bnd_run run_basic)
    then show ?thesis using assms(1,2) Mapping Cons by (simp add: bnd_run run_basic)
  qed
next
  case Boxing
  then obtain p s' where "box_new_i32 pr 42 s = Some (Done p s')" "booted syms s'" "TICKS s' = TICKS s"
      "io s' = io s" "main_inv ls (Showing p) s' ({(p, 4)} \<union> B)" "same_but_heap s s'"
    using box_keeps [OF assms(1) _ assms(3), of B pr] assms(2) by auto
  then show ?thesis
    using Boxing by (intro exI [of _ None] exI [of _ "Showing p"] exI [of _ s']) (simp add: bnd_run run_basic)
next
  case (Showing p)
  then show ?thesis using assms(1,2) by (auto simp: run_basic)
next
  case Halted
  then show ?thesis using assms(1,2) by (simp add: run_basic)
qed

section \<open>The environment keeps it\<close>

text \<open>A device interrupt or an exception changes the screen, the tick counter and the port history.\<close>

lemma served_simps:
  "io s' = io s @ h \<Longrightarrow> quiet h \<Longrightarrow> served s s' L = L"
  "io s' = io s @ h @ [Out 0x20 0x20] \<Longrightarrow> quiet h \<Longrightarrow> accepts L n \<Longrightarrow> finite L \<Longrightarrow> served s s' (insert n L) = L"
proof -
  have d: "io s' = io s @ q \<Longrightarrow> served s s' M = in_service q M" for q M by (simp add: served_def)
  show "io s' = io s @ h \<Longrightarrow> quiet h \<Longrightarrow> served s s' L = L" by (simp add: d in_service_quiet)
  show "io s' = io s @ h @ [Out 0x20 0x20] \<Longrightarrow> quiet h \<Longrightarrow> accepts L n \<Longrightarrow> finite L \<Longrightarrow> served s s' (insert n L) = L"
    using d [of "h @ [Out 0x20 0x20]"] by (simp only: in_service_append in_service_quiet in_service_eoi)
qed

lemma io_frame_served: "io_frame s s' \<Longrightarrow> served s s' L = L"
  using io_frame_simps(9) served_simps(1) by blast

lemma env_step_frame:
  assumes "env_step pr syms r r'" "booted syms (kst r)" "linked syms" "finite (isr r)"
  shows "env_frame (kst r) (kst r') \<and> at_pc r' = at_pc r \<and> todo r' = todo r \<and> blocks r' = blocks r \<and> booted syms (kst r')
    \<and> eoi_count (io (kst r')) + ticks r + keys r = eoi_count (io (kst r)) + ticks r' + keys r'
    \<and> (TICKS (kst r') = TICKS (kst r) \<and> ticks r' = ticks r \<or> TICKS (kst r') = TICKS (kst r) + 1 \<and> ticks r' = Suc (ticks r))
    \<and> (isr r' = isr r \<or> (\<exists>n. 2 \<le> n \<and> n \<le> 7 \<and> accepts (isr r) n \<and> isr r' = insert n (isr r)))"
  using assms(1)
proof cases
  case (timer f s')
  have s': "s' = (kst r)\<lparr>TICKS := TICKS (kst r) + 1, io := io (kst r) @ [Out 0x20 0x20]\<rparr>"
    using timer(4) booted_irq(1) [OF assms(2,3)] by (simp add: timer_handler_run split: if_splits)
  moreover have "booted syms s'" using assms(2) pics_ready_eoi by (simp add: s' booted_def screen_up_def)
  moreover have "served (kst r) s' (insert 0 (isr r)) = isr r"
    using served_simps(2) [of s' "kst r" "[]", OF _ _ timer(3) assms(4)] by (simp add: s')
  ultimately show ?thesis by (simp add: timer(1) env_frame_def)
next
  case (keyboard f s')
  have up: "screen_up (kst r)" using assms(2) by (simp add: booted_def)
  have h: "keyboard_handler pr f (kst r) = Some (Done () s')" using keyboard(4) booted_irq(2) [OF assms(2,3)] by simp
  then have "dev (kst r) (io (kst r)) 0x60 \<noteq> 0" using keyboard_handler_run(2) [OF up, of pr f] by auto
  then obtain s1 where s1: "s' = s1\<lparr>io := io s1 @ [Out 0x20 0x20]\<rparr>" "io_frame (kst r) s1" "screen_up s1"
    using keyboard_handler_run(1) [OF up, of pr f] h by auto
  obtain q where q: "io s1 = io (kst r) @ q" "quiet q" using io_frame_simps(9) [OF s1(2)] by blast
  have "env_frame (kst r) s'" using io_frame_env [OF s1(2)] by (simp add: s1(1) env_frame_def)
  moreover have "served (kst r) s' (insert 1 (isr r)) = isr r"
    using served_simps(2) [of s' "kst r" q, OF _ q(2) keyboard(3) assms(4)] by (simp add: s1(1) q(1))
  ultimately show ?thesis
    using booted_eoi [OF assms(2) s1(2,3)] io_frame_simps(3) [OF s1(2)] by (simp add: keyboard(1) s1(1))
next
  case (stray vec f s')
  have p: "println pr (reported True vec 0 f) (kst r) = Some (Done () s')"
    using stray deliver_reports [OF assms(2,3), of vec True pr 0 f] by (simp add: irq_def double_faults_def)
  have "2 \<le> line_of vec" "line_of vec \<le> 7" using stray(3,4) by (auto simp: line_of_def)
  then show ?thesis
    using p stray(5) booted_println [OF assms(2), of pr "reported True vec 0 f"] io_frame_env io_frame_eoi
      io_frame_simps(3) io_frame_served by (auto simp: stray(1))
next
  case (trap vec err f s')
  have "\<not> double_faults False vec" using deliver_double_fault [OF assms(2,3), of False vec pr err f] trap(3) by auto
  then have "println pr (reported False vec err f) (kst r) = Some (Done () s')"
    using trap deliver_reports [OF assms(2,3), of vec False pr err f] by simp
  then show ?thesis
    using booted_println [OF assms(2), of pr "reported False vec err f"] io_frame_env io_frame_eoi io_frame_simps(3)
      io_frame_served by (auto simp: trap(1))
qed

lemma run_inv_env:
  assumes "run_inv syms c r" "env_step pr syms r r'"
  shows "run_inv syms c r'"
proof -
  have inv: "linked syms" "booted syms (kst r)" "unat (TICKS (kst r)) = ticks r mod 2 ^ 64"
      "eoi_count (io (kst r)) = c + ticks r + keys r" "isr r \<subseteq> {2..7}"
    and "\<exists>ls. map_ok ls \<and> main_inv ls (at_pc r) (kst r) (blocks r)"
    using assms(1) by (auto simp: run_inv_def)
  then obtain ls where ls: "map_ok ls" "main_inv ls (at_pc r) (kst r) (blocks r)" by blast
  have "finite (isr r)" using inv(5) by (rule finite_subset) simp
  note f = env_step_frame [OF assms(2) inv(2,1) this]
  have "unat (TICKS (kst r) + 1) = Suc (ticks r) mod 2 ^ 64" using inv(3) by (simp add: unat_word_ariths mod_Suc_eq)
  then have "unat (TICKS (kst r')) = ticks r' mod 2 ^ 64" using f inv(3) by auto
  moreover have "eoi_count (io (kst r')) = c + ticks r' + keys r'" using f inv(4) by linarith
  moreover have "main_inv ls (at_pc r') (kst r') (blocks r')" using f main_inv_env ls(2) by metis
  moreover have "isr r' \<subseteq> {2..7}" using f inv(5) by auto
  ultimately show ?thesis using f inv(1) ls(1) by (auto simp: run_inv_def)
qed

section \<open>Heap operations keep it\<close>

lemma heap_step_same:
  assumes "heap_inv pa (s, B)" "data_ptr (bitmap pa) = 0xc0100000" "heap_step pr (s, B) (s', B')"
  shows "same_but_heap s s'"
proof -
  have h: "heap_of pa s" "wf_pa pa" using assms(1) by (simp_all add: heap_inv_def)
  have bm: "same_but_heap s s'" if "bm_frame (bitmap pa) s s'"
    using bm_frame_below [OF that h(2) assms(2)] that by (auto simp: same_but_heap_def bm_frame_def)
  show ?thesis
    using assms(3)
  proof cases
    case (step_alloc sz p)
    then show ?thesis using alloc_result [OF h, of sz pr p s'] bm by blast
  next
    case (step_free p sz)
    then show ?thesis using heap_inv_free [OF assms(1), of p sz pr] bm by auto
  next
    case (step_store p sz a v)
    then have "unat (base_addr pa) \<le> unat a" using heap_inv_byte [OF assms(1)] by blast
    then show ?thesis using step_store h(2) assms(2) by (auto simp: same_but_heap_def wf_pa_def)
  qed
qed

lemma heap_step_ram:
  assumes "heap_inv pa (s, B)" "heap_step pr (s, B) (s', B')"
  shows "\<exists>r. s' = s\<lparr>ram := r\<rparr>"
  using assms(2)
proof cases
  case (step_alloc sz p)
  then have "bm_frame (bitmap pa) s s'"
    using alloc_result [of pa s sz pr p s'] assms(1) by (auto simp: heap_inv_def)
  then show ?thesis by (auto simp: bm_frame_def)
next
  case (step_free p sz)
  then have "bm_frame (bitmap pa) s s'" using heap_inv_free [OF assms(1), of p sz pr] by auto
  then show ?thesis by (auto simp: bm_frame_def)
qed blast

lemma run_inv_client:
  assumes "run_inv syms c r" "at_pc r = Halted" "heap_step pr (kst r, blocks r) (s', B)"
  shows "run_inv syms c (r\<lparr>kst := s', blocks := B\<rparr>)"
proof -
  obtain pa ls where pa: "data_ptr (bitmap pa) = 0xc0100000" "heap_inv pa (kst r, blocks r)" "map_ok ls"
    using assms(1,2) by (auto simp: run_inv_def heap_ready_def)
  obtain m where "s' = (kst r)\<lparr>ram := m\<rparr>" using heap_step_ram [OF pa(2) assms(3)] by blast
  moreover have "heap_inv pa (s', B)" by (rule heap.inv_step [OF pa(2) assms(3)])
  ultimately show ?thesis
    using assms(1,2) pa(1,3) by (auto simp: run_inv_def heap_ready_def booted_def screen_up_def)
qed

section \<open>All runs keep it\<close>

lemma run_inv_own:
  assumes "run_inv syms c r" "own_step pr r r'"
  shows "run_inv syms c r'"
proof -
  obtain ls where ls: "map_ok ls" "main_inv ls (at_pc r) (kst r) (blocks r)" and b: "booted syms (kst r)"
    using assms(1) by (auto simp: run_inv_def)
  show ?thesis
    using assms(2)
  proof cases
    case (next_byte c cs s')
    then show ?thesis using put_byte_keeps [OF b ls(2) next_byte(3)] assms(1) ls(1) by (auto simp: run_inv_def)
  next
    case (next_statement l q s')
    have "booted syms s' \<and> TICKS s' = TICKS (kst r) \<and> io s' = io (kst r)
        \<and> main_inv ls q s' (new_blocks (at_pc r) q \<union> blocks r)"
      using boot_next_keeps [OF b ls(2,1), of pr] next_statement(4) by auto
    then show ?thesis using assms(1) ls(1) by (auto simp: run_inv_def next_statement(1))
  qed
qed

lemma run_inv_init:
  assumes "run_init pr syms c r"
  shows "run_inv syms c r"
proof -
  obtain s0 ls where s0: "boot_ready ls s0" "boot_setup pr syms s0 = Some (Done () (kst r))"
    using assms by (auto simp: run_init_def)
  have "booted syms (kst r) \<and> TICKS (kst r) = 0 \<and> PAGE_ALLOC (kst r) = UNINIT \<and> map_in_memory ls (kst r)"
    using boot_setup_run [OF s0(1), of pr syms] s0(2) by auto
  moreover have "map_ok ls" using s0(1) by (simp add: boot_ready_def)
  moreover have "r = run_start (kst r)" "linked syms" "eoi_count (io (kst r)) = c" using assms by (simp_all add: run_init_def)
  moreover note run_start_fields [OF this(1)]
  ultimately show ?thesis unfolding run_inv_def early_def by (intro conjI exI [of _ ls]) (simp_all add: early_def)
qed

interpretation runs: invariant_system "run_init pr syms c" "run_step pr syms" "run_inv syms c" for pr syms c
proof
  show "run_inv syms c r" if "run_init pr syms c r" for r
    using that by (rule run_inv_init)
  show "run_inv syms c r'" if "run_inv syms c r" "run_step pr syms r r'" for r r'
    using that(2) that(1) by cases (auto intro: run_inv_own run_inv_client run_inv_env)
qed

section \<open>Progress\<close>

lemma boot_next_pc:
  "boot_next pr Start s = Some (Done (l, q) s') \<Longrightarrow> \<exists>ms. q = Mapping ms"
  "boot_next pr (Mapping (m # ms)) s = Some (Done (l, q) s') \<Longrightarrow> q = Mapping ms"
  "boot_next pr (Mapping []) s = Some (Done (l, q) s') \<Longrightarrow> q = Boxing"
  "boot_next pr Boxing s = Some (Done (l, q) s') \<Longrightarrow> \<exists>p. q = Showing p"
  "boot_next pr (Showing p) s = Some (Done (l, q) s') \<Longrightarrow> q = Halted"
  by (auto simp: bnd_def ret_def split: outcome.splits Option.bind_splits)

text \<open>All statements but the box compute only what they print.\<close>

lemma boot_next_same: "boot_next pr pc s = Some (Done (l, q) s') \<Longrightarrow> pc \<noteq> Boxing \<Longrightarrow> s' = s"
  by (induction pr pc rule: boot_next.induct)
    (auto simp: bnd_def ret_def gets_def esp_def get_memlayout_def get_memlayout_buflen_def layout_debug_def layout_kind_def undef_def
      split: outcome.splits Option.bind_splits if_splits)

text \<open>Steps of the entry point keep the invariant and serve no interrupt.\<close>

lemma own_steps_inv: "(own_step pr)\<^sup>*\<^sup>* r u \<Longrightarrow> run_inv syms c r \<Longrightarrow> run_inv syms c u"
  by (induction rule: rtranclp_induct) (auto intro: run_inv_own)

lemma own_steps_ticks: "(own_step pr)\<^sup>*\<^sup>* r u \<Longrightarrow> ticks u = ticks r \<and> keys u = keys r \<and> isr u = isr r \<and> heard u = heard r"
proof (induction rule: rtranclp_induct)
  case (step u v)
  from step(2) show ?case by cases (use step(3) in auto)
qed simp

lemma own_steps_run: "(own_step pr)\<^sup>*\<^sup>* r u \<Longrightarrow> (run_step pr syms)\<^sup>*\<^sup>* r u"
  by (induction rule: rtranclp_induct) (auto intro: entry_point rtranclp.rtrancl_into_rtrancl)

text \<open>A print comes to its end.\<close>

lemma print_ends:
  assumes "run_inv syms c r"
  shows "\<exists>u. (own_step pr)\<^sup>*\<^sup>* r u \<and> todo u = [] \<and> at_pc u = at_pc r"
  using assms
proof (induction "todo r" arbitrary: r)
  case (Cons b bs)
  have "booted syms (kst r)" using Cons.prems by (simp add: run_inv_def)
  then obtain s' where "put_byte pr b (kst r) = Some (Done () s')" using put_byte_writes by blast
  from next_byte [OF Cons.hyps(2) [symmetric] this] have s: "own_step pr r (r\<lparr>kst := s', todo := bs, shown := shown r @ [b], own := own r @ [b]\<rparr>)"
    (is "own_step pr r ?r") .
  from Cons.hyps(1) [of ?r] run_inv_own [OF Cons.prems s] obtain u where "(own_step pr)\<^sup>*\<^sup>* ?r u" "todo u = []" "at_pc u = at_pc ?r"
    by auto
  then show ?case using converse_rtranclp_into_rtranclp [of "own_step pr", OF s] by (intro exI [of _ u]) simp
qed auto

text \<open>The next statement returns, and what it prints comes to its end.\<close>

lemma statement_ends:
  assumes "run_inv syms c r" "todo r = []" "at_pc r \<noteq> Halted"
  obtains l q s' u where "boot_next pr (at_pc r) (kst r) = Some (Done (l, q) s')" "(own_step pr)\<^sup>*\<^sup>* r u" "run_inv syms c u"
    "todo u = []" "at_pc u = q"
proof -
  obtain ls where "map_ok ls" "main_inv ls (at_pc r) (kst r) (blocks r)" "booted syms (kst r)"
    using assms(1) by (auto simp: run_inv_def)
  then obtain l q s' where q: "boot_next pr (at_pc r) (kst r) = Some (Done (l, q) s')" using boot_next_keeps by blast
  note s = next_statement [OF assms(2,3) q]
  obtain u where u: "(own_step pr)\<^sup>*\<^sup>* (r\<lparr>kst := s', at_pc := q, todo := pending l, blocks := new_blocks (at_pc r) q \<union> blocks r\<rparr>) u"
      "todo u = []" "at_pc u = q"
    using print_ends [OF run_inv_own [OF assms(1) s], of pr] by auto
  have "(own_step pr)\<^sup>*\<^sup>* r u" by (rule converse_rtranclp_into_rtranclp [OF s u(1)])
  then show thesis using that [OF q] own_steps_inv [OF _ assms(1)] u(2,3) by blast
qed

lemma mapping_to_boxing:
  assumes "run_inv syms c r" "todo r = []" "at_pc r = Mapping ms"
  shows "\<exists>u. (own_step pr)\<^sup>*\<^sup>* r u \<and> run_inv syms c u \<and> todo u = [] \<and> at_pc u = Boxing"
  using assms
proof (induction ms arbitrary: r)
  case Nil
  show ?case
    by (rule statement_ends [OF Nil(1,2), of pr]) (use Nil(3) boot_next_pc(3) in auto)
next
  case (Cons m ms)
  obtain l q s' u where u: "boot_next pr (at_pc r) (kst r) = Some (Done (l, q) s')" "(own_step pr)\<^sup>*\<^sup>* r u" "run_inv syms c u"
      "todo u = []" "at_pc u = q"
    by (rule statement_ends [OF Cons.prems(1,2), of pr]) (use Cons.prems(3) in auto)
  then have "at_pc u = Mapping ms" using boot_next_pc(2) Cons.prems(3) by metis
  then show ?case using Cons.IH [OF u(3,4)] u(2) rtranclp_trans by metis
qed

lemma start_to_boxing:
  assumes "run_inv syms c r" "todo r = []" "at_pc r = Start"
  shows "\<exists>u. (own_step pr)\<^sup>*\<^sup>* r u \<and> run_inv syms c u \<and> todo u = [] \<and> at_pc u = Boxing"
proof -
  obtain l q s' u where u: "boot_next pr (at_pc r) (kst r) = Some (Done (l, q) s')" "(own_step pr)\<^sup>*\<^sup>* r u" "run_inv syms c u"
      "todo u = []" "at_pc u = q"
    by (rule statement_ends [OF assms(1,2), of pr]) (use assms(3) in auto)
  then obtain ms where "at_pc u = Mapping ms" using boot_next_pc(1) assms(3) by metis
  then show ?thesis using mapping_to_boxing [OF u(3,4)] u(2) rtranclp_trans by metis
qed

lemma boxing_to_showing:
  assumes "run_inv syms c r" "todo r = []" "at_pc r = Boxing"
  shows "\<exists>u p. (own_step pr)\<^sup>*\<^sup>* r u \<and> run_inv syms c u \<and> todo u = [] \<and> at_pc u = Showing p"
  by (rule statement_ends [OF assms(1,2), of pr]) (use assms(3) boot_next_pc(4) in auto)

lemma showing_to_halted:
  assumes "run_inv syms c r" "todo r = []" "at_pc r = Showing p"
  shows "\<exists>u. (own_step pr)\<^sup>*\<^sup>* r u \<and> todo u = [] \<and> at_pc u = Halted"
  by (rule statement_ends [OF assms(1,2), of pr]) (use assms(3) boot_next_pc(5) in auto)

lemma own_to_halt:
  assumes "run_inv syms c r"
  shows "\<exists>u. (own_step pr)\<^sup>*\<^sup>* r u \<and> todo u = [] \<and> at_pc u = Halted"
proof -
  obtain r' where r': "(own_step pr)\<^sup>*\<^sup>* r r'" "todo r' = []" using print_ends [OF assms] by blast
  note inv = own_steps_inv [OF r'(1) assms]
  have boxing: "\<exists>u. (own_step pr)\<^sup>*\<^sup>* r u \<and> todo u = [] \<and> at_pc u = Halted" if "run_inv syms c r" "todo r = []" "at_pc r = Boxing" for r
    using boxing_to_showing [OF that, of pr] showing_to_halted rtranclp_trans [of "own_step pr"] by metis
  have "\<exists>u. (own_step pr)\<^sup>*\<^sup>* r' u \<and> todo u = [] \<and> at_pc u = Halted"
  proof (cases "at_pc r'")
    case Start
    then show ?thesis using start_to_boxing [OF inv r'(2)] boxing rtranclp_trans [of "own_step pr"] by metis
  next
    case (Mapping ms)
    then show ?thesis using mapping_to_boxing [OF inv r'(2)] boxing rtranclp_trans [of "own_step pr"] by metis
  next
    case Boxing
    then show ?thesis using boxing [OF inv r'(2)] by blast
  next
    case (Showing p)
    then show ?thesis using showing_to_halted [OF inv r'(2)] by blast
  next
    case Halted
    then show ?thesis using r'(2) by blast
  qed
  then show ?thesis using rtranclp_trans [OF r'(1)] by blast
qed

lemma run_to_halt:
  assumes "run_inv syms c r"
  shows "\<exists>u. (run_step pr syms)\<^sup>*\<^sup>* r u \<and> todo u = [] \<and> at_pc u = Halted"
  using own_to_halt [OF assms, of pr] own_steps_run by blast

section \<open>The steps are the entry point\<close>

text \<open>What a run has left to do: the rest of the print, then the rest of the entry point.\<close>

definition run_rest :: "profile \<Rightarrow> run \<Rightarrow> (unit, kernel) outcome option" where
  "run_rest pr r = andthen (fold_each (\<lambda>b _. put_byte pr b) (todo r) ()) (boot_from pr (at_pc r)) (kst r)"

lemma own_step_rest:
  assumes "run_inv syms c r" "own_step pr r r'"
  shows "run_rest pr r = run_rest pr r'"
  using assms(2)
proof cases
  case (next_byte b bs s')
  then show ?thesis by (simp add: run_rest_def andthen_def bnd_assoc) (simp add: bnd_run)
next
  case (next_statement l q s')
  obtain ls where "map_ok ls" "main_inv ls (at_pc r) (kst r) (blocks r)" "booted syms (kst r)"
    using assms(1) by (auto simp: run_inv_def)
  then have "booted syms s'" using boot_next_keeps [of syms "kst r" ls "at_pc r" "blocks r" pr] next_statement(4) by auto
  then have up: "screen_up s'" by (simp add: booted_def)
  show ?thesis
    using next_statement(2,4) boot_from_step [OF next_statement(3), of pr] print_line_bytewise [OF up, of pr l]
    by (simp add: run_rest_def andthen_def next_statement(1) bnd_run) (simp add: bnd_def)
qed

lemma own_steps_rest: "(own_step pr)\<^sup>*\<^sup>* r u \<Longrightarrow> run_inv syms c r \<Longrightarrow> run_rest pr r = run_rest pr u"
  by (induction rule: rtranclp_induct) (auto dest: own_steps_inv own_step_rest)

lemma own_steps_boot:
  assumes "run_inv syms c r" "r = run_start s"
  shows "boot_rest pr s = Some (Done () t) \<longleftrightarrow> (\<exists>u. (own_step pr)\<^sup>*\<^sup>* r u \<and> todo u = [] \<and> at_pc u = Halted \<and> kst u = t)"
proof -
  have r: "run_rest pr r = boot_rest pr s" by (simp add: assms(2) run_start_def run_rest_def andthen_def)
  have u: "run_rest pr u = Some (Done () (kst u))" if "todo u = []" "at_pc u = Halted" for u
    using that by (simp add: run_rest_def andthen_def run_basic)
  obtain v where v: "(own_step pr)\<^sup>*\<^sup>* r v" "todo v = []" "at_pc v = Halted" using own_to_halt [OF assms(1)] by blast
  show ?thesis
  proof
    assume "boot_rest pr s = Some (Done () t)"
    then have "kst v = t" using own_steps_rest [OF v(1) assms(1)] r u [OF v(2,3)] by simp
    then show "\<exists>u. (own_step pr)\<^sup>*\<^sup>* r u \<and> todo u = [] \<and> at_pc u = Halted \<and> kst u = t" using v by blast
  next
    assume "\<exists>u. (own_step pr)\<^sup>*\<^sup>* r u \<and> todo u = [] \<and> at_pc u = Halted \<and> kst u = t"
    then show "boot_rest pr s = Some (Done () t)" using own_steps_rest [OF _ assms(1)] r u by metis
  qed
qed

section \<open>Interrupts\<close>

text \<open>A line in service stays there: nothing the kernel or its environment does retires it.\<close>

lemma isr_step:
  assumes "run_inv syms c r" "run_step pr syms r r'"
  shows "isr r \<subseteq> isr r'"
  using assms(2)
proof cases
  case environment
  moreover have "finite (isr r)" "linked syms" "booted syms (kst r)"
    using assms(1) by (auto simp: run_inv_def intro: finite_subset)
  ultimately show ?thesis using env_step_frame [of pr syms r r'] by blast
next
  case entry_point
  then show ?thesis by cases auto
qed auto

lemma isr_steps:
  assumes "(run_step pr syms)\<^sup>*\<^sup>* r u" "reach (run_init pr syms c) (run_step pr syms) r"
  shows "isr r \<subseteq> isr u"
  using assms(1)
proof (induction rule: rtranclp_induct)
  case (step u v)
  have "run_inv syms c u" by (rule runs.reach_inv [OF reach_star [OF step(1) assms(2)]])
  then show ?case using isr_step step by blast
qed simp

text \<open>The devices can be served.\<close>

lemma isr_same:
  "r\<lparr>kst := s', ticks := n, isr := isr r\<rparr> = r\<lparr>kst := s', ticks := n\<rparr>"
  "(handled pr ext vec err f s' r)\<lparr>keys := n, isr := isr r\<rparr> = (handled pr ext vec err f s' r)\<lparr>keys := n\<rparr>"
  by (simp_all add: handled_def Let_def)

lemma handled_timer: "handled pr ext 0x20 err f s' r = r\<lparr>kst := s'\<rparr>"
  by (simp add: handled_def echo_def)

lemma run_tick:
  assumes "run_inv syms c r"
  shows "ticks r + 1 < 2 ^ 64 \<or> pr = Release \<longrightarrow> (\<exists>s'. irq pr syms 0x20 f (kst r) = Some (Done () s')
    \<and> env_step pr syms r (r\<lparr>kst := s', ticks := Suc (ticks r)\<rparr>))"
proof -
  have b: "booted syms (kst r)" and l: "linked syms" and n: "unat (TICKS (kst r)) = ticks r mod 2 ^ 64"
    using assms by (auto simp: run_inv_def)
  have i: "intr_flag (kst r)" using b by (simp add: booted_def)
  have a: "accepts (isr r) 0" "finite (isr r)" using assms by (auto simp: run_inv_def accepts_def intro: finite_subset)
  have "unat (TICKS (kst r)) + 1 < 2 ^ 64" if "ticks r + 1 < 2 ^ 64" using n that by simp
  then have "ticks r + 1 < 2 ^ 64 \<or> pr = Release \<longrightarrow> (\<exists>s'. irq pr syms 0x20 f (kst r) = Some (Done () s'))"
    using booted_irq(1) [OF b l] by (auto simp: timer_handler_run)
  moreover have "served (kst r) s' (insert 0 (isr r)) = isr r" if "irq pr syms 0x20 f (kst r) = Some (Done () s')" for s'
    using that booted_irq(1) [OF b l] served_simps(2) [of s' "kst r" "[]", OF _ _ a]
    by (auto simp: timer_handler_run split: if_splits)
  ultimately show ?thesis using env_step.timer [OF i a(1)] isr_same handled_timer by metis
qed

lemma run_key:
  assumes "run_inv syms c r"
  shows "if dev (kst r) (io (kst r)) 0x60 = 0
    then irq pr syms 0x21 f (kst r)
      = Some (Panicked (PanicMsg ''Error Scancode 0x00'') ((kst r)\<lparr>io := io (kst r) @ [In 0x60 0]\<rparr>))
    else \<exists>s'. irq pr syms 0x21 f (kst r) = Some (Done () s')
      \<and> env_step pr syms r ((handled pr True 0x21 0 f s' r)\<lparr>keys := Suc (keys r)\<rparr>)"
proof -
  have b: "booted syms (kst r)" and l: "linked syms" using assms by (auto simp: run_inv_def)
  have up: "screen_up (kst r)" and i: "intr_flag (kst r)" using b by (simp_all add: booted_def)
  have a: "accepts (isr r) 1" "finite (isr r)" using assms by (auto simp: run_inv_def accepts_def intro: finite_subset)
  show ?thesis
  proof (cases "dev (kst r) (io (kst r)) 0x60 = 0")
    case True
    then show ?thesis using keyboard_handler_run(2) [OF up, of pr f] booted_irq(2) [OF b l, of pr f] by simp
  next
    case False
    then obtain s1 where s1: "irq pr syms 0x21 f (kst r) = Some (Done () (s1\<lparr>io := io s1 @ [Out 0x20 0x20]\<rparr>))" "io_frame (kst r) s1"
      using keyboard_handler_run(1) [OF up, of pr f] booted_irq(2) [OF b l, of pr f] by auto
    obtain q where q: "io s1 = io (kst r) @ q" "quiet q" using io_frame_simps(9) [OF s1(2)] by blast
    have "served (kst r) (s1\<lparr>io := io s1 @ [Out 0x20 0x20]\<rparr>) (insert 1 (isr r)) = isr r"
      using served_simps(2) [of "s1\<lparr>io := io s1 @ [Out 0x20 0x20]\<rparr>" "kst r" q, OF _ q(2) a] by (simp add: q(1))
    then show ?thesis using False env_step.keyboard [OF i a(1) s1(1)] s1(1) isr_same(2) by auto
  qed
qed

text \<open>Live blocks are blocks of a heap.\<close>

lemma run_inv_heap:
  assumes "run_inv syms c r" "blocks r \<noteq> {}"
  shows "heap_ready (kst r) (blocks r)"
  using assms by (cases "at_pc r") (auto simp: run_inv_def early_def)

section \<open>Sample runs\<close>

text \<open>A timer interrupt right after interrupts are enabled.\<close>

lemma sample_tick:
  "\<exists>r c. reach (run_init Debug sample_symbols c) (run_step Debug sample_symbols) r \<and> at_pc r = Start \<and> todo r = [] \<and> ticks r = 1 \<and> keys r = 0
    \<and> isr r = {}"
proof -
  obtain s where s: "boot_setup Debug sample_symbols sample_boot = Some (Done () s)" "booted sample_symbols s" "TICKS s = 0"
    using boot_setup_run [OF sample_boot_ready, of Debug sample_symbols] by blast
  let ?r = "run_start s" and ?c = "eoi_count (io s)"
  have r: "reach (run_init Debug sample_symbols ?c) (run_step Debug sample_symbols) ?r"
    by (rule reach_init) (use s(1) sample_boot_ready sample_linked in \<open>auto simp: run_init_def run_start_def\<close>)
  have i: "intr_flag (kst ?r)" using s(2) by (simp add: booted_def run_start_def)
  have acc: "accepts (isr ?r) 0" by (simp add: accepts_def run_start_def)
  have t: "irq Debug sample_symbols 0x20 sample_frame (kst ?r)
      = Some (Done () (s\<lparr>TICKS := TICKS s + 1, io := io s @ [Out 0x20 0x20]\<rparr>))"
    using booted_irq(1) [OF s(2) sample_linked] s(3) by (simp add: timer_handler_run run_start_def)
  show ?thesis
    using reach_step [OF r environment [OF env_step.timer [OF i acc t]]]
      served_simps(2) [of "s\<lparr>TICKS := TICKS s + 1, io := io s @ [Out 0x20 0x20]\<rparr>" s "[]", OF _ _ acc]
    by (intro exI) (rule conjI, assumption, simp add: run_start_def)
qed

text \<open>An interrupt of a device without a handler, the disk's, after the timer's.\<close>

lemma sample_stray:
  "\<exists>r c. reach (run_init Debug sample_symbols c) (run_step Debug sample_symbols) r \<and> ticks r = 1 \<and> isr r = {2}"
proof -
  obtain r c where r: "reach (run_init Debug sample_symbols c) (run_step Debug sample_symbols) r" "ticks r = 1" "isr r = {}"
    using sample_tick by metis
  have b: "booted sample_symbols (kst r)" using runs.reach_inv [OF r(1)] by (simp add: run_inv_def)
  obtain s' where s': "println Debug (reported True 0x2e 0 sample_frame) (kst r) = Some (Done () s')" "io_frame (kst r) s'"
    using booted_println [OF b] by blast
  have i: "irq Debug sample_symbols 0x2e sample_frame (kst r) = Some (Done () s')"
    using deliver_reports [OF b sample_linked, of "0x2e" True Debug 0 sample_frame] s'(1) by (simp add: irq_def double_faults_def)
  have "env_step Debug sample_symbols r ((handled Debug True 0x2e 0 sample_frame s' r)\<lparr>isr := served (kst r) s' (insert (line_of 0x2e) (isr r))\<rparr>)"
    using b r(3) by (intro env_step.stray [OF _ _ _ _ i]) (simp_all add: booted_def accepts_def)
  from reach_step [OF r(1) environment [OF this]] r(2,3) io_frame_served [OF s'(2)]
  show ?thesis by (intro exI) (rule conjI, assumption, simp add: line_of_def)
qed

text \<open>The same run when the box has been made.\<close>

lemma sample_boxed:
  "\<exists>r c p. reach (run_init Debug sample_symbols c) (run_step Debug sample_symbols) r \<and> at_pc r = Showing p
    \<and> blocks r = {(p, 4)} \<and> ticks r = 1"
proof -
  obtain r c where r: "reach (run_init Debug sample_symbols c) (run_step Debug sample_symbols) r" "at_pc r = Start" "todo r = []" "ticks r = 1"
    using sample_tick by metis
  obtain u where u: "(own_step Debug)\<^sup>*\<^sup>* r u" "run_inv sample_symbols c u" "todo u = []" "at_pc u = Boxing"
    using start_to_boxing [OF runs.reach_inv [OF r(1)] r(3,2), of Debug] by blast
  obtain v p where v: "(own_step Debug)\<^sup>*\<^sup>* u v" "run_inv sample_symbols c v" "todo v = []" "at_pc v = Showing p"
    using boxing_to_showing [OF u(2-4), of Debug] by blast
  note uv = rtranclp_trans [OF u(1) v(1)]
  have "reach (run_init Debug sample_symbols c) (run_step Debug sample_symbols) v"
    by (rule reach_star [OF own_steps_run [OF uv] r(1)])
  moreover have "blocks v = {(p, 4)}" using v(2,4) by (auto simp: run_inv_def)
  ultimately show ?thesis using v(4) own_steps_ticks [OF uv] r(4) by metis
qed

end
