(* ===== verification/RondPaging.thy ===== *)
theory RondPaging
  imports RondStart RondRun
begin

text \<open>
  The kernel on the page tables of the loader: which of the memory it manages is mapped, that the
  segments are flat, and that a running kernel leaves the tables, and with them the translation of
  every address they are meant for, as they are.
\<close>

section \<open>Managed memory\<close>

text \<open>
  The allocator as the kernel constructs it on a map: the pages it manages end at 1 MiB plus the
  usable memory, rounded down to pages.
\<close>

lemma allocator_extent:
  assumes "map_in_memory ls (s :: kernel)" "map_ok ls"
  defines "n \<equiv> card (usable_bytes ls) mod 2 ^ 32 div 4096"
  obtains pa s' where "page_allocator_default pr s = Some (Done pa s')" "wf_pa pa"
    "unat (base_addr pa) = 0xc0100000 + 4096 * bitmap_pages n" "page_count pa = managed_pages n"
    "\<And>i. i < page_count pa \<Longrightarrow> unat (page_addr pa i) = 0xc0100000 + 4096 * (bitmap_pages n + i)"
    "\<And>i. i < page_count pa \<Longrightarrow> bitmap_pages n + i < n"
proof -
  obtain v where v: "available_mem_size pr s = Some (Done v s)" "unat v = card (usable_bytes ls)"
    using available_mem_size_card [OF map_in_memory_read [OF assms(1)]] assms(2) by (auto simp: map_ok_def)
  have c: "unat (ucast v :: usize) div 4096 = n" by (simp add: unat_ucast_mod v(2) n_def)
  obtain pa s' where pa: "page_allocator_default pr s = Some (Done pa s')" "data_ptr (bitmap pa) = 0xc0100000"
      "page_count pa = managed_pages n" "unat (base_addr pa) = 0xc0100000 + 4096 * bitmap_pages n"
    using page_allocator_default_run [OF v(1)] unfolding c by blast
  have "n \<le> 0x3ff00" using assms(2) unfolding n_def map_ok_def by linarith
  then have wf: "wf_pa pa" using fresh_allocator_wf [OF pa(2-4)] by simp
  show thesis
    by (rule that [OF pa(1) wf pa(4,3)])
      (use page_addr_arith(3) [OF wf] pa(3,4) in \<open>simp_all add: managed_pages_def less_diff_conv\<close>)
qed

text \<open>
  C23: The managed memory and the page tables. On the map the loader hands over, the allocator of
  the kernel is constructed, and as long as 1 MiB plus the usable memory ends within the first 64 MiB
  every byte of every page it manages is mapped, to the physical memory at the same distance from
  0 as the page is from \<open>KERNEL_BASE\<close>. With 255 MiB and a page of usable memory or more, it manages
  pages that are not mapped at all, so that using them faults.
\<close>

theorem managed_memory_mapped:
  assumes "bootable fw k bin ls" and "map_ok ls" and "run_loader fw k g s0 = Some (Done e l)" and "entered pl l s"
  shows "\<exists>pa s'. page_allocator_default pr s = Some (Done pa s')
    \<and> (card (usable_bytes ls) mod 2 ^ 32 < 0x3f01000 \<longrightarrow> (\<forall>i < page_count pa. \<forall>a. unat (page_addr pa i) \<le> unat a \<longrightarrow>
        unat a < unat (page_addr pa i) + 4096 \<longrightarrow> translate (mem l) (cr3_val l) a = Some (a - KERNEL_BASE)))
    \<and> (0xff01000 \<le> card (usable_bytes ls) mod 2 ^ 32 \<longrightarrow> (\<exists>i < page_count pa. translate (mem l) (cr3_val l) (page_addr pa i) = None))"
proof -
  have l: "mem l = loaded_mem k bin ls (mem s0)" "cr3_val l = 0xf000"
    using run_loader_result [OF assms(1), of g s0] assms(3) by auto
  have t: "tables_in (mem l)" unfolding l(1) by (rule loaded_tables)
  define n where "n = card (usable_bytes ls) mod 2 ^ 32 div 4096"
  obtain pa s' where pa: "page_allocator_default pr s = Some (Done pa s')" "page_count pa = managed_pages n"
      "\<And>i. i < page_count pa \<Longrightarrow> unat (page_addr pa i) = 0xc0100000 + 4096 * (bitmap_pages n + i)"
      "\<And>i. i < page_count pa \<Longrightarrow> bitmap_pages n + i < n"
    using allocator_extent [OF entered_map(1) [OF assms(1) l assms(4)] assms(2), of pr] unfolding n_def by metis
  have low: "translate (mem l) (cr3_val l) a = Some (a - KERNEL_BASE)"
    if "n \<le> 0x3f00" "i < page_count pa" "unat (page_addr pa i) \<le> unat a" "unat a < unat (page_addr pa i) + 4096" for i a
  proof -
    have "unat (page_addr pa i) + 4096 \<le> 0xc4000000" "0xc0000000 \<le> unat (page_addr pa i)"
      using pa(4) [OF that(2)] that(1) unfolding pa(3) [OF that(2)] by simp_all
    then have "unat a < 0xc4000000" "0xc0000000 \<le> unat a" using that(3,4) by linarith+
    then show ?thesis using translate_kernel [OF t] l(2) by simp
  qed
  have high: "\<exists>i < page_count pa. translate (mem l) (cr3_val l) (page_addr pa i) = None" if "0xff01 \<le> n"
  proof -
    have b: "bitmap_pages n < n" using that unfolding bitmap_pages_def by linarith
    then have i: "n - bitmap_pages n - 1 < page_count pa" unfolding pa(2) managed_pages_def by simp
    have "0xd0000000 \<le> unat (page_addr pa (n - bitmap_pages n - 1))" using pa(3) [OF i] that b by simp
    then have "translate (mem l) (cr3_val l) (page_addr pa (n - bitmap_pages n - 1)) = None"
      using translate_none [OF t] l(2) by simp
    then show ?thesis using i by blast
  qed
  have nb: "card (usable_bytes ls) mod 2 ^ 32 < 0x3f01000 \<Longrightarrow> n \<le> 0x3f00" "0xff01000 \<le> card (usable_bytes ls) mod 2 ^ 32 \<Longrightarrow> 0xff01 \<le> n"
    unfolding n_def by (simp_all add: less_eq_div_iff_mult_less_eq div_less_iff_less_mult flip: less_Suc_eq_le)
  show ?thesis using pa(1) low high nb by blast
qed

lemma sample_entered:
  "\<exists>e l s. run_loader sample_firmware 52 0x1a0 sample_loader = Some (Done e l) \<and> entered sample_places l s
     \<and> eventually_ready (dev s) 0x3fd OUTPUT_EMPTY"
  using run_loader_result [OF sample_bootable, of "0x1a0" sample_loader] entry_state_entered by blast

theorem managed_memory_mapped_witness:
  "\<exists>e l s pa s'. run_loader sample_firmware 52 0x1a0 sample_loader = Some (Done e l) \<and> entered sample_places l s
     \<and> page_allocator_default Debug s = Some (Done pa s') \<and> (\<forall>i < page_count pa. \<forall>a. unat (page_addr pa i) \<le> unat a \<longrightarrow>
        unat a < unat (page_addr pa i) + 4096 \<longrightarrow> translate (mem l) (cr3_val l) a = Some (a - KERNEL_BASE))"
proof -
  obtain e l s where l: "run_loader sample_firmware 52 0x1a0 sample_loader = Some (Done e l)" "entered sample_places l s"
    using sample_entered by blast
  have "card (usable_bytes sample_map) mod 2 ^ 32 < 0x3f01000" by (simp add: sample_usable)
  then show ?thesis using managed_memory_mapped [OF sample_bootable sample_map_ok l, of Debug] l by blast
qed

section \<open>The image under the kernel\<close>

lemma entered_byte:
  assumes "mem l = loaded_mem k bin ls m" "cr3_val l = 0xf000" "length ls \<le> 178" "entered pl l s" "0x1000 \<le> i" "i < 0x1000000"
  shows "ram s (0xc0020000 + of_nat i) = chunks_read (disk_img bin) 0 (LOADER_DISK_TIME k) m (0x20000 + of_nat i)"
  using kernel_view_byte [OF assms(1-3,5,6)] assms(4) by (simp add: entered_def)

text \<open>
  C14: What the kernel is made of. Entered after the loader, the kernel finds its own file byte for byte at 0xc0021000,
  as a flat copy (so that the file offsets and not the section headers decide what lies where), except for the last block of
  every 64 KiB of the image, where it finds what memory held at power on. Right behind the
  file lies the mark of the loader. So nothing has been cleared for \<open>.bss\<close>, to which the link script gives the addresses
  behind \<open>.rodata\<close>: it holds what comes there in the file.
\<close>

theorem kernel_sees_image:
  assumes "bootable fw k bin ls" and "run_loader fw k g s0 = Some (Done e l)" and "entered pl l s"
  shows "(\<forall>i < k. ram s (0xc0021000 + of_nat i)
      = (if (0x1000 + i) mod 65536 < 127 * 512 then bin ! (0x1000 + i) else mem s0 (0x21000 + of_nat i)))
    \<and> read_u32 (ram s) (0xc0021000 + of_nat k) = END_CHECK"
proof -
  note b = assms(1) [unfolded bootable_def]
  have im: "loader_image k bin" and len: "length ls \<le> 178" using b by simp_all
  have l: "mem l = loaded_mem k bin ls (mem s0)" "cr3_val l = 0xf000"
    using run_loader_result [OF assms(1), of g s0] assms(2) by auto
  have k: "k \<le> 0x7f000" "length bin = 0x1000 + k + 4" using im by (simp_all add: loader_image_def LOADER_END_def)
  have top: "0x1000 + k < 65536 * LOADER_DISK_TIME k" using image_sizes(3) [OF im] b by (simp add: LOADER_END_def)
  have seen: "ram s (0xc0020000 + of_nat i) = (if i mod 65536 < 127 * 512 then disk_img bin ! i else mem s0 (0x20000 + of_nat i))"
    if "0x1000 \<le> i" "i < 65536 * LOADER_DISK_TIME k" for i
  proof -
    have i: "i < 0x1000000" using that(2) image_sizes(2) [OF im] by linarith
    then have "unat (of_nat i :: u32) = i" by (simp add: unat_of_nat_bounded)
    then show ?thesis using entered_byte [OF l len assms(3) that(1) i] that(2) by (simp add: chunks_read_def)
  qed
  have "ram s (0xc0021000 + of_nat i) = (if (0x1000 + i) mod 65536 < 127 * 512 then bin ! (0x1000 + i) else mem s0 (0x21000 + of_nat i))"
    if "i < k" for i
  proof -
    have "disk_img bin ! (0x1000 + i) = bin ! (0x1000 + i)" using that k(2) by (simp add: disk_img_def Let_def nth_append)
    then show ?thesis using seen [of "0x1000 + i"] that top by simp
  qed
  moreover have "read_u32 (ram s) (0xc0021000 + of_nat k) = END_CHECK"
  proof -
    have u: "unat (0x21000 + of_nat k :: u32) = 0x21000 + k" using k(1) by (simp add: unat_plus_bounded unat_of_nat_bounded)
    have "ram_slice (ram s) (0xc0000000 + (0x21000 + of_nat k)) 4 = ram_slice (mem l) (0x21000 + of_nat k) 4"
      using kernel_view_slice [OF _ l(2), of "0x21000 + of_nat k" 4] loaded_tables u k(1) assms(3) by (simp add: l(1) entered_def)
    also have "\<dots> = ram_slice (chunks_read (disk_img bin) 0 (LOADER_DISK_TIME k) (mem s0)) (0x21000 + of_nat k) 4"
      unfolding l(1) by (intro slice_cong loaded_image_part len) (use above [of "0x21000 + of_nat k" 4] u k(1) in force)+
    finally show ?thesis
      using mark_read [OF im, of "mem s0"] b by (simp add: read_u32_def LOADER_END_def)
  qed
  ultimately show ?thesis by blast
qed

theorem kernel_sees_image_witness:
  "\<exists>e l s. run_loader sample_firmware 52 0x1a0 sample_loader = Some (Done e l) \<and> entered sample_places l s
     \<and> ram s 0xc0021000 = 0x7f \<and> ram s 0xc0021001 = 0x45 \<and> read_u32 (ram s) 0xc0021034 = END_CHECK"
proof -
  obtain e l s where l: "run_loader sample_firmware 52 0x1a0 sample_loader = Some (Done e l)" "entered sample_places l s"
    using sample_entered by blast
  note sees = kernel_sees_image [OF sample_bootable l]
  have "sample_bin ! (0x1000 + 0) = 0x7f" "sample_bin ! (0x1000 + 1) = 0x45"
    by (simp_all add: sample_bin_def gdt_def nth_append)
  then show ?thesis
    using conjunct1 [OF sees, THEN spec, of 0] conjunct1 [OF sees, THEN spec, of 1] conjunct2 [OF sees] l by auto
qed

section \<open>Segments\<close>

text \<open>
  The processor's side: a segment descriptor, and how the one of a selector is fetched, through the page
  tables, from the table the descriptor table register points to.
\<close>

record segment =
  seg_base :: u32
  seg_bytes :: nat
  seg_code :: bool
  seg_access :: bool
  seg_ring :: nat
  seg_present :: bool
  seg_32 :: bool

definition decode_segment :: "u64 \<Rightarrow> segment" where
  "decode_segment d =
     (let lim = d AND 0xffff OR (drop_bit 32 d AND 0xf0000) in
      \<lparr>seg_base = ucast ((drop_bit 16 d AND 0xffffff) OR (drop_bit 32 d AND 0xff000000)),
       seg_bytes = (if bit d 55 then 4096 else 1) * (unat lim + 1),
       seg_code = bit d 43, seg_access = bit d 41, seg_ring = unat (drop_bit 45 d AND 3),
       seg_present = (bit d 47 \<and> bit d 44), seg_32 = bit d 54\<rparr>)"

definition segment_of :: "loader \<Rightarrow> u16 \<Rightarrow> segment option" where
  "segment_of l sel =
     (let off = sel AND 0xfff8 in
      if gdt_limit l < off + 7 then None
      else Some (decode_segment (word_of_bytes (ram_slice (\<lambda>a. case translate (mem l) (cr3_val l) a of Some p \<Rightarrow> mem l p | None \<Rightarrow> 0)
        (gdt_base l + ucast off) 8))))"

definition flat_segment :: "bool \<Rightarrow> segment" where
  "flat_segment cd = \<lparr>seg_base = 0, seg_bytes = 2 ^ 32, seg_code = cd, seg_access = True, seg_ring = 0, seg_present = True, seg_32 = True\<rparr>"

lemma gdt_flat: "decode_segment (gdt ! 1) = flat_segment True" "decode_segment (gdt ! 2) = flat_segment False"
  by (simp_all add: decode_segment_def gdt_def flat_segment_def)

text \<open>The table is part of the first sector of the image.\<close>

definition gdt_in_image :: "u32 \<Rightarrow> u8 list \<Rightarrow> bool" where
  "gdt_in_image g bin \<longleftrightarrow> unat g + 24 \<le> 510 \<and> take 24 (drop (unat g) bin) = concat (map (bytes_of_word 8) gdt)"

lemma loaded_first_sector:
  assumes "0x20000 \<le> unat x" "unat x < 0x20200" "length ls \<le> 178"
  shows "loaded_mem k bin ls m x = chunks_read (disk_img bin) 0 (LOADER_DISK_TIME k) m x"
proof -
  have "unat (x - 0x20208) = unat x + 2 ^ 32 - 0x20208" "unat (x - 0x20204) = unat x + 2 ^ 32 - 0x20204" "unat (x - 0x20200) = unat x + 2 ^ 32 - 0x20200"
    using assms(1,2) by (simp_all add: unat_sub_if' word_le_nat_alt)
  then have "\<not> unat (x - 0x20208) < 20 * length ls" "\<not> unat (x - 0x20204) < 4" "4 \<le> unat (x - 0x20200)" using assms by simp_all
  then show ?thesis
    using assms(1) table_memory_outside [of x]
    by (simp add: loaded_mem_def store_apart) (simp add: map_mem_def store_u32_def store_bytes_def length_map_bytes)
qed

text \<open>
  C24: Segments. When the first sector holds the global descriptor table, the registers and the memory the loader leaves
  make the processor find, through the page tables, a present 32-bit ring 0 segment over all 4 GiB
  for both selectors it loads: a readable code segment and a writable data segment. So offsets
  and linear addresses agree for everything the kernel does.
\<close>

theorem segments_flat:
  assumes "bootable fw k bin ls" and "gdt_in_image g bin" and "run_loader fw k g s0 = Some (Done e l)"
  shows "segment_of l SELECTOR_CODE_SEG = Some (flat_segment True) \<and> segment_of l SELECTOR_DATA_SEG = Some (flat_segment False)"
proof -
  have l: "mem l = loaded_mem k bin ls (mem s0)" "cr3_val l = 0xf000" "gdt_limit l = 23" "gdt_base l = g + 0x20000"
    using run_loader_result [OF assms(1), of g s0] assms(3) by auto
  have t: "tables_in (mem l)" unfolding l(1) by (rule loaded_tables)
  note b = assms(1) [unfolded bootable_def] and gd = assms(2) [unfolded gdt_in_image_def]
  let ?M = "\<lambda>a. case translate (mem l) (cr3_val l) a of Some p \<Rightarrow> mem l p | None \<Rightarrow> 0"
  let ?C = "chunks_read (disk_img bin) 0 (LOADER_DISK_TIME k) (mem s0)"
  have "?M a = ?C a" if "0x20000 \<le> unat a" "unat a < 0x20200" for a
  proof -
    have "translate (mem l) (cr3_val l) a = Some a"
      using translate_first(1) [OF t, of a] page_lookup_mapped [OF t, of "unat a"] that l(2) by simp
    then show ?thesis using that b by (simp add: l(1) loaded_first_sector)
  qed
  note same = this
  have top: "unat g + i < 65536 * LOADER_DISK_TIME k" if "i \<le> 16" for i
    using that gd b image_sizes(1) [of k bin] by linarith
  from same have "ram_slice ?M (0x20000 + of_nat (unat g + i)) 8 = ram_slice ?C (0x20000 + of_nat (unat g + i)) 8" if "i \<le> 16" for i
    using that gd above [of "0x20000 + of_nat (unat g + i)" 8] unat_of_nat_bounded [where 'w = 32, of "unat g + i"]
    by (intro slice_cong) (force simp: unat_plus_bounded)+
  moreover have "ram_slice ?C (0x20000 + of_nat (unat g + i)) 8 = take 8 (drop i (take 24 (drop (unat g) bin)))" if "i \<le> 16" for i
  proof -
    have "ram_slice ?C (0x20000 + of_nat (unat g + i)) 8 = take 8 (drop (unat g + i) (disk_img bin))"
      by (rule chunks_read_slice) (use that gd b top [OF that] image_sizes [of k bin] length_disk_img in simp_all)
    also have "\<dots> = take 8 (drop (unat g + i) bin)"
      using that gd b by (intro disk_bytes) (simp add: loader_image_def LOADER_END_def)
    finally show ?thesis using that by (simp add: drop_take add.commute)
  qed
  ultimately have sl: "ram_slice ?M (g + 0x20000 + of_nat i) 8 = take 8 (drop i (concat (map (bytes_of_word 8) gdt)))" if "i \<le> 16" for i
    using that gd by (simp add: algebra_simps)
  have w: "word_of_bytes (take 8 (drop 8 (concat (map (bytes_of_word 8) gdt)))) = gdt ! 1"
    "word_of_bytes (take 8 (drop 16 (concat (map (bytes_of_word 8) gdt)))) = gdt ! 2"
    by (simp_all add: gdt_def word_of_bytes_of_word)
  have "(8 AND 0xfff8 :: u16) = 8" "(16 AND 0xfff8 :: u16) = 16" by simp_all
  then show ?thesis
    using sl [of 8] sl [of 16] w gdt_flat by (simp add: segment_of_def SELECTOR_CODE_SEG_def SELECTOR_DATA_SEG_def l(3,4))
qed

theorem segments_flat_witness:
  "\<exists>e l. run_loader sample_firmware 52 0x1a0 sample_loader = Some (Done e l) \<and> segment_of l SELECTOR_CODE_SEG = Some (flat_segment True)
     \<and> segment_of l SELECTOR_DATA_SEG = Some (flat_segment False)"
proof -
  obtain e l where l: "run_loader sample_firmware 52 0x1a0 sample_loader = Some (Done e l)" using sample_entered by blast
  have "gdt_in_image 0x1a0 sample_bin" by (simp add: gdt_in_image_def sample_bin_def gdt_def)
  from segments_flat [OF sample_bootable this l] show ?thesis using l by blast
qed

section \<open>The tables of a running kernel\<close>

text \<open>Physical memory under the kernel's addresses.\<close>

definition physical :: "kernel \<Rightarrow> u32 \<Rightarrow> u8" where
  "physical s p = ram s (KERNEL_BASE + p)"

lemma low_kept_physical:
  assumes "low_kept s s'" "unat p < 0xb8000"
  shows "physical s' p = physical s p"
proof -
  have "unat (KERNEL_BASE + p) = 0xc0000000 + unat p" using assms(2) by (simp add: KERNEL_BASE_def unat_plus_bounded)
  moreover from this have "4000 \<le> unat (KERNEL_BASE + p - VGA_BUFFER_ADDR)"
    using assms(2) by (simp add: unat_sub_if' word_le_nat_alt VGA_BUFFER_ADDR_def)
  ultimately show ?thesis using assms by (simp add: low_kept_def physical_def)
qed

text \<open>
  The statics of the kernel are fields of its state, apart from \<open>ram\<close>; on the machine they are bytes of the image. So the state does not say what
  physical memory holds between 0x21000, where the kernel's file begins, and 0xa0000, below which it ends; it says what
  the rest holds.
\<close>

definition memory_of :: "kernel \<Rightarrow> (u32 \<Rightarrow> u8) \<Rightarrow> bool" where
  "memory_of s m \<longleftrightarrow> (\<forall>p. unat p < 0x21000 \<or> 0xa0000 \<le> unat p \<longrightarrow> m p = physical s p)"

text \<open>The addresses from 64 to 256 MiB, in both views: their entries lie behind the 16 page tables, in the image.\<close>

definition in_window :: "u32 \<Rightarrow> bool" where
  "in_window va \<longleftrightarrow> 0x4000000 \<le> unat va \<and> unat va < 0x10000000 \<or> 0xc4000000 \<le> unat va \<and> unat va < 0xd0000000"

text \<open>All others are translated by the tables alone.\<close>

lemma translate_same:
  assumes "tables_in m" "tables_in m'" "\<not> in_window va"
  shows "translate m' 0xf000 va = translate m 0xf000 va"
proof -
  consider "unat va < 0x4000000" | "0xc0000000 \<le> unat va" "unat va < 0xc4000000"
    | "0x10000000 \<le> unat va \<and> unat va < 0xc0000000 \<or> 0xd0000000 \<le> unat va"
    using assms(3) unfolding in_window_def by linarith
  then show ?thesis
  proof cases
    case 1
    then show ?thesis
      using translate_first(1) [OF assms(1), of va] translate_first(1) [OF assms(2), of va]
        page_lookup_mapped [OF assms(1), of "unat va"] page_lookup_mapped [OF assms(2), of "unat va"] by simp
  next
    case 2
    then show ?thesis using translate_kernel [OF assms(1)] translate_kernel [OF assms(2)] by simp
  next
    case 3
    then show ?thesis using translate_none [OF assms(1), of va] translate_none [OF assms(2), of va] by simp
  qed
qed

lemma run_step_low:
  assumes "run_inv syms c r" "run_step pr syms r r'"
  shows "low_kept (kst r) (kst r')"
proof -
  obtain ls where ls: "map_ok ls" "main_inv ls (at_pc r) (kst r) (blocks r)" and b: "booted syms (kst r)" "linked syms"
    and f: "finite (isr r)"
    using assms(1) by (auto simp: run_inv_def intro: finite_subset)
  show ?thesis
    using assms(2)
  proof cases
    case entry_point
    then show ?thesis
    proof cases
      case (next_byte c cs s')
      then show ?thesis using put_byte_keeps [OF b(1) ls(2) next_byte(3)] by simp
    next
      case (next_statement l q s')
      then show ?thesis using boot_next_keeps [OF b(1) ls(2,1), of pr] same_but_heap_low by auto
    qed
  next
    case (client s' B)
    then obtain pa where "data_ptr (bitmap pa) = 0xc0100000" "heap_inv pa (kst r, blocks r)"
      using ls(2) by (auto simp: heap_ready_def)
    then show ?thesis using same_but_heap_low [OF heap_step_same] client by auto
  next
    case environment
    then show ?thesis using env_step_frame [OF environment b f] by (simp add: env_frame_def low_kept_def)
  qed
qed

lemma run_low:
  assumes "reach (run_init pr syms c) (run_step pr syms) r0" "(run_step pr syms)\<^sup>*\<^sup>* r0 r"
  shows "low_kept (kst r0) (kst r)"
  using assms(2)
proof (induction rule: rtranclp_induct)
  case (step r r')
  have "run_inv syms c r" by (rule runs.reach_inv [OF reach_star [OF step(1) assms(1)]])
  then show ?case using low_kept_trans [OF step.IH] run_step_low step(2) by blast
qed simp

lemma entered_physical:
  assumes "tables_in (mem l)" "cr3_val l = 0xf000" "entered pl l s" "unat p < 0x4000000"
  shows "physical s p = mem l p"
proof -
  have "unat (KERNEL_BASE + p) = 0xc0000000 + unat p" using assms(4) by (simp add: KERNEL_BASE_def unat_plus_bounded)
  then have "translate (mem l) 0xf000 (KERNEL_BASE + p) = Some p" using translate_kernel [OF assms(1), of "KERNEL_BASE + p"] assms(4) by simp
  then show ?thesis using assms(2,3) by (simp add: physical_def entered_def kernel_view_def)
qed

lemma low_kept_boot_info:
  assumes "low_kept s s'" "map_in_memory ls s" "length ls \<le> 178"
  shows "map_in_memory ls s'" "get_kernel_size s = Some (Done n s) \<Longrightarrow> get_kernel_size s' = Some (Done n s')"
proof -
  have a: "ram s' x = ram s x" if "0xc0020200 \<le> unat x" "unat x < 0xc0021000" for x
  proof -
    have "4000 \<le> unat (x - VGA_BUFFER_ADDR)" using that by (simp add: unat_sub_if' word_le_nat_alt VGA_BUFFER_ADDR_def)
    then show ?thesis using assms(1) that by (simp add: low_kept_def)
  qed
  have slice: "ram_slice (ram s') b n = ram_slice (ram s) b n" if "0xc0020200 \<le> unat b" "unat b + n \<le> 0xc0021000" for b n
    by (rule slice_cong) (use a above [of b n] that in force)+
  show "map_in_memory ls s'"
    using assms(2,3) slice [of "0xc0020204" 4] slice [of "0xc0020208" "20 * length ls"] by (simp add: map_in_memory_def)
  show "get_kernel_size s' = Some (Done n s')" if "get_kernel_size s = Some (Done n s)"
    using that slice [of "0xc0020200" 4] by (simp add: get_kernel_size_def run_basic read_u32_def)
qed

text \<open>Once there is an allocator, its pages end where the memory of the map does.\<close>

definition managed_end :: "MemLayout list \<Rightarrow> nat" where
  "managed_end ls = 0xc0100000 + 4096 * (card (usable_bytes ls) mod 2 ^ 32 div 4096)"

definition extent_inv :: "MemLayout list \<Rightarrow> kernel \<Rightarrow> bool" where
  "extent_inv ls s \<longleftrightarrow> (\<forall>pa. PAGE_ALLOC s = ready pa \<longrightarrow> unat (base_addr pa) + 4096 * page_count pa = managed_end ls)"

lemma extent_inv_alloc: "extent_inv ls s \<Longrightarrow> PAGE_ALLOC s' = PAGE_ALLOC s \<Longrightarrow> extent_inv ls s'"
  by (simp add: extent_inv_def)

lemma extent_inv_early: "early ls' s B \<Longrightarrow> extent_inv ls s"
  by (simp add: extent_inv_def early_def UNINIT_def)

lemma boot_next_extent:
  assumes "main_inv ls' pc s B" "map_ok ls'" "map_in_memory ls s" "extent_inv ls s"
    and "boot_next pr pc s = Some (Done (l, q) s')"
  shows "extent_inv ls s'"
proof (cases pc)
  case Boxing
  then have e: "early ls' s B" using assms(1) by simp
  then have "ls' = ls" using map_in_memory_read [OF assms(3)] map_in_memory_read [of ls' s] by (simp add: early_def)
  then obtain pa m where "box_new_i32 pr 42 s = Some (Done (base_addr pa) (s\<lparr>ram := m, PAGE_ALLOC := ready pa\<rparr>))"
      "unat (base_addr pa) + 4096 * page_count pa = managed_end ls"
    using box_new_first [of s ls' pr 42] e assms(2) unfolding early_def managed_end_def by metis
  then show ?thesis using assms(5) Boxing by (auto simp: bnd_run run_basic extent_inv_def)
qed (use boot_next_same [OF assms(5)] assms(4) in auto)

lemma run_step_extent:
  assumes "run_inv syms c r" "run_step pr syms r r'" "map_in_memory ls (kst r)" "extent_inv ls (kst r)"
  shows "extent_inv ls (kst r')"
proof -
  obtain ls' where ls: "map_ok ls'" "main_inv ls' (at_pc r) (kst r) (blocks r)" and b: "booted syms (kst r)" "linked syms"
    and f: "finite (isr r)"
    using assms(1) by (auto simp: run_inv_def intro: finite_subset)
  show ?thesis
    using assms(2)
  proof cases
    case entry_point
    then show ?thesis
    proof cases
      case (next_byte c cs s')
      then show ?thesis using put_byte_keeps [OF b(1) ls(2) next_byte(3)] extent_inv_alloc [OF assms(4)] by simp
    next
      case (next_statement l q s')
      then show ?thesis using boot_next_extent [OF ls(2,1) assms(3,4)] by simp
    qed
  next
    case (client s' B)
    then obtain pa where "heap_inv pa (kst r, blocks r)" using ls(2) by (auto simp: heap_ready_def)
    from heap_step_ram [OF this client(4)] show ?thesis using client(1) assms(4) by (auto simp: extent_inv_def)
  next
    case environment
    then show ?thesis using env_step_frame [OF environment b f] assms(4) by (auto simp: env_frame_def intro: extent_inv_alloc)
  qed
qed

lemma run_extent:
  assumes "run_init pr syms c r0" "map_in_memory ls (kst r0)" "length ls \<le> 178" "(run_step pr syms)\<^sup>*\<^sup>* r0 r"
  shows "extent_inv ls (kst r)"
  using assms(4)
proof (induction rule: rtranclp_induct)
  case base
  have "at_pc r0 = Start" using assms(1) run_start_fields(2) unfolding run_init_def by blast
  then obtain ls' where "early ls' (kst r0) (blocks r0)" using runs.inv_init [OF assms(1)] unfolding run_inv_def by auto
  then show ?case by (rule extent_inv_early)
next
  case (step r r')
  note i = reach_init [of "run_init pr syms c", OF assms(1)]
  have "run_inv syms c r" by (rule runs.reach_inv [OF reach_star [OF step(1) i]])
  then show ?case by (rule run_step_extent [OF _ step(2) low_kept_boot_info(1) [OF run_low [OF i step(1)] assms(2,3)] step(3)])
qed

text \<open>Live blocks end where the managed pages do.\<close>

lemma blocks_below_end:
  assumes "run_inv syms c r" "extent_inv ls (kst r)" "(p, sz) \<in> blocks r"
  shows "0xc0100000 \<le> unat p" "unat p + unat sz \<le> managed_end ls"
proof -
  have h: "heap_ready (kst r) (blocks r)" using run_inv_heap [OF assms(1)] assms(3) by blast
  then obtain pa where pa: "heap_inv pa (kst r, blocks r)" by (auto simp: heap_ready_def)
  then have "PAGE_ALLOC (kst r) = ready pa" by (simp add: heap_inv_def heap_of_def)
  then have "unat (base_addr pa) + 4096 * page_count pa = managed_end ls" using assms(2) by (simp add: extent_inv_def)
  then show "unat p + unat sz \<le> managed_end ls" using heap_inv_blocks [OF pa assms(3)] by simp
  show "0xc0100000 \<le> unat p" by (rule heap_ready_high [OF h assms(3)])
qed

text \<open>
  C5: Memory while the kernel runs. Start from power on with an image the kernel can run from and no more usable memory than the loader
  maps (63 MiB and less than a page). Whatever the kernel does after it has enabled interrupts - the rest of its
  entry point, uses of the heap, interrupts and exceptions, in any order - and whatever its statics, which lie in the image,
  hold in memory: every address outside the windows from 64 to 256 MiB is
  translated exactly as the loader set it up, every byte of every live heap block is mapped to
  memory of its own above the first MiB, and the memory map and the image size are still there to be read. An address in the
  windows is translated by the word of memory, from 0x20000 on, that lies in the place of its entry: by
  bytes of the loader and of the kernel's image, whatever they are by then.
\<close>

theorem running_kernel_keeps_tables:
  assumes "bootable fw k bin ls" and "map_ok ls" and "card (usable_bytes ls) mod 2 ^ 32 < 0x3f01000" and "runnable pl k bin"
    and "run_loader fw k g s0 = Some (Done e l)" and "entered pl l s" and "eventually_ready (dev s) 0x3fd OUTPUT_EMPTY"
    and "boot_setup pr syms s = Some (Done () (kst r0))" and "run_init pr syms c r0" and "(run_step pr syms)\<^sup>*\<^sup>* r0 r"
    and "memory_of (kst r) m"
  shows "(\<not> in_window va \<longrightarrow> translate m PAGING_TABLE_ADDR va = translate (mem l) PAGING_TABLE_ADDR va)
    \<and> (unat w < 0x10000000 \<longrightarrow> translate m PAGING_TABLE_ADDR (KERNEL_BASE + w) = page_lookup m (unat w))
    \<and> (\<forall>(p, sz) \<in> blocks r. \<forall>a. unat p \<le> unat a \<longrightarrow> unat a < unat p + unat sz \<longrightarrow>
        translate m PAGING_TABLE_ADDR a = Some (a - KERNEL_BASE) \<and> 0x100000 \<le> unat (a - KERNEL_BASE))
    \<and> get_memlayout (kst r) = Some (Done ls (kst r)) \<and> get_kernel_size (kst r) = Some (Done (of_nat (LOADER_END k)) (kst r))"
proof -
  have l: "mem l = loaded_mem k bin ls (mem s0)" "cr3_val l = 0xf000"
    using run_loader_result [OF assms(1), of g s0] assms(5) by auto
  have t: "tables_in (mem l)" unfolding l(1) by (rule loaded_tables)
  note e = entered_map [OF assms(1) l assms(6)]
  have len: "length ls \<le> 178" using assms(1) by (simp add: bootable_def)
  have i: "reach (run_init pr syms c) (run_step pr syms) r0" using assms(9) by (rule reach_init)
  have k0: "low_kept s (kst r0)"
    using boot_setup_run [OF entered_ready [OF assms(1) l assms(4,6,2,7)], of pr syms] assms(8) by auto
  then have k: "low_kept s (kst r)" using run_low [OF i assms(10)] by (rule low_kept_trans)
  have ext: "extent_inv ls (kst r)" by (rule run_extent [OF assms(9) low_kept_boot_info(1) [OF k0 e(1) len] len assms(10)])
  have tm: "tables_in m"
    by (rule tables_in_frame [OF t])
      (use low_kept_physical [OF k] entered_physical [OF t l(2) assms(6)] assms(11) in \<open>simp add: memory_of_def\<close>)
  have blk: "translate m PAGING_TABLE_ADDR a = Some (a - KERNEL_BASE) \<and> 0x100000 \<le> unat (a - KERNEL_BASE)"
    if "(p, sz) \<in> blocks r" "unat p \<le> unat a" "unat a < unat p + unat sz" for p sz a
  proof -
    note bl = blocks_below_end [OF runs.reach_inv [OF reach_star [OF assms(10) i]] ext that(1)]
    have "managed_end ls \<le> 0xc4000000"
      using assms(3) div_less_iff_less_mult [of 4096 "card (usable_bytes ls) mod 2 ^ 32" "0x3f01"] unfolding managed_end_def by simp
    then have a: "0xc0100000 \<le> unat a" "unat a < 0xc4000000" using bl that(2,3) by linarith+
    then have "0x100000 \<le> unat (a - KERNEL_BASE)" by (simp add: KERNEL_BASE_def unat_sub_if' word_le_nat_alt)
    then show ?thesis using translate_kernel [OF tm, of a] a by (simp add: PAGING_TABLE_ADDR_def)
  qed
  have "\<not> in_window va \<longrightarrow> translate m PAGING_TABLE_ADDR va = translate (mem l) PAGING_TABLE_ADDR va"
    "unat w < 0x10000000 \<longrightarrow> translate m PAGING_TABLE_ADDR (KERNEL_BASE + w) = page_lookup m (unat w)"
    using translate_same [OF t tm] translate_first(2) [OF tm] by (simp_all add: PAGING_TABLE_ADDR_def)
  then show ?thesis using blk low_kept_boot_info [OF k e(1) len] e(2) map_in_memory_read by blast
qed

theorem running_kernel_keeps_tables_witness:
  "\<exists>e l s r r'. run_loader sample_firmware 52 0x1a0 sample_loader = Some (Done e l) \<and> entered sample_places l s
     \<and> boot_setup Debug sample_symbols s = Some (Done () (kst r)) \<and> (run_step Debug sample_symbols)\<^sup>*\<^sup>* r r' \<and> at_pc r' = Halted
     \<and> translate ((physical (kst r'))(0x21028 := 7)) PAGING_TABLE_ADDR 0xc00b8000 = translate (mem l) PAGING_TABLE_ADDR 0xc00b8000
     \<and> get_memlayout (kst r') = Some (Done sample_map (kst r'))"
proof -
  obtain e l s where l: "run_loader sample_firmware 52 0x1a0 sample_loader = Some (Done e l)" "entered sample_places l s"
      "eventually_ready (dev s) 0x3fd OUTPUT_EMPTY"
    using sample_entered by blast
  have r: "mem l = loaded_mem 52 sample_bin sample_map (mem sample_loader)" "cr3_val l = 0xf000"
    using run_loader_result [OF sample_bootable, of "0x1a0" sample_loader] l(1) by auto
  have b: "boot_ready sample_map s" by (rule entered_ready [OF sample_bootable r sample_runnable l(2) sample_map_ok l(3)])
  obtain s1 where s1: "boot_setup Debug sample_symbols s = Some (Done () s1)"
    using boot_setup_run [OF b, of Debug sample_symbols] by blast
  let ?r = "run_start s1" and ?c = "eoi_count (io s1)"
  have i: "run_init Debug sample_symbols ?c ?r" using b s1 sample_linked by (auto simp: run_init_def run_start_def)
  obtain r' where r': "(run_step Debug sample_symbols)\<^sup>*\<^sup>* ?r r'" "at_pc r' = Halted"
    using run_to_halt [OF runs.inv_init [OF i], of Debug] by metis
  have s1': "boot_setup Debug sample_symbols s = Some (Done () (kst ?r))" using s1 by (simp add: run_start_def)
  have c: "card (usable_bytes sample_map) mod 2 ^ 32 < 0x3f01000" by (simp add: sample_usable)
  have "memory_of (kst r') ((physical (kst r'))(0x21028 := 7))" by (auto simp: memory_of_def)
  note keeps = running_kernel_keeps_tables [OF sample_bootable sample_map_ok c sample_runnable l s1' i r'(1) this, of "0xc00b8000"]
  have "\<not> in_window 0xc00b8000" by (simp add: in_window_def)
  then show ?thesis using keeps l s1' r' by blast
qed

end
