(* ===== verification/RondOutput.thy ===== *)
theory RondOutput
  imports RondRun
begin

text \<open>
  What booting shows: the text on the screen and on the serial line, as a function of the boot
  information, and what is on the screen while interrupts and exceptions print between its bytes.
\<close>

section \<open>Text on the screen\<close>

text \<open>From \<open>s\<close> to \<open>s'\<close>, exactly the bytes \<open>bs\<close> have been put on the screen.\<close>

definition displays :: "kernel \<Rightarrow> u8 list \<Rightarrow> kernel \<Rightarrow> bool" where
  "displays s bs s' \<longleftrightarrow> screen_up s' \<and> screen_attr s' = screen_attr s
     \<and> screen_state s' = t_puts (screen_attr s) bs (screen_state s)"

lemma displays_up: "displays s bs s' \<Longrightarrow> screen_up s'"
  by (simp add: displays_def)

lemma displays_append: "displays s bs s' \<Longrightarrow> displays s' cs s'' \<Longrightarrow> displays s (bs @ cs) s''"
  by (simp add: displays_def t_puts_def)

text \<open>Whatever leaves the screen alone.\<close>

lemma displays_same:
  assumes "screen_up s" "VGA_BUFFER s' = VGA_BUFFER s" "\<And>k. k < 4000 \<Longrightarrow> ram s' (VGA_BUFFER_ADDR + of_nat k) = ram s (VGA_BUFFER_ADDR + of_nat k)"
  shows "displays s [] s'"
proof -
  have "screen s' = screen s" using assms(3) by (rule screen_same)
  then show ?thesis using assms(1,2) by (simp add: displays_def screen_up_def screen_attr_def screen_state_def terminal_of_def)
qed

lemma println_displays:
  assumes "screen_up s"
  shows "\<exists>s'. println pr args s = Some (Done () s') \<and> displays s (line_bytes args) s' \<and> io_frame s s'"
proof -
  obtain v where v: "VGA_BUFFER s = ready v" "vga_inv v" using assms by (auto simp: screen_up_def)
  obtain v' s1 where w: "vga_print pr (args @ [[CHR 0x0A]]) s = Some (Done () (s1\<lparr>VGA_BUFFER := ready v'\<rparr>))" "vga_frame s s1" "vga_inv v'"
      "cur_color v' = cur_color v" "terminal_of v' s1 = t_puts (cur_color v) (line_bytes args) (terminal_of v s)"
    using vga_print_run [OF v, of pr "args @ [[CHR 0x0A]]"] unfolding line_bytes_def by blast
  then have "displays s (line_bytes args) (s1\<lparr>VGA_BUFFER := ready v'\<rparr>)"
    using v(1) screen_cong [of "s1\<lparr>VGA_BUFFER := ready v'\<rparr>" s1]
    by (simp add: displays_def screen_up_def screen_attr_def screen_state_def terminal_of_def)
  then show ?thesis using w(1) vga_frame_io_frame [OF w(2)] unfolding println_def by blast
qed

section \<open>The lines\<close>

text \<open>A line of the memory map, as it reads on the screen.\<close>

definition kind_text :: "u32 \<Rightarrow> string" where
  "kind_text k = [''?'', ''Usable'', ''Reserved'', ''ACPIReclaimableMemory'', ''ACPINVSMemory'', ''BadMemory''] ! unat k"

definition layout_text :: "MemLayout \<Rightarrow> string" where
  "layout_text l = ''MemLayout { addr: 0x'' @ show_hex (raw_addr l) @ '', len: 0x'' @ show_hex (raw_len l)
     @ '', kind: '' @ kind_text (raw_kind l) @ '' }''"

lemma layout_debug_text:
  assumes "1 \<le> unat (raw_kind l)" "unat (raw_kind l) \<le> 5"
  shows "layout_debug l s = Some (Done (layout_text l) s)"
  using kind_cases [OF assms]
  by (auto simp: layout_text_def kind_text_def layout_debug_def layout_kind_def layout_addr_def layout_len_def debug_struct_def bnd_run run_basic)

lemma print_map_displays:
  assumes "screen_up s" "known_kinds ls"
  shows "\<exists>s'. print_map pr ls s = Some (Done () s') \<and> displays s (concat (map (\<lambda>l. line_bytes [layout_text l]) ls)) s' \<and> io_frame s s'"
  using assms
proof (induction ls arbitrary: s)
  case Nil
  then show ?case using displays_same [of s s] by (simp add: print_map_def bnd_run run_basic)
next
  case (Cons l ls)
  obtain s1 where s1: "println pr [layout_text l] s = Some (Done () s1)" "displays s (line_bytes [layout_text l]) s1" "io_frame s s1"
    using println_displays [OF Cons.prems(1)] by blast
  have k: "known_kinds ls" and d: "layout_debug l s = Some (Done (layout_text l) s)"
    using Cons.prems(2) layout_debug_text [of l s] by (auto simp: known_kinds_def)
  obtain s2 where s2: "print_map pr ls s1 = Some (Done () s2)"
      "displays s1 (concat (map (\<lambda>l. line_bytes [layout_text l]) ls)) s2" "io_frame s1 s2"
    using Cons.IH [OF displays_up [OF s1(2)] k] by blast
  have "print_map pr (l # ls) s = Some (Done () s2)" by (simp add: print_map_Cons bnd_run andthen_run d s1(1) s2(1))
  then show ?case using displays_append [OF s1(2) s2(2)] io_frame_trans [OF s1(3) s2(3)] by auto
qed

text \<open>Everything the entry point prints.\<close>

definition boot_text :: "u32 \<Rightarrow> u64 \<Rightarrow> MemLayout list \<Rightarrow> usize \<Rightarrow> usize \<Rightarrow> u8 list" where
  "boot_text ks ms ls e p =
     line_bytes [''HELLO RondOS'']
     @ line_bytes [''Kernel Size '', show_dec (ks div 1024), '' KiB'']
     @ line_bytes [''Available Memory Size '', show_dec (ms div 1024), '' KiB'']
     @ concat (map (\<lambda>l. line_bytes [layout_text l]) ls)
     @ line_bytes [''esp page: '', show_hex (pg_round_down e)]
     @ line_bytes [show_dec (42 :: u32), '' at '', show_ptr p]"

section \<open>Booting\<close>

text \<open>The state in which the screen is first written to: cells as they are, column 0.\<close>

abbreviation blank_screen :: "kernel \<Rightarrow> kernel" where
  "blank_screen s \<equiv> s\<lparr>VGA_BUFFER := ready vga_new\<rparr>"

lemma kernel_size_frame:
  assumes "io_frame s s'" "get_kernel_size s = Some (Done ks s)"
  shows "get_kernel_size s' = Some (Done ks s')"
proof -
  have "ram s' (0xc0020200 + of_nat k) = ram s (0xc0020200 + of_nat k)" if "k < 4" for k
    by (rule io_frame_ram [OF assms(1) low_address]) (use that in simp)
  then have "ram_slice (ram s') 0xc0020200 4 = ram_slice (ram s) 0xc0020200 4" by (simp add: ram_slice_def)
  then show ?thesis using assms(2) by (simp add: get_kernel_size_def run_basic read_u32_def)
qed

lemma boot_setup_output:
  assumes "boot_ready ls s" "get_kernel_size s = Some (Done ks s)"
  shows "\<exists>s1 evs (ms :: u64) s8. serial_println pr [''RondOS> HELLO RondOS''] s = Some (Done () s1)
    \<and> io s1 = io s @ map (\<lambda>(p, d). Out p d) serial_setup @ evs
    \<and> transmits 0x3f8 (concat (map wire (line_bytes [''RondOS> HELLO RondOS'']))) evs \<and> boot_setup pr syms s = Some (Done () s8)
    \<and> displays (blank_screen s) (line_bytes [''HELLO RondOS''] @ line_bytes [''Kernel Size '', show_dec (ks div 1024), '' KiB'']
        @ line_bytes [''Available Memory Size '', show_dec (ms div 1024), '' KiB'']) s8
    \<and> unat ms = card (usable_bytes ls) \<and> PAGE_ALLOC s8 = UNINIT \<and> map_in_memory ls s8 \<and> esp_reg s8 = esp_reg s"
proof -
  note rdy = assms(1) [unfolded boot_ready_def]
  have uart: "uart_at (SerialPort 0x3f8) s" using rdy by (simp add: uart_at_def)
  have u: "SERIAL_IO s = UNINIT" "VGA_BUFFER s = UNINIT" using rdy by simp_all
  obtain evs where e: "serial_println pr [''RondOS> HELLO RondOS''] s = Some (Done () (s\<lparr>SERIAL_IO := ready (SerialPort 0x3f8),
        io := io s @ map (\<lambda>(p, d). Out p d) serial_setup @ evs\<rparr>))"
      "transmits 0x3f8 (concat (map wire (line_bytes [''RondOS> HELLO RondOS'']))) evs"
    using serial_println_first_run [OF u(1) uart, of pr "[''RondOS> HELLO RondOS'']"] unfolding line_bytes_def by blast
  define s1 where "s1 = s\<lparr>SERIAL_IO := ready (SerialPort 0x3f8), io := io s @ map (\<lambda>(p, d). Out p d) serial_setup @ evs\<rparr>"
  have s1: "serial_println pr [''RondOS> HELLO RondOS''] s = Some (Done () s1)" "VGA_BUFFER s1 = UNINIT" "io_frame s s1" "ram s1 = ram s"
    using e(1) serial_println_first_wp [OF u(1) uart, of pr "[''RondOS> HELLO RondOS'']"] u(2) by (simp_all add: s1_def wp_def)
  have b: "screen_up (blank_screen s1)" "screen_attr (blank_screen s1) = screen_attr (blank_screen s)"
      "screen_state (blank_screen s1) = screen_state (blank_screen s)" "io_frame s1 (blank_screen s1)"
    using vga_new_inv screen_cong [of "blank_screen s1" "blank_screen s"] s1(4) vga_frame_io_frame [of s1 s1 "ready vga_new"]
    by (simp_all add: screen_up_def screen_attr_def screen_state_def terminal_of_def)
  obtain s2 where s2: "println pr [''HELLO RondOS''] s1 = Some (Done () s2)" "displays (blank_screen s) (line_bytes [''HELLO RondOS'']) s2"
      "io_frame s1 s2"
    using println_displays [OF b(1), of pr "[''HELLO RondOS'']"] vga_print_first [OF s1(2), of pr] b(2,3) io_frame_trans [OF b(4)]
    by (auto simp: println_def displays_def)
  have f2: "io_frame s s2" by (rule io_frame_trans [OF s1(3) s2(3)])
  obtain s3 where s3: "println pr [''Kernel Size '', show_dec (ks div 1024), '' KiB''] s2 = Some (Done () s3)"
      "displays s2 (line_bytes [''Kernel Size '', show_dec (ks div 1024), '' KiB'']) s3" "io_frame s2 s3"
    using println_displays [OF displays_up [OF s2(2)]] by blast
  have f3: "io_frame s s3" by (rule io_frame_trans [OF f2 s3(3)])
  obtain ms where ms: "available_mem_size pr s3 = Some (Done ms s3)" "unat ms = card (usable_bytes ls)"
    using available_mem_size_card [OF map_in_memory_read [OF io_frame_map [OF f3]]] rdy by (auto simp: map_ok_def)
  obtain s4 where s4: "println pr [''Available Memory Size '', show_dec (ms div 1024), '' KiB''] s3 = Some (Done () s4)"
      "displays s3 (line_bytes [''Available Memory Size '', show_dec (ms div 1024), '' KiB'']) s4" "io_frame s3 s4"
    using println_displays [OF displays_up [OF s3(2)]] by blast
  have f4: "io_frame s s4" by (rule io_frame_trans [OF f3 s4(3)])
  have "INTR_TABLE s4 = UNINIT" using io_frame_simps(1) [OF f4] rdy by simp
  then obtain s5 s6 s7 s8 where devs:
    "pic_init s4 = Some (Done () s5)" "pit_configure_channel pr 0 2 TIMER_FREQ s5 = Some (Done () s6)"
    "install_handlers pr syms s6 = Some (Done () s7)" "sti s7 = Some (Done () s8)"
    and s8: "PAGE_ALLOC s8 = PAGE_ALLOC s4" "ram s8 = ram s4" "VGA_BUFFER s8 = VGA_BUFFER s4" "esp_reg s8 = esp_reg s4"
    using boot_devices [OF displays_up [OF s4(2)], of pr syms] by metis
  have "displays s4 [] s8" using s8 by (intro displays_same displays_up [OF s4(2)]) simp_all
  from displays_append [OF s2(2) displays_append [OF s3(2) displays_append [OF s4(2) this]]]
  have "displays (blank_screen s) (line_bytes [''HELLO RondOS''] @ line_bytes [''Kernel Size '', show_dec (ks div 1024), '' KiB'']
        @ line_bytes [''Available Memory Size '', show_dec (ms div 1024), '' KiB'']) s8" by simp
  moreover have "boot_setup pr syms s = Some (Done () s8)"
    using kernel_size_frame [OF f2 assms(2)] s1(1) s2(1) s3(1) ms(1) s4(1) devs by (simp add: boot_setup_def andthen_run bnd_run)
  moreover have "PAGE_ALLOC s8 = UNINIT" "map_in_memory ls s8" "esp_reg s8 = esp_reg s"
    using s8 io_frame_simps(2,6) [OF f4] io_frame_map [OF f4] rdy by (simp_all add: map_in_memory_def)
  moreover have "io s1 = io s @ map (\<lambda>(p, d). Out p d) serial_setup @ evs" by (simp add: s1_def)
  ultimately show ?thesis using s1(1) e(2) ms(2) by blast
qed

lemma boot_rest_output:
  assumes "screen_up s" "PAGE_ALLOC s = UNINIT" "map_in_memory ls s" "map_ok ls"
  shows "\<exists>p s'. boot_rest pr s = Some (Done () s')
    \<and> displays s (concat (map (\<lambda>l. line_bytes [layout_text l]) ls) @ line_bytes [''esp page: '', show_hex (pg_round_down (esp_reg s))]
        @ line_bytes [show_dec (42 :: u32), '' at '', show_ptr p]) s'
    \<and> unat p = 0xc0100000 + 4096 * bitmap_pages (card (usable_bytes ls) mod 2 ^ 32 div 4096)"
proof -
  have k: "known_kinds ls" using assms(4) by (simp add: map_ok_def)
  obtain s1 where s1: "print_map pr ls s = Some (Done () s1)" "displays s (concat (map (\<lambda>l. line_bytes [layout_text l]) ls)) s1" "io_frame s s1"
    using print_map_displays [OF assms(1) k] by blast
  have e: "esp_reg s1 = esp_reg s" by (rule io_frame_simps(6) [OF s1(3)])
  obtain s2 where s2: "println pr [''esp page: '', show_hex (pg_round_down (esp_reg s))] s1 = Some (Done () s2)"
      "displays s1 (line_bytes [''esp page: '', show_hex (pg_round_down (esp_reg s))]) s2" "io_frame s1 s2"
    using println_displays [OF displays_up [OF s1(2)]] by blast
  have f2: "io_frame s s2" by (rule io_frame_trans [OF s1(3) s2(3)])
  obtain pa r where box: "box_new_i32 pr 42 s2 = Some (Done (base_addr pa) (s2\<lparr>ram := r, PAGE_ALLOC := ready pa\<rparr>))"
      and low: "\<forall>a. unat a < 0xc0100000 \<longrightarrow> r a = ram s2 a"
      and p: "unat (base_addr pa) = 0xc0100000 + 4096 * bitmap_pages (card (usable_bytes ls) mod 2 ^ 32 div 4096)"
    using box_new_first [of s2 ls pr 42] assms(2-4) io_frame_simps(2) [OF f2] io_frame_map [OF f2] by auto
  let ?s3 = "s2\<lparr>ram := r, PAGE_ALLOC := ready pa\<rparr>"
  have "r (VGA_BUFFER_ADDR + of_nat j) = ram s2 (VGA_BUFFER_ADDR + of_nat j)" if "j < 4000" for j
  proof -
    have "unat (VGA_BUFFER_ADDR + of_nat j) = 0xc00b8000 + j"
      using that by (simp add: VGA_BUFFER_ADDR_def unat_plus_bounded unat_of_nat_bounded)
    then show ?thesis using low that by simp
  qed
  then have d3: "displays s2 [] ?s3" by (intro displays_same displays_up [OF s2(2)]) simp_all
  obtain s4 where s4: "println pr [show_dec (42 :: u32), '' at '', show_ptr (base_addr pa)] ?s3 = Some (Done () s4)"
      "displays ?s3 (line_bytes [show_dec (42 :: u32), '' at '', show_ptr (base_addr pa)]) s4"
    using println_displays [OF displays_up [OF d3]] by blast
  have "boot_rest pr s = Some (Done () s4)"
    unfolding boot_rest_def
    using map_in_memory_read [OF assms(3)] s1(1) s2(1) box s4(1) e by (simp add: bnd_run andthen_run esp_def run_basic)
  moreover note displays_append [OF s1(2) displays_append [OF s2(2) displays_append [OF d3 s4(2)]]]
  ultimately show ?thesis using p by (intro exI [of _ "base_addr pa"] exI [of _ s4]) simp
qed

text \<open>
  C7: What booting shows. The screen state begins at the first print; from there to the halt loop
  exactly what \<open>boot_text\<close> says is put on the screen: the greeting, the size of the image and of the usable memory in
  KiB, the memory map line by line, the page of the stack pointer, and the boxed 42 with its
  address, the first page behind the bitmap. Before that the serial line is programmed and its greeting sent.
\<close>

theorem boot_output:
  assumes "boot_ready ls s" and "get_kernel_size s = Some (Done ks s)"
  shows "\<exists>s' ms p s1 evs. boot pr syms s = Some (Done () s')
    \<and> screen_state s' = t_puts (screen_attr s') (boot_text ks ms ls (esp_reg s) p) \<lparr>rows = screen s, column = 0\<rparr>
    \<and> unat ms = card (usable_bytes ls) \<and> unat p = 0xc0100000 + 4096 * bitmap_pages (card (usable_bytes ls) mod 2 ^ 32 div 4096)
    \<and> serial_println pr [''RondOS> HELLO RondOS''] s = Some (Done () s1)
    \<and> io s1 = io s @ map (\<lambda>(p, d). Out p d) serial_setup @ evs
    \<and> transmits 0x3f8 (bytes_of ''RondOS> HELLO RondOS'' @ [0x0a]) evs"
proof -
  obtain s1 evs s8 and ms :: u64 where up: "serial_println pr [''RondOS> HELLO RondOS''] s = Some (Done () s1)"
      "io s1 = io s @ map (\<lambda>(p, d). Out p d) serial_setup @ evs"
      "transmits 0x3f8 (concat (map wire (line_bytes [''RondOS> HELLO RondOS'']))) evs" "boot_setup pr syms s = Some (Done () s8)"
      "displays (blank_screen s) (line_bytes [''HELLO RondOS''] @ line_bytes [''Kernel Size '', show_dec (ks div 1024), '' KiB'']
        @ line_bytes [''Available Memory Size '', show_dec (ms div 1024), '' KiB'']) s8"
      "unat ms = card (usable_bytes ls)" "PAGE_ALLOC s8 = UNINIT" "map_in_memory ls s8" "esp_reg s8 = esp_reg s"
    using boot_setup_output [OF assms, of pr syms] by blast
  have ok: "map_ok ls" using assms(1) by (simp add: boot_ready_def)
  obtain p s' where rest: "boot_rest pr s8 = Some (Done () s')"
      "displays s8 (concat (map (\<lambda>l. line_bytes [layout_text l]) ls) @ line_bytes [''esp page: '', show_hex (pg_round_down (esp_reg s))]
        @ line_bytes [show_dec (42 :: u32), '' at '', show_ptr p]) s'"
      "unat p = 0xc0100000 + 4096 * bitmap_pages (card (usable_bytes ls) mod 2 ^ 32 div 4096)"
    using boot_rest_output [OF displays_up [OF up(5)] up(7,8) ok, of pr] unfolding up(9) by blast
  have "displays (blank_screen s) (boot_text ks ms ls (esp_reg s) p) s'"
    using displays_append [OF up(5) rest(2)] by (simp add: boot_text_def)
  moreover have "screen_state (blank_screen s) = \<lparr>rows = screen s, column = 0\<rparr>"
    using screen_cong [of "blank_screen s" s] by (simp add: screen_state_def terminal_of_def vga_new_def)
  ultimately have "screen_state s' = t_puts (screen_attr s') (boot_text ks ms ls (esp_reg s) p) \<lparr>rows = screen s, column = 0\<rparr>"
    by (simp add: displays_def)
  moreover have "concat (map wire (line_bytes [''RondOS> HELLO RondOS''])) = bytes_of ''RondOS> HELLO RondOS'' @ [0x0a]"
    by code_simp
  moreover have "boot pr syms s = Some (Done () s')" using up(4) rest(1) by (simp add: boot_def andthen_run)
  ultimately show ?thesis using up rest(3) by metis
qed

theorem boot_output_witness:
  "\<exists>ks s' ms p. get_kernel_size sample_boot = Some (Done ks sample_boot) \<and> boot Debug sample_symbols sample_boot = Some (Done () s')
    \<and> screen_state s' = t_puts (screen_attr s') (boot_text ks ms sample_map (esp_reg sample_boot) p) \<lparr>rows = screen sample_boot, column = 0\<rparr>
    \<and> unat ms = 0x1ef0000 \<and> unat p = 0xc0101000"
proof -
  obtain ks where ks: "get_kernel_size sample_boot = Some (Done ks sample_boot)" by (simp add: get_kernel_size_def run_basic)
  have "card (usable_bytes sample_map) = 0x1ef0000"
    "0xc0100000 + 4096 * bitmap_pages (card (usable_bytes sample_map) mod 2 ^ 32 div 4096) = 0xc0101000"
    by (simp_all add: sample_usable bitmap_pages_def)
  then show ?thesis using boot_output [OF sample_boot_ready ks, of Debug sample_symbols] ks by metis
qed

section \<open>Booting under interrupts\<close>

text \<open>What the entry point still prints from each place on.\<close>

definition box_addr :: "MemLayout list \<Rightarrow> usize" where
  "box_addr ls = of_nat (0xc0100000 + 4096 * bitmap_pages (card (usable_bytes ls) mod 2 ^ 32 div 4096))"

definition box_line :: "usize \<Rightarrow> u8 list" where
  "box_line p = line_bytes [show_dec (42 :: u32), '' at '', show_ptr p]"

definition map_lines :: "usize \<Rightarrow> MemLayout list \<Rightarrow> u8 list" where
  "map_lines e ms = concat (map (\<lambda>l. line_bytes [layout_text l]) ms) @ line_bytes [''esp page: '', show_hex (pg_round_down e)]"

fun text_from :: "MemLayout list \<Rightarrow> usize \<Rightarrow> boot_pc \<Rightarrow> u8 list" where
  "text_from ls e Start = map_lines e ls @ box_line (box_addr ls)"
| "text_from ls e (Mapping ms) = map_lines e ms @ box_line (box_addr ls)"
| "text_from ls e Boxing = box_line (box_addr ls)"
| "text_from ls e (Showing p) = box_line p"
| "text_from ls e Halted = []"

lemma boot_next_text:
  assumes "booted syms s" "main_inv ls pc s B" "map_ok ls" "boot_next pr pc s = Some (Done (l, q) s')"
  shows "text_from ls (esp_reg s) pc = pending l @ text_from ls (esp_reg s) q"
proof (cases pc)
  case Start
  then have "get_memlayout s = Some (Done ls s)" using map_in_memory_read assms(2) by (simp add: early_def)
  then show ?thesis using assms(4) Start by (auto simp: bnd_run run_basic pending_def map_lines_def box_line_def)
next
  case (Mapping ms)
  show ?thesis
  proof (cases ms)
    case Nil
    then show ?thesis using assms(4) Mapping by (auto simp: bnd_run run_basic esp_def pending_def map_lines_def)
  next
    case (Cons m rest)
    then have "1 \<le> unat (raw_kind m)" "unat (raw_kind m) \<le> 5"
      using assms(2,3) Mapping by (auto simp: map_ok_def known_kinds_def)
    from layout_debug_text [OF this, of s] show ?thesis
      using assms(4) Mapping Cons by (auto simp: bnd_run run_basic pending_def map_lines_def box_line_def)
  qed
next
  case Boxing
  then obtain p t where p: "box_new_i32 pr 42 s = Some (Done p t)"
      "unat p = 0xc0100000 + 4096 * bitmap_pages (card (usable_bytes ls) mod 2 ^ 32 div 4096)"
    using box_keeps [OF assms(1) _ assms(3), of B pr] assms(2) by auto
  have "p = box_addr ls" unfolding box_addr_def p(2) [symmetric] by simp
  then show ?thesis using p(1) assms(4) Boxing by (auto simp: bnd_run run_basic pending_def map_lines_def box_line_def)
qed (use assms(4) in \<open>auto simp: run_basic pending_def map_lines_def box_line_def\<close>)

text \<open>Everything written to the screen by then, and how the entry point and the handlers share it.\<close>

definition output_inv :: "symbols \<Rightarrow> MemLayout list \<Rightarrow> kernel \<Rightarrow> run \<Rightarrow> bool" where
  "output_inv syms ls s r \<longleftrightarrow> linked syms \<and> map_ok ls \<and> isr r \<subseteq> {2..7} \<and> main_inv ls (at_pc r) (kst r) (blocks r)
     \<and> writes syms s (shown r) (kst r) \<and> esp_reg (kst r) = esp_reg s \<and> shown r \<in> shuffles (own r) (heard r)
     \<and> own r @ todo r @ text_from ls (esp_reg s) (at_pc r) = text_from ls (esp_reg s) Start"

lemma env_step_writes:
  assumes "env_step pr syms r r'" "booted syms (kst r)" "linked syms"
  shows "\<exists>out. writes syms (kst r) out (kst r') \<and> shown r' = shown r @ out \<and> heard r' = heard r @ out \<and> own r' = own r"
  using assms(1)
proof cases
  case (timer f s')
  then show ?thesis
    using deliver_writes [OF assms(2,3), of 32 pr True 0 f s'] by (intro exI) (auto simp: irq_def)
next
  case (keyboard f s')
  then show ?thesis
    using deliver_writes [OF assms(2,3), of 33 pr True 0 f s'] by (intro exI) (auto simp: irq_def)
next
  case (stray vec f s')
  then show ?thesis
    using deliver_writes [OF assms(2,3), of vec pr True 0 f s'] by (intro exI) (auto simp: irq_def)
next
  case (trap vec err f s')
  then show ?thesis
    using deliver_writes [OF assms(2,3), of vec pr False err f s'] by (intro exI) auto
qed

lemma output_inv_own:
  assumes "output_inv syms ls s r" "own_step pr r r'"
  shows "output_inv syms ls s r'"
proof -
  have inv: "main_inv ls (at_pc r) (kst r) (blocks r)" "map_ok ls" "writes syms s (shown r) (kst r)" "esp_reg (kst r) = esp_reg s"
    using assms(1) by (simp_all add: output_inv_def)
  have b: "booted syms (kst r)" using inv(3) by (simp add: writes_def)
  show ?thesis
    using assms(2)
  proof cases
    case (next_byte c cs s')
    have "shown r @ [c] \<in> shuffles (own r @ [c]) (heard r)"
      using assms(1) shuffles_append [of "shown r" "own r" "heard r" "[c]" "[c]" "[]"] by (simp add: output_inv_def)
    then show ?thesis
      using put_byte_keeps [OF b inv(1) next_byte(3)] writes_trans [OF inv(3), of "[c]" s'] assms(1)
      by (simp add: output_inv_def next_byte(1,2))
  next
    case (next_statement l q s')
    have k: "booted syms s'" "main_inv ls q s' (new_blocks (at_pc r) q \<union> blocks r)" "same_but_heap (kst r) s'"
      using boot_next_keeps [OF b inv(1,2), of pr] next_statement(4) by auto
    have "writes syms s (shown r) s'" using writes_trans [OF inv(3) same_but_heap_writes [OF k(3,1)]] by simp
    moreover have "esp_reg s' = esp_reg s" using k(3) inv(4) by (simp add: same_but_heap_def)
    ultimately show ?thesis
      using k(2) assms(1) boot_next_text [OF b inv(1,2) next_statement(4)]
      by (simp add: output_inv_def next_statement(1,2))
  qed
qed

lemma output_inv_client:
  assumes "output_inv syms ls s r" "at_pc r = Halted" "heap_step pr (kst r, blocks r) (s', B)"
  shows "output_inv syms ls s (r\<lparr>kst := s', blocks := B\<rparr>)"
proof -
  obtain pa where pa: "data_ptr (bitmap pa) = 0xc0100000" "heap_inv pa (kst r, blocks r)" and w: "writes syms s (shown r) (kst r)"
    using assms(1,2) by (auto simp: output_inv_def heap_ready_def)
  obtain m where m: "s' = (kst r)\<lparr>ram := m\<rparr>" using heap_step_ram [OF pa(2) assms(3)] by blast
  then have "booted syms s'" using w by (simp add: writes_def booted_def screen_up_def)
  then have "writes syms (kst r) [] s'" by (rule same_but_heap_writes [OF heap_step_same [OF pa(2,1) assms(3)]])
  from writes_trans [OF w this] have "writes syms s (shown r) s'" by simp
  moreover have "heap_inv pa (s', B)" by (rule heap.inv_step [OF pa(2) assms(3)])
  ultimately show ?thesis using assms(1,2) pa(1) m by (auto simp: output_inv_def heap_ready_def)
qed

lemma output_inv_env:
  assumes "output_inv syms ls s r" "env_step pr syms r r'"
  shows "output_inv syms ls s r'"
proof -
  have inv: "main_inv ls (at_pc r) (kst r) (blocks r)" "writes syms s (shown r) (kst r)" "linked syms" "isr r \<subseteq> {2..7}"
    using assms(1) by (simp_all add: output_inv_def)
  have b: "booted syms (kst r)" using inv(2) by (simp add: writes_def)
  obtain out where out: "writes syms (kst r) out (kst r')" "shown r' = shown r @ out" "heard r' = heard r @ out" "own r' = own r"
    using env_step_writes [OF assms(2) b inv(3)] by blast
  have "finite (isr r)" using inv(4) by (rule finite_subset) simp
  note f = env_step_frame [OF assms(2) b inv(3) this]
  have "shown r' \<in> shuffles (own r') (heard r')"
    using assms(1) shuffles_append [of "shown r" "own r" "heard r" out "[]" out] by (simp add: output_inv_def out)
  moreover have "main_inv ls (at_pc r') (kst r') (blocks r')" using f main_inv_env inv(1) by metis
  moreover have "isr r' \<subseteq> {2..7}" using f inv(4) by auto
  moreover have "esp_reg (kst r') = esp_reg s" using f assms(1) by (simp add: output_inv_def env_frame_def)
  moreover have "writes syms s (shown r') (kst r')" using writes_trans [OF inv(2) out(1)] out(2) by simp
  ultimately show ?thesis using assms(1) f out(4) by (simp add: output_inv_def)
qed

interpretation outputs: invariant_system
  "\<lambda>r. linked syms \<and> map_ok ls \<and> booted syms s \<and> early ls s {} \<and> r = run_start s" "run_step pr syms" "output_inv syms ls s"
  for pr syms ls s
proof
  show "output_inv syms ls s r" if "linked syms \<and> map_ok ls \<and> booted syms s \<and> early ls s {} \<and> r = run_start s" for r
    using that by (simp add: output_inv_def run_start_def writes_def)
  show "output_inv syms ls s r'" if "output_inv syms ls s r" "run_step pr syms r r'" for r r'
    using that(2) that(1) by cases (auto intro: output_inv_own output_inv_client output_inv_env)
qed

text \<open>The lines printed before interrupts are enabled.\<close>

definition setup_text :: "u32 \<Rightarrow> u64 \<Rightarrow> u8 list" where
  "setup_text ks ms = line_bytes [''HELLO RondOS''] @ line_bytes [''Kernel Size '', show_dec (ks div 1024), '' KiB'']
     @ line_bytes [''Available Memory Size '', show_dec (ms div 1024), '' KiB'']"

lemma boot_text_parts: "boot_text ks ms ls e (box_addr ls) = setup_text ks ms @ text_from ls e Start"
  by (simp add: boot_text_def setup_text_def map_lines_def box_line_def)

lemma unat_box_addr: "unat (box_addr ls) = 0xc0100000 + 4096 * bitmap_pages (card (usable_bytes ls) mod 2 ^ 32 div 4096)"
proof -
  have "card (usable_bytes ls) mod 2 ^ 32 div 4096 < 2 ^ 20" by (simp add: less_mult_imp_div_less)
  then have "bitmap_pages (card (usable_bytes ls) mod 2 ^ 32 div 4096) \<le> 33" by (simp add: bitmap_pages_def)
  then have "0xc0100000 + 4096 * bitmap_pages (card (usable_bytes ls) mod 2 ^ 32 div 4096) < 2 ^ 32" by simp
  then show ?thesis unfolding box_addr_def by (subst unat_of_nat_bounded) simp_all
qed

text \<open>
  C8: What booting shows, whatever interrupts it. Device interrupts and exceptions come between any
  two bytes of a print and between any two statements once interrupts are enabled, and their handlers
  print on the same screen. At every moment the screen is what the terminal specification makes of
  the lines printed before and of the bytes shown since; these are an interleaving of what the
  entry point and of what the handlers wrote; and the entry point has written, in order and without a
  gap, the boot text up to some place, and all of it when it has reached the halt loop.
\<close>

theorem boot_output_interleaved:
  assumes "boot_ready ls s" and "get_kernel_size s = Some (Done ks s)" and "linked syms"
    and "boot_setup pr syms s = Some (Done () s1)" and "(run_step pr syms)\<^sup>*\<^sup>* (run_start s1) r"
  shows "\<exists>ms p rest. unat ms = card (usable_bytes ls)
    \<and> unat p = 0xc0100000 + 4096 * bitmap_pages (card (usable_bytes ls) mod 2 ^ 32 div 4096)
    \<and> screen_state (kst r) = t_puts (screen_attr (kst r)) (setup_text ks ms @ shown r) \<lparr>rows = screen s, column = 0\<rparr>
    \<and> shown r \<in> shuffles (own r) (heard r)
    \<and> setup_text ks ms @ own r @ rest = boot_text ks ms ls (esp_reg s) p
    \<and> (at_pc r = Halted \<and> todo r = [] \<longrightarrow> rest = [])"
proof -
  obtain ms where up: "displays (blank_screen s) (setup_text ks ms) s1" "unat ms = card (usable_bytes ls)" "PAGE_ALLOC s1 = UNINIT"
      "map_in_memory ls s1" "esp_reg s1 = esp_reg s"
    using boot_setup_output [OF assms(1,2), of pr syms] assms(4) unfolding setup_text_def by auto
  have b: "booted syms s1" "map_ok ls"
    using boot_setup_run [OF assms(1), of pr syms] assms(1,4) by (auto simp: boot_ready_def)
  have "reach (\<lambda>r. linked syms \<and> map_ok ls \<and> booted syms s1 \<and> early ls s1 {} \<and> r = run_start s1) (run_step pr syms) (run_start s1)"
    by (rule reach_init) (use assms(3) b up(3,4) in \<open>simp add: early_def\<close>)
  from reach_star [OF assms(5) this] have inv: "output_inv syms ls s1 r" by (rule outputs.reach_inv)
  have blank: "screen_state (blank_screen s) = \<lparr>rows = screen s, column = 0\<rparr>"
    using screen_cong [of "blank_screen s" s] by (simp add: screen_state_def terminal_of_def vga_new_def)
  have "writes syms s1 (shown r) (kst r)" using inv by (simp add: output_inv_def)
  then have "screen_state (kst r) = t_puts (screen_attr (kst r)) (setup_text ks ms @ shown r) \<lparr>rows = screen s, column = 0\<rparr>"
    using up(1) by (simp add: displays_def writes_def t_puts_def blank)
  moreover have "shown r \<in> shuffles (own r) (heard r)" using inv by (simp add: output_inv_def)
  moreover have "setup_text ks ms @ own r @ (todo r @ text_from ls (esp_reg s) (at_pc r)) = boot_text ks ms ls (esp_reg s) (box_addr ls)"
    using inv unfolding output_inv_def up(5) boot_text_parts by metis
  ultimately show ?thesis
    using up(2) by (intro exI [of _ ms] exI [of _ "box_addr ls"] exI [of _ "todo r @ text_from ls (esp_reg s) (at_pc r)"])
      (simp add: unat_box_addr)
qed

theorem boot_output_interleaved_witness:
  "\<exists>ks ms p s1 r. get_kernel_size sample_boot = Some (Done ks sample_boot) \<and> boot_setup Debug sample_symbols sample_boot = Some (Done () s1)
    \<and> (run_step Debug sample_symbols)\<^sup>*\<^sup>* (run_start s1) r \<and> heard r \<noteq> [] \<and> unat p = 0xc0101000
    \<and> screen_state (kst r) = t_puts (screen_attr (kst r)) (setup_text ks ms @ shown r) \<lparr>rows = screen sample_boot, column = 0\<rparr>
    \<and> shown r \<in> shuffles (own r) (heard r) \<and> setup_text ks ms @ own r = boot_text ks ms sample_map (esp_reg sample_boot) p"
proof -
  obtain ks where ks: "get_kernel_size sample_boot = Some (Done ks sample_boot)" by (simp add: get_kernel_size_def run_basic)
  obtain s1 where s1: "boot_setup Debug sample_symbols sample_boot = Some (Done () s1)" "booted sample_symbols s1"
    using boot_setup_run [OF sample_boot_ready, of Debug sample_symbols] by blast
  obtain s2 where "deliver Debug sample_symbols False 3 0 sample_frame s1 = Some (Done () s2)"
    using deliver_reports [OF s1(2) sample_linked, of 3 False Debug 0 sample_frame] booted_println [OF s1(2)] by (auto simp: double_faults_def)
  then have "env_step Debug sample_symbols (run_start s1)
      ((handled Debug False 3 0 sample_frame s2 (run_start s1))\<lparr>isr := served s1 s2 {}\<rparr>)" (is "env_step _ _ _ ?r")
    using env_step.trap [of 3 Debug sample_symbols 0 sample_frame "run_start s1" s2] by (simp add: run_start_def)
  then have r: "run_step Debug sample_symbols (run_start s1) ?r" by (rule environment)
  have "run_init Debug sample_symbols (eoi_count (io s1)) (run_start s1)"
    using s1(1) sample_boot_ready sample_linked by (auto simp: run_init_def run_start_def)
  then have "run_inv sample_symbols (eoi_count (io s1)) ?r" using runs.inv_init runs.inv_step r by blast
  then obtain u where u: "(own_step Debug)\<^sup>*\<^sup>* ?r u" "todo u = []" "at_pc u = Halted" using own_to_halt by blast
  have ru: "(run_step Debug sample_symbols)\<^sup>*\<^sup>* (run_start s1) u"
    by (rule converse_rtranclp_into_rtranclp [of "run_step Debug sample_symbols", OF r own_steps_run [OF u(1)]])
  have "heard u \<noteq> []" using own_steps_ticks [OF u(1)] by (simp add: echo_def bytes_of_def)
  moreover have "0xc0100000 + 4096 * bitmap_pages (card (usable_bytes sample_map) mod 2 ^ 32 div 4096) = 0xc0101000"
    by (simp add: sample_usable bitmap_pages_def)
  ultimately show ?thesis
    using boot_output_interleaved [OF sample_boot_ready ks sample_linked s1(1) ru] ks s1(1) ru u(2,3) by auto
qed

end
