(* ===== verification/Spec2Isabelle.thy ===== *)
theory Spec2Isabelle
  imports RondPaging RondOutput
begin

text \<open>
  \<^bold>\<open>RondOS, a 32-bit x86 kernel: a model of its sources and their properties.\<close>

  The program is a freestanding kernel under \<open>src/kernel/src\<close> with a boot loader, \<open>loader.s\<close>. The
  loader reads itself and the kernel from the disk, collects the firmware's memory map, builds page
  tables, enters protected mode with paging, leaves
  the kernel size and the memory map at 0xc0020200 and jumps to \<open>main\<close>. The entry point
  prints banners on the serial line and the screen, sums up the usable memory, programs the
  interrupt controllers and the timer, installs six handlers in the interrupt table, enables
  interrupts, prints the memory map, boxes a number on the heap and halts; from then on the timer
  and the keyboard drive it. The serial line, the screen, the interrupt table and the page allocator
  are lazily constructed statics.

  \<^bold>\<open>Theories and sources.\<close>

  \<^item> \<open>RondPrelude\<close>: the language. A computation maps a state to an outcome (\<open>Done\<close>, \<open>Panicked\<close>
    with the state at that moment, \<open>Undefined\<close> behaviour) or to \<open>None\<close>, which is not returning.
    Sequencing, \<open>for\<close> loops, spin loops, checked arithmetic, a weakest-precondition rule set, and
    the locale \<open>invariant_system\<close> with reachability for the state machines.
  \<^item> \<open>RondBits\<close>: \<open>utils/mod.rs\<close>. Bit fields of unsigned words; the locale \<open>bit_access\<close> is the trait,
    interpreted on \<open>u8\<close>, \<open>u16\<close> and \<open>u32\<close>.
  \<^item> \<open>RondFmt\<close>: what the sources use of \<open>core::fmt\<close>: numbers, pointers, derived \<open>Debug\<close>, and
    \<open>write_fmt\<close> over a \<open>Write\<close>; the locale \<open>fmt_write\<close> is the contract of \<open>write_str\<close>.
  \<^item> \<open>RondMachine\<close>: \<open>arch/x86/mod.rs\<close>. The machine (byte-addressed memory, port history, registers)
    and the instructions the kernel uses; privilege levels and selectors.
  \<^item> \<open>RondPic\<close>: \<open>arch/x86/pic.rs\<close> and \<open>end_of_interrupt\<close>. The specification side reads the port
    history the way an 8259A does.
  \<^item> \<open>RondIntr\<close>: \<open>arch/x86/intr.rs\<close>. Gate options, entries, the table with all its members, its
    layout in memory, indexing and loading; the specification side decodes gates from bytes.
  \<^item> \<open>RondMem\<close>: \<open>loader.rs\<close> and \<open>mm/mod.rs\<close> up to the allocator: boot information, memory map,
    \<open>available_mem_size\<close>, \<open>pg_round_down\<close>.
  \<^item> \<open>RondPage\<close>: \<open>mm/page.rs\<close>. Bitmap, page allocator, page table entries; the locale \<open>page_map\<close> is
    what the allocator relies on, interpreted on the bitmap in memory.
  \<^item> \<open>RondSingleton\<close>: \<open>utils/singleton.rs\<close>, first for one thread of control (the locale
    \<open>static_cell\<close> is what a static promises its users), then as a step relation over the atomic
    accesses of any number of threads.
  \<^item> \<open>RondSerial\<close>: \<open>io/serial.rs\<close>; \<open>RondVga\<close>: \<open>io/vga.rs\<close>, with the terminal it refines.
  \<^item> \<open>RondKernel\<close>: the kernel state, which is the machine and the five statics; the printing macros,
    the global allocator and the thread descriptors of \<open>thread/mod.rs\<close>. The locale \<open>static_cell\<close> is
    interpreted on the four statics here.
  \<^item> \<open>RondHeap\<close>: properties of the global allocator and the heap as a state machine.
  \<^item> \<open>RondMain\<close>: \<open>main.rs\<close>: the six handlers, the panic handler, the scan code map, the entry point as
    \<open>boot_setup\<close> (up to \<open>sti\<close>) and \<open>boot_rest\<close>. \<open>RondBoot\<close>: the boot theorem and the panic handler.
  \<^item> \<open>RondIrq\<close>: from a vector to a handler the way the processor takes it through the table the
    kernel built, with gates that are not present, double faults and shutdown; what the handlers do;
    the lines the interrupt controller has in service.
  \<^item> \<open>RondRun\<close>: the kernel from \<open>sti\<close> on as a state machine: \<open>boot_next\<close> is one statement of the rest
    of the entry point, up to what it prints, which follows byte by byte; devices interrupt and exceptions occur between
    any two statements, between any two bytes and in the
    halt loop, where code that uses the heap may run too. The state of a run records what has been put
    on the screen and by whom.
  \<^item> \<open>RondPrint\<close>: a print taken byte by byte, with interrupts and exceptions between the bytes.
    \<open>RondOutput\<close>: the text the whole entry point puts on the screen and the serial line, and what is on
    the screen of a running kernel whatever interrupts the entry point.
  \<^item> \<open>RondLoader\<close>: \<open>loader.s\<close>, a function on registers and physical memory for each of its blocks,
    composed to \<open>run_loader\<close>; the record \<open>firmware\<close> stands for the two firmware services it calls.
    \<open>RondTables\<close>: the page tables it builds and what they make of addresses. \<open>RondDisk\<close>: \<open>disk.s\<close>, the disk
    loop and its check. \<open>RondDetect\<close>: the memory map.
  \<^item> \<open>RondStart\<close>: from the first sector to the halt loop; \<open>entered\<close> is how the kernel's state begins:
    its memory is the loader's seen through the page tables, and its statics are bytes of that memory, at the places \<open>static_places\<close>;
    \<open>runnable\<close> is what the image has to be like for the kernel to run from it. \<open>RondPaging\<close>: which of the memory the
    allocator manages is mapped, the image as the kernel finds it, segments, and the page tables of the running kernel.

  \<^bold>\<open>Conventions.\<close>

  Integers are words of their Rust width; \<open>usize\<close> and pointers have 32 bits. Arithmetic that the
  compiler checks takes the build profile \<open>pr\<close>: under \<open>Debug\<close> an overflow panics, under \<open>Release\<close> it
  wraps; theorems hold for both unless they name one. Assertions and array bounds are checked under
  both. Volatile accesses and writes through pointers act on the memory \<open>ram\<close>. Port accesses extend
  the history \<open>io\<close>; what a port read returns is an arbitrary function \<open>dev\<close> of the history, so a
  theorem about polling holds for every device with the stated behaviour. \<open>get_mut\<close> hands out the
  data of a static and stores it back when the method returns. Addresses of code and of the
  interrupt table, which the linker picks, are the record \<open>symbols\<close>.

  The statics are fields of the kernel state and not bytes of \<open>ram\<close>, although on the machine they lie in the image, in physical memory
  between 0x21000 and 0xa0000. What they are at the start is read from the loaded bytes; later, \<open>ram\<close> is not
  kept in step there, and no property of the running kernel depends on it: the one on the page tables leaves
  open what that part of memory holds (\<open>memory_of\<close>). This matters, as the loader lets words from 0x20000 on serve as page table entries.

  \<open>for\<close> loops recurse on the number of remaining iterations, which the ranges fix on entry. Spin
  loops and the loop of \<open>Singleton::init\<close> are partial functions; \<open>None\<close> is the least fixed point's
  value of a run that does not return; so is the loader's memory map loop, which a firmware may keep
  running. Its disk loop counts down a 16-bit word and terminates. No fuel is used. The halt loop, the loop of the panic
  handler and the loader's \<open>fail_loop\<close> are \<open>forever\<close>, proved to be \<open>None\<close>; the blocks of the loader that may end in \<open>fail_loop\<close> take it
  as an argument, so that the state it is entered in can be stated.

  \<^bold>\<open>What is shown.\<close>

  \<^item> Loader: the page tables and the translation of every address; which bytes of the image the disk
    loop brings in, which it leaves out, and when it ends in the message of a failed load; the memory map in memory, and the mark it leaves when the firmware fails;
    the kernel's file as the kernel finds it; flat segments; with a bootable disk it ends in the jump to the kernel with what the kernel relies on
    in place; from an image that no gap tears and that has zeros where the statics lie, the kernel boots. The allocator's memory is mapped up to 64 MiB and is
    not from 256 MiB on. A running kernel keeps the tables, and with them the translation of every
    address outside the windows from 64 to 256 MiB, and its blocks stay mapped.
  \<^item> Boot: under the stated conditions on the machine \<open>boot\<close> returns, the state it leaves has the
    gates, controllers, screen and heap as intended, the text it prints is known, and \<open>main\<close> does not return. The entry point
    taken step by step - statements, and the bytes they print - reaches the halt loop in exactly the state \<open>boot\<close> does.
  \<^item> The running kernel: whatever interrupts and exceptions arrive from \<open>sti\<close> on, every statement of
    the entry point returns and the halt loop stays reachable; the set-up is kept, ticks are counted,
    each timer and keyboard interrupt is acknowledged once and both stay deliverable; live heap blocks
    stay aligned, inside the managed memory, disjoint and untouched by handlers; the screen shows an interleaving of
    the boot text so far and of what the handlers print, which loses, repeats and reorders nothing of either. A line without a handler
    is never acknowledged and blocks itself and all lower ones. Exceptions are reported; those that
    escalate panic. The scan code map is total but for code 0. Panics are reported.
  \<^item> Heap: layout on construction, first fit, exhaustion, rejection of foreign frees, round trip,
    alignment; as a state machine, live blocks keep their contents under allocations and frees of
    other blocks. The bitmap operations refine operations on the set of used pages, on runs that leave the bitmap too.
  \<^item> Statics: construction at most once under every interleaving, no lost value, no deadlock; a run
    of the sequential model is a run of one thread over the atomic accesses.
  \<^item> Screen: every write refines the terminal; the hardware cursor follows; lines and clearing.
    Serial line: a text goes out byte by byte on a line that becomes ready, and hangs on one that
    never does; a wait ends exactly when a read shows the flag; receiving; the programmed mode.
  \<^item> Interrupt table, controllers, timer: gates as the processor reads them, the vectors \<open>index\<close>
    accepts, the places \<open>index_mut\<close> hands out, the remapped controllers, the timer divisor and the order of its bytes.
  \<^item> Memory map: reading it back, and the sum as the size of the union of the usable ranges, with
    the failure on maps that are out of order. Bit fields, selectors, page table entries: round
    trips and rejected arguments.

  \<^bold>\<open>Not modelled.\<close> The firmware itself, whose disk reads and memory map queries are parameters with
  the documented behaviour as hypotheses. That the bytes of the kernel's file are the compiled kernel and where the linker puts its
  statics: the model of the kernel is the meaning of its source, and an image torn by the gaps of the disk loop, or with other bytes than zero under its statics,
  is outside of what is shown about booting from the disk. The contents of the stack, which lies below the page
  tables, and an overflow of it. Memory of the kernel is addressed by its own addresses; the second view of the same
  memory from address 0 on, which the loader leaves in place and the kernel does not use, is not
  kept in step. Build and link configuration. \<open>cti()\<close>, whose
  mnemonic no assembler knows. Interrupts inside a statement other than between the bytes of a print:
  in the middle of \<open>putc\<close> or of the allocator the interrupted code's view of the static is up to the
  compiler, as the handler's exclusive reference aliases it. Between two bytes, too, \<open>_vga_print\<close> holds the exclusive reference it took at the
  start; the model looks at the static again for every byte, which is what the code does as long as the compiler keeps the
  column in the static and not in a register across the calls of \<open>putc\<close>. Spurious interrupts of the controllers,
  which carry a line number but are not in service. Nested interrupts: handlers run with interrupts
  disabled, as all gates are interrupt gates. Memory ordering weaker than the interleaving of the
  atomic accesses. The text of \<open>PanicInfo\<close> is an argument.
\<close>

section \<open>Boot as steps\<close>

text \<open>
  The steps of the running kernel are the entry point. From the moment interrupts are enabled,
  statements and bytes of prints taken one by one, with no interrupt in between, reach the halt loop
  in exactly the state the rest of the boot sequence computes.
\<close>

theorem boot_is_steps:
  assumes "run_init pr syms c r"
  shows "boot_rest pr (kst r) = Some (Done () t)
    \<longleftrightarrow> (\<exists>u. (own_step pr)\<^sup>*\<^sup>* r u \<and> todo u = [] \<and> at_pc u = Halted \<and> kst u = t)"
  using own_steps_boot [OF runs.inv_init [OF assms], of "kst r" pr t] assms by (simp add: run_init_def)

theorem boot_is_steps_witness:
  "\<exists>s t u. boot_setup Debug sample_symbols sample_boot = Some (Done () s) \<and> boot_rest Debug s = Some (Done () t)
    \<and> (own_step Debug)\<^sup>*\<^sup>* (run_start s) u \<and> at_pc u = Halted \<and> kst u = t"
proof -
  obtain s where s: "boot_setup Debug sample_symbols sample_boot = Some (Done () s)"
    using boot_setup_run [OF sample_boot_ready, of Debug sample_symbols] by blast
  obtain t where t: "boot Debug sample_symbols sample_boot = Some (Done () t)"
    using boot_run [OF sample_boot_ready, of Debug sample_symbols] by blast
  have "boot_rest Debug s = Some (Done () t)" using s t by (simp add: boot_def andthen_run)
  moreover have "run_init Debug sample_symbols (eoi_count (io s)) (run_start s)"
    using s sample_boot_ready sample_linked by (auto simp: run_init_def run_start_def)
  from boot_is_steps [OF this, of t] have "boot_rest Debug s = Some (Done () t)
      \<longleftrightarrow> (\<exists>u. (own_step Debug)\<^sup>*\<^sup>* (run_start s) u \<and> todo u = [] \<and> at_pc u = Halted \<and> kst u = t)"
    by (simp add: run_start_def)
  ultimately show ?thesis using s by blast
qed

section \<open>The running kernel\<close>

text \<open>
  C3: From the moment interrupts are enabled, whatever interrupts and exceptions arrive between the
  statements of the entry point, between the bytes they print or in the halt loop: interrupts stay enabled, the gates, the
  controllers and the screen stay as they were set up; the tick counter is the number of timer
  interrupts served (modulo 2^64); and every timer and keyboard interrupt has been acknowledged
  exactly once, every other one not at all.
\<close>

theorem interrupts_accounted:
  assumes "reach (run_init pr syms c) (run_step pr syms) r"
  shows "booted syms (kst r) \<and> unat (TICKS (kst r)) = ticks r mod 2 ^ 64 \<and> eoi_count (io (kst r)) = c + ticks r + keys r"
  using runs.reach_inv [OF assms] by (simp add: run_inv_def)

theorem interrupts_accounted_witness:
  "\<exists>r c. reach (run_init Debug sample_symbols c) (run_step Debug sample_symbols) r \<and> ticks r = 1
    \<and> unat (TICKS (kst r)) = 1 \<and> eoi_count (io (kst r)) = c + 1"
proof -
  obtain r c where r: "reach (run_init Debug sample_symbols c) (run_step Debug sample_symbols) r" "ticks r = 1" "keys r = 0"
    using sample_tick by metis
  then show ?thesis using interrupts_accounted [OF r(1)] by auto
qed

text \<open>
  C9: In every such state both devices can be served: a timer interrupt returns and is counted,
  unless a debug build has already counted 2^64 - 1 of them; a keyboard interrupt returns and is
  counted unless the keyboard delivers scan code 0, which panics with nothing but that read done.
\<close>

theorem interrupts_serviced:
  assumes "reach (run_init pr syms c) (run_step pr syms) r"
  shows "(ticks r + 1 < 2 ^ 64 \<or> pr = Release \<longrightarrow> (\<exists>s'. irq pr syms 0x20 f (kst r) = Some (Done () s')
        \<and> env_step pr syms r (r\<lparr>kst := s', ticks := Suc (ticks r)\<rparr>)))
    \<and> (if dev (kst r) (io (kst r)) 0x60 = 0
       then irq pr syms 0x21 f (kst r)
         = Some (Panicked (PanicMsg ''Error Scancode 0x00'') ((kst r)\<lparr>io := io (kst r) @ [In 0x60 0]\<rparr>))
       else \<exists>s'. irq pr syms 0x21 f (kst r) = Some (Done () s')
         \<and> env_step pr syms r ((handled pr True 0x21 0 f s' r)\<lparr>keys := Suc (keys r)\<rparr>))"
  using run_tick [OF runs.reach_inv [OF assms], of pr f] run_key [OF runs.reach_inv [OF assms], of pr f] by (intro conjI)

theorem interrupts_serviced_witness:
  "\<exists>r s' c. reach (run_init Debug sample_symbols c) (run_step Debug sample_symbols) r \<and> ticks r = 1
    \<and> irq Debug sample_symbols 0x20 sample_frame (kst r) = Some (Done () s')"
proof -
  obtain r c where r: "reach (run_init Debug sample_symbols c) (run_step Debug sample_symbols) r" "ticks r = 1"
    using sample_tick by metis
  then have "\<exists>s'. irq Debug sample_symbols 0x20 sample_frame (kst r) = Some (Done () s')"
    using interrupts_serviced [OF r(1), of sample_frame] by auto
  then show ?thesis using r by blast
qed

text \<open>
  C6: Booting with interrupts. In every reachable state the entry point can go on: within a print
  the next byte can be written, otherwise the next statement returns; so that the kernel can always
  get to its halt loop, whatever interrupts and exceptions
  came in between; and when the last line is printed, the box it shows is a live block that holds 42.
\<close>

theorem boot_completes:
  assumes "reach (run_init pr syms c) (run_step pr syms) r"
  shows "(\<forall>b bs. todo r = b # bs \<longrightarrow> (\<exists>s'. put_byte pr b (kst r) = Some (Done () s')))
    \<and> (\<exists>l q s'. boot_next pr (at_pc r) (kst r) = Some (Done (l, q) s'))
    \<and> (\<exists>u. (run_step pr syms)\<^sup>*\<^sup>* r u \<and> todo u = [] \<and> at_pc u = Halted)
    \<and> (\<forall>p. at_pc r = Showing p \<longrightarrow> blocks r = {(p, 4)} \<and> ram_slice (ram (kst r)) p 4 = bytes_of_word 4 (42 :: u32))"
proof -
  have inv: "run_inv syms c r" by (rule runs.reach_inv [OF assms])
  then obtain ls where ls: "booted syms (kst r)" "main_inv ls (at_pc r) (kst r) (blocks r)" "map_ok ls"
    by (auto simp: run_inv_def)
  have "\<exists>l q s'. boot_next pr (at_pc r) (kst r) = Some (Done (l, q) s')" using boot_next_keeps [OF ls, of pr] by blast
  then show ?thesis using run_to_halt [OF inv, of pr] put_byte_writes [OF ls(1), of pr] ls(2) by auto
qed

theorem boot_completes_witness:
  "\<exists>r c u. reach (run_init Debug sample_symbols c) (run_step Debug sample_symbols) r \<and> at_pc r = Start
    \<and> (run_step Debug sample_symbols)\<^sup>*\<^sup>* r u \<and> at_pc u = Halted"
proof -
  obtain r c where r: "reach (run_init Debug sample_symbols c) (run_step Debug sample_symbols) r" "at_pc r = Start"
    using sample_tick by metis
  then show ?thesis using boot_completes [OF r(1)] by blast
qed

text \<open>
  C4: The heap of the running kernel. In every reachable state the live blocks, the entry point's box
  among them at first, start on page boundaries, lie inside the managed memory and share no byte.
\<close>

theorem running_blocks_disjoint:
  assumes "reach (run_init pr syms c) (run_step pr syms) r" and "(p, sz) \<in> blocks r"
  shows "\<exists>pa. heap_of pa (kst r) \<and> unat p mod 4096 = 0 \<and> unat (base_addr pa) \<le> unat p
    \<and> unat p + unat sz \<le> unat (base_addr pa) + 4096 * page_count pa
    \<and> (\<forall>(q, sq) \<in> blocks r. (q, sq) \<noteq> (p, sz) \<longrightarrow> unat p + unat sz \<le> unat q \<or> unat q + unat sq \<le> unat p)"
proof -
  have "heap_ready (kst r) (blocks r)"
    by (rule run_inv_heap [OF runs.reach_inv [OF assms(1)]]) (use assms(2) in blast)
  then obtain pa where pa: "heap_inv pa (kst r, blocks r)" by (auto simp: heap_ready_def)
  then show ?thesis using heap_inv_blocks [OF pa assms(2)] by (auto simp: heap_inv_def)
qed

theorem running_blocks_disjoint_witness:
  "\<exists>r c p pa. reach (run_init Debug sample_symbols c) (run_step Debug sample_symbols) r \<and> blocks r = {(p, 4)}
    \<and> heap_of pa (kst r) \<and> unat p mod 4096 = 0 \<and> unat (base_addr pa) \<le> unat p"
proof -
  obtain r c p where r: "reach (run_init Debug sample_symbols c) (run_step Debug sample_symbols) r" "blocks r = {(p, 4)}"
    using sample_boxed by metis
  have "(p, 4) \<in> blocks r" using r(2) by simp
  from running_blocks_disjoint [OF r(1) this] obtain pa
    where "heap_of pa (kst r)" "unat p mod 4096 = 0" "unat (base_addr pa) \<le> unat p" by (elim exE conjE)
  with r show ?thesis by (intro exI conjI)
qed

text \<open>
  C26: Interrupt lines without a handler. The not-present handler that answers them does not
  acknowledge, so a line that once interrupted stays in service in every later state, and the
  controllers never deliver that line, or any of lower priority, again; the timer and the keyboard,
  which have the highest priority, are accepted in every reachable state.
\<close>

theorem stray_line_wedged:
  assumes "reach (run_init pr syms c) (run_step pr syms) r" and "(run_step pr syms)\<^sup>*\<^sup>* r u"
  shows "accepts (isr u) 0 \<and> accepts (isr u) 1 \<and> (\<forall>n \<in> isr r. n \<in> isr u \<and> (\<forall>m \<ge> n. \<not> accepts (isr u) m))"
proof -
  have "run_inv syms c u" by (rule runs.reach_inv [OF reach_star [OF assms(2,1)]])
  then have "accepts (isr u) 0" "accepts (isr u) 1" by (auto simp: run_inv_def accepts_def)
  then show ?thesis using isr_steps [OF assms(2,1)] by (fastforce simp: accepts_def)
qed

theorem stray_line_wedged_witness:
  "\<exists>r c u. reach (run_init Debug sample_symbols c) (run_step Debug sample_symbols) r \<and> isr r = {2}
    \<and> (run_step Debug sample_symbols)\<^sup>*\<^sup>* r u \<and> at_pc u = Halted \<and> accepts (isr u) 0 \<and> \<not> accepts (isr u) (line_of 0x2e)"
proof -
  obtain r c where r: "reach (run_init Debug sample_symbols c) (run_step Debug sample_symbols) r" "isr r = {2}"
    using sample_stray by metis
  obtain u where u: "(run_step Debug sample_symbols)\<^sup>*\<^sup>* r u" "at_pc u = Halted"
    using run_to_halt [OF runs.reach_inv [OF r(1)], of Debug] by metis
  then show ?thesis using stray_line_wedged [OF r(1) u(1)] r by (intro exI [of _ r] exI [of _ c] exI [of _ u]) (simp add: line_of_def)
qed

text \<open>
  C16: Interrupts and exceptions are invisible to the code they interrupt but for the screen, the
  tick counter and the port history: they change neither the place in the entry point nor the bytes a
  print has still to write nor the allocator nor a byte of a live block.
\<close>

theorem interrupts_keep_memory:
  assumes "reach (run_init pr syms c) (run_step pr syms) r" and "env_step pr syms r r'"
  shows "at_pc r' = at_pc r \<and> todo r' = todo r \<and> blocks r' = blocks r \<and> PAGE_ALLOC (kst r') = PAGE_ALLOC (kst r)
    \<and> (\<forall>(p, sz) \<in> blocks r. \<forall>a. unat (a - p) < unat sz \<longrightarrow> ram (kst r') a = ram (kst r) a)"
proof -
  have inv: "run_inv syms c r" by (rule runs.reach_inv [OF assms(1)])
  then have f: "env_frame (kst r) (kst r')" "at_pc r' = at_pc r" "todo r' = todo r" "blocks r' = blocks r"
    using env_step_frame [OF assms(2)] by (auto simp: run_inv_def intro: finite_subset)
  have "ram (kst r') a = ram (kst r) a" if "(p, sz) \<in> blocks r" "unat (a - p) < unat sz" for p sz a
  proof -
    have "heap_ready (kst r) (blocks r)" by (rule run_inv_heap [OF inv]) (use that(1) in blast)
    then obtain pa where pa: "data_ptr (bitmap pa) = 0xc0100000" "heap_inv pa (kst r, blocks r)" by (auto simp: heap_ready_def)
    have "0xc0100000 \<le> unat (base_addr pa)" using pa by (auto simp: heap_inv_def wf_pa_def)
    then show ?thesis using env_frame_high [OF f(1)] heap_inv_byte [OF pa(2) that] by simp
  qed
  then show ?thesis using f by (auto simp: env_frame_def)
qed

theorem interrupts_keep_memory_witness:
  "\<exists>r c p s'. reach (run_init Debug sample_symbols c) (run_step Debug sample_symbols) r \<and> blocks r = {(p, 4)}
    \<and> env_step Debug sample_symbols r (r\<lparr>kst := s', ticks := Suc (ticks r)\<rparr>) \<and> ram s' p = ram (kst r) p"
proof -
  obtain r c p where r: "reach (run_init Debug sample_symbols c) (run_step Debug sample_symbols) r" "blocks r = {(p, 4)}" "ticks r = 1"
    using sample_boxed by metis
  then obtain s' where st: "env_step Debug sample_symbols r (r\<lparr>kst := s', ticks := Suc (ticks r)\<rparr>)"
    using run_tick [OF runs.reach_inv [OF r(1)], of Debug] by auto
  then have "ram s' p = ram (kst r) p" using interrupts_keep_memory [OF r(1) st] r(2) by simp
  then show ?thesis using r(1,2) st by blast
qed

end
